(* ===== verification/Kr_Prelude.thy ===== *)
theory Kr_Prelude
  imports Main "HOL-Library.Word" "HOL-Library.Char_ord" "HOL-Library.List_Lexorder"
    "HOL-Library.Product_Lexorder"
begin

text \<open>
  Shared vocabulary of the development: the machine integers of the Rust sources, IP addresses and
  families (\<^verbatim>\<open>std::net::IpAddr\<close>, \<^verbatim>\<open>crates/common/src/ipfamily.rs\<close>), ordered sets and maps
  (\<^verbatim>\<open>BTreeSet\<close>, \<^verbatim>\<open>BTreeMap\<close>) as sorted lists, and the effect type of fallible operations on an external
  state (the \<^verbatim>\<open>async fn ... -> Result<_, _>\<close> methods of the traits behind which the program puts the
  kernel and the BGP engine).
\<close>

named_theorems eff_simps "unfolding rules for effectful computations"

unbundle bit_operations_syntax

section \<open>Machine integers\<close>

type_synonym u8 = "8 word"
type_synonym u16 = "16 word"
type_synonym u32 = "32 word"
type_synonym u64 = "64 word"

section \<open>Effectful computations\<close>

text \<open>
  An operation reads and writes a state and returns \<^verbatim>\<open>Ok\<close> (\<open>Inr\<close>) or \<^verbatim>\<open>Err\<close> (\<open>Inl\<close>). The state
  is returned in both cases: what an operation did before it failed stays done. The operator
  \<^verbatim>\<open>?\<close> of Rust is \<open>eff_bind\<close>, a \<^verbatim>\<open>for\<close> loop whose body ends in \<^verbatim>\<open>?\<close> is \<open>for_each\<close>.
\<close>

type_synonym ('s, 'e, 'a) eff = "'s \<Rightarrow> ('e + 'a) \<times> 's"

definition eff_ok :: "'a \<Rightarrow> ('s, 'e, 'a) eff" where
  [eff_simps]: "eff_ok a s = (Inr a, s)"

definition eff_fail :: "'e \<Rightarrow> ('s, 'e, 'a) eff" where
  [eff_simps]: "eff_fail e s = (Inl e, s)"

definition eff_bind :: "('s, 'e, 'a) eff \<Rightarrow> ('a \<Rightarrow> ('s, 'e, 'b) eff) \<Rightarrow> ('s, 'e, 'b) eff" where
  "eff_bind m f s = (case m s of (Inl e, s') \<Rightarrow> (Inl e, s') | (Inr a, s') \<Rightarrow> f a s')"

fun for_each :: "('x \<Rightarrow> ('s, 'e, unit) eff) \<Rightarrow> 'x list \<Rightarrow> ('s, 'e, unit) eff" where
  "for_each f [] s = (Inr (), s)"
| "for_each f (x # xs) s =
     (case f x s of (Inl e, s') \<Rightarrow> (Inl e, s') | (Inr _, s') \<Rightarrow> for_each f xs s')"

lemma eff_bind_Inr [eff_simps]: "m s = (Inr a, s') \<Longrightarrow> eff_bind m f s = f a s'"
  by (simp add: eff_bind_def)

lemma eff_bind_Inl [eff_simps]: "m s = (Inl e, s') \<Longrightarrow> eff_bind m f s = (Inl e, s')"
  by (simp add: eff_bind_def)

lemma for_each_append:
  "for_each f (xs @ ys) s =
     (case for_each f xs s of (Inl e, s') \<Rightarrow> (Inl e, s') | (Inr _, s') \<Rightarrow> for_each f ys s')"
  by (induction xs arbitrary: s) (auto split: prod.splits sum.splits)

text \<open>A loop over operations that cannot fail is a fold.\<close>

lemma for_each_total:
  assumes "\<And>x s. x \<in> set xs \<Longrightarrow> f x s = (Inr (), g x s)"
  shows "for_each f xs s = (Inr (), fold g xs s)"
  using assms by (induction xs arbitrary: s) auto

text \<open>An invariant of every single operation is an invariant of the loop, also when it fails.\<close>

lemma for_each_invariant:
  assumes "for_each f xs s = (r, s')" and "P s"
    and "\<And>x s r s'. x \<in> set xs \<Longrightarrow> P s \<Longrightarrow> f x s = (r, s') \<Longrightarrow> P s'"
  shows "P s'"
  using assms
proof (induction xs arbitrary: s)
  case Nil
  then show ?case by simp
next
  case (Cons x xs)
  obtain r1 s1 where fx: "f x s = (r1, s1)" by (cases "f x s")
  with Cons.prems have s1: "P s1" by (meson list.set_intros(1))
  show ?case
  proof (cases r1)
    case (Inl e)
    with Cons.prems(1) fx s1 show ?thesis by auto
  next
    case (Inr u)
    with Cons.prems(1) fx have "for_each f xs s1 = (r, s')" by simp
    then show ?thesis using s1 Cons.prems(3) by (rule Cons.IH) (auto intro: list.set_intros(2))
  qed
qed

section \<open>Addresses and families\<close>

text \<open>\<^verbatim>\<open>std::net::IpAddr\<close>; the octets of an address are its big-endian bytes.\<close>

datatype ip_addr = AddrV4 u32 | AddrV6 "128 word"

datatype ip_family = V4 | V6

fun is_ipv6 :: "ip_addr \<Rightarrow> bool" where
  "is_ipv6 (AddrV4 _) = False"
| "is_ipv6 (AddrV6 _) = True"

abbreviation is_ipv4 :: "ip_addr \<Rightarrow> bool" where
  "is_ipv4 a \<equiv> \<not> is_ipv6 a"

fun of_addr :: "ip_addr \<Rightarrow> ip_family" where
  "of_addr (AddrV4 _) = V4"
| "of_addr (AddrV6 _) = V6"

fun is_v6 :: "ip_family \<Rightarrow> bool" where
  "is_v6 V4 = False"
| "is_v6 V6 = True"

lemma is_v6_of_addr [simp]: "is_v6 (of_addr a) = is_ipv6 a"
  by (cases a) simp_all

text \<open>
  \<^verbatim>\<open>IpAddr\<close> derives its order: every IPv4 address is below every IPv6 address, and addresses of one
  family are ordered by their octets, that is numerically.
\<close>

instantiation ip_addr :: linorder
begin

fun less_eq_ip_addr :: "ip_addr \<Rightarrow> ip_addr \<Rightarrow> bool" where
  "less_eq_ip_addr (AddrV4 a) (AddrV4 b) = (a \<le> b)"
| "less_eq_ip_addr (AddrV4 a) (AddrV6 b) = True"
| "less_eq_ip_addr (AddrV6 a) (AddrV4 b) = False"
| "less_eq_ip_addr (AddrV6 a) (AddrV6 b) = (a \<le> b)"

definition less_ip_addr :: "ip_addr \<Rightarrow> ip_addr \<Rightarrow> bool" where
  "less_ip_addr a b = (a \<le> b \<and> a \<noteq> b)"

instance
proof
  fix x y z :: ip_addr
  show "(x < y) = (x \<le> y \<and> \<not> y \<le> x)"
    by (cases x; cases y) (auto simp: less_ip_addr_def)
  show "x \<le> x" by (cases x) auto
  show "x \<le> y \<Longrightarrow> y \<le> z \<Longrightarrow> x \<le> z" by (cases x; cases y; cases z) auto
  show "x \<le> y \<Longrightarrow> y \<le> x \<Longrightarrow> x = y" by (cases x; cases y) auto
  show "x \<le> y \<or> y \<le> x" by (cases x; cases y) auto
qed

end

text \<open>The families the agent runs with (\<^verbatim>\<open>EnabledFamilies\<close>).\<close>

record enabled_families =
  ef_v4 :: bool
  ef_v6 :: bool

definition is_dual_stack :: "enabled_families \<Rightarrow> bool" where
  "is_dual_stack e = (ef_v4 e \<and> ef_v6 e)"

definition is_v6_only :: "enabled_families \<Rightarrow> bool" where
  "is_v6_only e = (ef_v6 e \<and> \<not> ef_v4 e)"

definition any_family :: "enabled_families \<Rightarrow> bool" where
  "any_family e = (ef_v4 e \<or> ef_v6 e)"

fun contains_family :: "enabled_families \<Rightarrow> ip_family \<Rightarrow> bool" where
  "contains_family e V4 = ef_v4 e"
| "contains_family e V6 = ef_v6 e"

section \<open>Ordered sets and maps\<close>

text \<open>
  A \<^verbatim>\<open>BTreeSet\<close> is the sorted list of its elements without repetition, a \<^verbatim>\<open>BTreeMap\<close> an association
  list with strictly increasing keys: iteration order is list order.
\<close>

definition btree_set :: "'a::linorder list \<Rightarrow> 'a list" where
  "btree_set xs = sort (remdups xs)"

lemma set_btree_set [simp]: "set (btree_set xs) = set xs"
  by (simp add: btree_set_def)

lemma distinct_btree_set [simp]: "distinct (btree_set xs)"
  by (simp add: btree_set_def)

lemma sorted_btree_set [simp]: "sorted (btree_set xs)"
  by (simp add: btree_set_def)

lemma btree_set_cong: "set xs = set ys \<Longrightarrow> btree_set xs = btree_set ys"
  by (metis distinct_btree_set set_btree_set sorted_btree_set sorted_distinct_set_unique)

lemma set_map_filter: "set (List.map_filter f xs) = {y. \<exists>x\<in>set xs. f x = Some y}"
  by (induction xs) (auto simp: List.map_filter_def split: option.splits)

fun bmap_insert :: "'k::linorder \<Rightarrow> 'v \<Rightarrow> ('k \<times> 'v) list \<Rightarrow> ('k \<times> 'v) list" where
  "bmap_insert k v [] = [(k, v)]"
| "bmap_insert k v ((k', v') # m) =
     (if k < k' then (k, v) # (k', v') # m
      else if k = k' then (k, v) # m
      else (k', v') # bmap_insert k v m)"

definition bmap_remove :: "'k \<Rightarrow> ('k \<times> 'v) list \<Rightarrow> ('k \<times> 'v) list" where
  "bmap_remove k m = filter (\<lambda>(k', _). k' \<noteq> k) m"

definition bmap_ok :: "('k::linorder \<times> 'v) list \<Rightarrow> bool" where
  "bmap_ok m = sorted_wrt (<) (map fst m)"

text \<open>What the clients of a map rely on.\<close>

locale kv_store =
  fixes empty :: "'m"
    and insert :: "'k \<Rightarrow> 'v \<Rightarrow> 'm \<Rightarrow> 'm"
    and remove :: "'k \<Rightarrow> 'm \<Rightarrow> 'm"
    and get :: "'m \<Rightarrow> 'k \<Rightarrow> 'v option"
    and inv :: "'m \<Rightarrow> bool"
  assumes inv_empty: "inv empty"
    and inv_insert: "inv m \<Longrightarrow> inv (insert k v m)"
    and inv_remove: "inv m \<Longrightarrow> inv (remove k m)"
    and get_empty: "get empty k = None"
    and get_insert: "get (insert k v m) = (get m)(k \<mapsto> v)"
    and get_remove: "inv m \<Longrightarrow> get (remove k m) = (get m)(k := None)"
begin

lemma inv_fold_insert: "inv m \<Longrightarrow> inv (fold (\<lambda>(k, v). insert k v) kvs m)"
  by (induction kvs arbitrary: m) (auto intro: inv_insert)

lemma dom_insert: "dom (get (insert k v m)) = Set.insert k (dom (get m))"
  by (simp add: get_insert)

lemma get_fold_insert: "get (fold (\<lambda>(k, v). insert k v) kvs m) = (get m) ++ map_of (rev kvs)"
  by (induction kvs arbitrary: m)
     (auto simp: get_insert fun_eq_iff map_add_def split: option.splits)

lemma insert_remove_same: "inv m \<Longrightarrow> get (remove k (insert k v m)) = (get m)(k := None)"
  by (simp add: get_remove inv_insert get_insert)

end

lemma bmap_insert_keys: "fst ` set (bmap_insert k v m) = Set.insert k (fst ` set m)"
  by (induction k v m rule: bmap_insert.induct) auto

lemma bmap_ok_insert: "bmap_ok m \<Longrightarrow> bmap_ok (bmap_insert k v m)"
proof (induction k v m rule: bmap_insert.induct)
  case (1 k v)
  then show ?case by (simp add: bmap_ok_def)
next
  case (2 k v k' v' m)
  have keys: "set (map fst (bmap_insert k v m)) = Set.insert k (set (map fst m))"
    using bmap_insert_keys [of k v m] by simp
  show ?case
    using 2 keys by (auto simp: bmap_ok_def)
qed

lemma bmap_ok_remove: "bmap_ok m \<Longrightarrow> bmap_ok (bmap_remove k m)"
  by (induction m) (auto simp: bmap_ok_def bmap_remove_def)

lemma map_of_bmap_insert: "map_of (bmap_insert k v m) = (map_of m)(k \<mapsto> v)"
  by (induction k v m rule: bmap_insert.induct) (auto simp: fun_eq_iff)

lemma map_of_bmap_remove: "map_of (bmap_remove k m) = (map_of m)(k := None)"
  by (induction m) (auto simp: bmap_remove_def fun_eq_iff)

lemma bmap_ok_Nil: "bmap_ok []"
  by (simp add: bmap_ok_def)

interpretation bm: kv_store "[]" bmap_insert bmap_remove map_of bmap_ok
  by unfold_locales
     (simp_all add: bmap_ok_Nil bmap_ok_insert bmap_ok_remove map_of_bmap_insert map_of_bmap_remove)

lemma bmap_ok_distinct: "bmap_ok m \<Longrightarrow> distinct (map fst m)"
  by (simp add: bmap_ok_def strict_sorted_iff)

end
