(* ===== verification/Kr_IpNet.thy ===== *)
theory Kr_IpNet
  imports Kr_Prelude
begin

text \<open>
  Addresses in detail. The octets and the text of \<^verbatim>\<open>std::net::IpAddr\<close> are those of the standard
  library. The CIDR type \<^verbatim>\<open>ipnet::IpNet\<close> is third-party code: it is the parameter \<open>api\<close> of every
  definition that uses it, and the locale \<open>ipnet\<close> states the documented laws the program relies on.
  The type \<open>cidr\<close> of this theory is a concrete instance of those laws.
\<close>

section \<open>Octets and text of an address\<close>

fun le_bytes :: "nat \<Rightarrow> 'a::len word \<Rightarrow> u8 list" where
  "le_bytes 0 w = []"
| "le_bytes (Suc n) w = ucast w # le_bytes n (drop_bit 8 w)"

fun of_le_bytes :: "u8 list \<Rightarrow> nat" where
  "of_le_bytes [] = 0"
| "of_le_bytes (b # bs) = unat b + 256 * of_le_bytes bs"

definition octets :: "nat \<Rightarrow> 'a::len word \<Rightarrow> u8 list" where
  "octets n w = rev (le_bytes n w)"

fun of_le_octets :: "u8 list \<Rightarrow> 'a::len word" where
  "of_le_octets [] = 0"
| "of_le_octets (b # bs) = ucast b + 256 * of_le_octets bs"

definition of_octets :: "u8 list \<Rightarrow> 'a::len word" where
  "of_octets bs = of_le_octets (rev bs)"

lemma of_le_octets_eq: "of_le_octets bs = of_nat (of_le_bytes bs)"
  by (induction bs) simp_all

lemma length_le_bytes [simp]: "length (le_bytes n w) = n"
  by (induction n arbitrary: w) auto

lemma length_octets [simp]: "length (octets n w) = n"
  by (simp add: octets_def)

lemma of_le_bytes_less: "of_le_bytes bs < 256 ^ length bs"
proof (induction bs)
  case (Cons b bs)
  have "unat b < 256" using unsigned_less [of b, where ?'a=nat] by simp
  with Cons show ?case by simp
qed simp

lemma of_le_bytes_le_bytes: "of_le_bytes (le_bytes n w) = unat w mod 256 ^ n"
proof (induction n arbitrary: w)
  case (Suc n)
  have "unat (ucast w :: u8) = unat w mod 256"
    by (simp add: unsigned_ucast_eq take_bit_nat_def)
  moreover have "unat (drop_bit 8 w) = unat w div 256"
    by (simp add: unat_drop_bit_eq drop_bit_nat_def)
  ultimately show ?case
    using Suc [of "drop_bit 8 w"] by (simp add: mod_mult2_eq)
qed simp

lemma of_octets_octets:
  fixes w :: "'a::len word"
  assumes "LENGTH('a) = 8 * n"
  shows "of_octets (octets n w) = w"
proof -
  have "unat w < 256 ^ n"
    using unsigned_less [of w, where ?'a=nat] assms by (simp add: power_mult)
  then show ?thesis
    by (simp add: of_octets_def octets_def of_le_octets_eq of_le_bytes_le_bytes)
qed

definition digit :: "nat \<Rightarrow> char" where
  "digit d = (if d < 10 then char_of (48 + d) else char_of (87 + d))"

fun show_base :: "nat \<Rightarrow> nat \<Rightarrow> string" where
  "show_base b n = (if b \<le> 1 \<or> n < b then [digit n] else show_base b (n div b) @ [digit (n mod b)])"

declare show_base.simps [simp del]

abbreviation show_nat :: "nat \<Rightarrow> string" where
  "show_nat \<equiv> show_base 10"

abbreviation show_hex :: "nat \<Rightarrow> string" where
  "show_hex \<equiv> show_base 16"

fun join :: "string \<Rightarrow> string list \<Rightarrow> string" where
  "join sep [] = ''''"
| "join sep [x] = x"
| "join sep (x # y # xs) = x @ sep @ join sep (y # xs)"

definition show_v4 :: "u32 \<Rightarrow> string" where
  "show_v4 a = join ''.'' (map (\<lambda>b. show_nat (unat b)) (octets 4 a))"

fun segments :: "u8 list \<Rightarrow> nat list" where
  "segments (a # b # bs) = (256 * unat a + unat b) # segments bs"
| "segments _ = []"

text \<open>The longest run of zero segments, the first one of several, as (start, length).\<close>

fun zero_span :: "nat \<Rightarrow> nat list \<Rightarrow> nat \<times> nat \<Rightarrow> nat \<times> nat \<Rightarrow> nat \<times> nat" where
  "zero_span i [] cur best = best"
| "zero_span i (s # ss) cur best =
     (if s = 0 then
        let cur' = (if snd cur = 0 then i else fst cur, snd cur + 1)
        in zero_span (Suc i) ss cur' (if snd cur' > snd best then cur' else best)
      else zero_span (Suc i) ss (0, 0) best)"

definition show_v6 :: "128 word \<Rightarrow> string" where
  "show_v6 a =
     (let segs = segments (octets 16 a); hexs = (\<lambda>ss. join '':'' (map show_hex ss)) in
      if take 6 segs = [0, 0, 0, 0, 0, 65535] then ''::ffff:'' @ show_v4 (ucast a)
      else case zero_span 0 segs (0, 0) (0, 0) of (start, len) \<Rightarrow>
        if len > 1 then hexs (take start segs) @ ''::'' @ hexs (drop (start + len) segs)
        else hexs segs)"

fun show_addr :: "ip_addr \<Rightarrow> string" where
  "show_addr (AddrV4 a) = show_v4 a"
| "show_addr (AddrV6 a) = show_v6 a"

text \<open>
  The name hash (\<^verbatim>\<open>crates/common/src/naming.rs\<close>): the first sixteen characters of the base32 text of the
  SHA-256 digest; digest and encoding are the parameter \<open>enc\<close>.
\<close>

definition hash16 :: "(string \<Rightarrow> string) \<Rightarrow> string \<Rightarrow> string" where
  "hash16 enc s = take 16 (enc s)"

text \<open>The line feed.\<close>

definition nl :: string where "nl = [CHR 0x0A]"

section \<open>CIDR blocks\<close>

text \<open>The operations of \<^verbatim>\<open>ipnet::IpNet\<close> that the sources call.\<close>

record 'n ipnet_api =
  net_family :: "'n \<Rightarrow> ip_family"
  net_addr :: "'n \<Rightarrow> ip_addr"
  net_network :: "'n \<Rightarrow> ip_addr"
  net_broadcast :: "'n \<Rightarrow> ip_addr"
  net_prefix_len :: "'n \<Rightarrow> nat"
  net_contains :: "'n \<Rightarrow> ip_addr \<Rightarrow> bool"
  net_host :: "ip_addr \<Rightarrow> 'n"
  net_to_string :: "'n \<Rightarrow> string"

locale ipnet =
  fixes api :: "'n ipnet_api"
  assumes family_network: "of_addr (net_network api n) = net_family api n"
    and family_broadcast: "of_addr (net_broadcast api n) = net_family api n"
    and family_addr: "of_addr (net_addr api n) = net_family api n"
    and network_le_broadcast: "net_network api n \<le> net_broadcast api n"
    and contains_iff: "net_contains api n a \<longleftrightarrow>
          of_addr a = net_family api n \<and> net_network api n \<le> a \<and> a \<le> net_broadcast api n"
    and host_network: "net_network api (net_host api a) = a"
    and host_broadcast: "net_broadcast api (net_host api a) = a"
    and host_inj: "net_host api a = net_host api b \<Longrightarrow> a = b"
begin

lemma contains_network: "net_contains api n (net_network api n)"
  by (simp add: contains_iff family_network network_le_broadcast)

lemma contains_broadcast: "net_contains api n (net_broadcast api n)"
  by (simp add: contains_iff family_broadcast network_le_broadcast)

lemma contains_family: "net_contains api n a \<Longrightarrow> of_addr a = net_family api n"
  by (simp add: contains_iff)

lemma contains_host: "net_contains api (net_host api a) b \<longleftrightarrow> b = a"
  using family_network [of "net_host api a"] by (auto simp: contains_iff host_network host_broadcast)

end

text \<open>
  A concrete instance: an address and a prefix length, the network address with the host bits
  cleared and the broadcast address with the host bits set.
\<close>

datatype cidr = Cidr4 u32 nat | Cidr6 "128 word" nat

fun cidr_key :: "cidr \<Rightarrow> ip_addr \<times> nat" where
  "cidr_key (Cidr4 a p) = (AddrV4 a, p)"
| "cidr_key (Cidr6 a p) = (AddrV6 a, p)"

lemma cidr_key_inj: "cidr_key x = cidr_key y \<Longrightarrow> x = y"
  by (cases x; cases y) auto

instantiation cidr :: linorder
begin

definition less_eq_cidr :: "cidr \<Rightarrow> cidr \<Rightarrow> bool" where
  "less_eq_cidr x y = (cidr_key x \<le> cidr_key y)"

definition less_cidr :: "cidr \<Rightarrow> cidr \<Rightarrow> bool" where
  "less_cidr x y = (cidr_key x < cidr_key y)"

instance
  by standard (auto simp: less_eq_cidr_def less_cidr_def intro: cidr_key_inj)

end

fun cidr_network :: "cidr \<Rightarrow> ip_addr" where
  "cidr_network (Cidr4 a p) = AddrV4 (a AND NOT (mask (32 - p)))"
| "cidr_network (Cidr6 a p) = AddrV6 (a AND NOT (mask (128 - p)))"

fun cidr_broadcast :: "cidr \<Rightarrow> ip_addr" where
  "cidr_broadcast (Cidr4 a p) = AddrV4 (a OR mask (32 - p))"
| "cidr_broadcast (Cidr6 a p) = AddrV6 (a OR mask (128 - p))"

definition cidr_contains :: "cidr \<Rightarrow> ip_addr \<Rightarrow> bool" where
  "cidr_contains n a \<longleftrightarrow>
     of_addr a = of_addr (cidr_network n) \<and> cidr_network n \<le> a \<and> a \<le> cidr_broadcast n"

fun cidr_host :: "ip_addr \<Rightarrow> cidr" where
  "cidr_host (AddrV4 a) = Cidr4 a 32"
| "cidr_host (AddrV6 a) = Cidr6 a 128"

definition cidr_api :: "cidr ipnet_api" where
  "cidr_api =
     \<lparr> net_family = \<lambda>n. of_addr (cidr_network n),
       net_addr = \<lambda>n. fst (cidr_key n),
       net_network = cidr_network,
       net_broadcast = cidr_broadcast,
       net_prefix_len = \<lambda>n. snd (cidr_key n),
       net_contains = cidr_contains,
       net_host = cidr_host,
       net_to_string = \<lambda>n. show_addr (fst (cidr_key n)) @ ''/'' @ show_nat (snd (cidr_key n)) \<rparr>"

lemma and_not_le_or: "(a :: 'a::len word) AND NOT m \<le> a OR m"
proof -
  have "a OR m = (a AND NOT m) OR m" by (rule bit_eqI) (auto simp: bit_simps)
  then show ?thesis by (metis le_word_or2)
qed

interpretation cidr: ipnet cidr_api
proof (unfold_locales, goal_cases)
  case (4 n)
  show ?case by (cases n) (auto simp: cidr_api_def and_not_le_or)
next
  case (1 n)
  show ?case by (cases n) (auto simp: cidr_api_def)
next
  case (2 n)
  show ?case by (cases n) (auto simp: cidr_api_def)
next
  case (3 n)
  show ?case by (cases n) (auto simp: cidr_api_def)
next
  case (5 n a)
  show ?case by (simp add: cidr_api_def cidr_contains_def)
next
  case (6 a)
  show ?case by (cases a) (auto simp: cidr_api_def)
next
  case (7 a)
  show ?case by (cases a) (auto simp: cidr_api_def)
next
  case (8 a b)
  then show ?case by (cases a; cases b) (auto simp: cidr_api_def)
qed

end
