(* ===== verification/Kr_AddrText.thy ===== *)
theory Kr_AddrText
  imports Kr_IpNet
begin

text \<open>
  Reading addresses: the parser of \<^verbatim>\<open>std::net::IpAddr\<close> (a recursive-descent parser over the characters,
  with backtracking), the \<^verbatim>\<open>parse_ip\<close> of \<^verbatim>\<open>crates/common/src/ipfamily.rs\<close> on top of it, and the proof
  that it reads back what \<^verbatim>\<open>Display\<close> prints. So the text of an address identifies it, which the
  controllers rely on wherever an address goes through text (ipset entries, command lines, gRPC).
\<close>

section \<open>Numbers\<close>

definition to_digit :: "nat \<Rightarrow> char \<Rightarrow> nat option" where
  "to_digit radix c =
     (let n = of_char c :: nat;
          d = (if 48 \<le> n \<and> n \<le> 57 then n - 48
               else if 97 \<le> n \<and> n \<le> 102 then n - 87
               else if 65 \<le> n \<and> n \<le> 70 then n - 55 else 16)
      in if d < radix then Some d else None)"

fun read_digits :: "nat \<Rightarrow> nat \<Rightarrow> nat \<Rightarrow> string \<Rightarrow> nat \<times> nat \<times> string" where
  "read_digits radix v c [] = (v, c, [])"
| "read_digits radix v c (x # xs) =
     (case to_digit radix x of
        None \<Rightarrow> (v, c, x # xs)
      | Some d \<Rightarrow> read_digits radix (v * radix + d) (Suc c) xs)"

fun starts_zero :: "string \<Rightarrow> bool" where
  "starts_zero [] = False"
| "starts_zero (c # s) = (c = CHR ''0'')"

definition read_number :: "nat \<Rightarrow> nat \<Rightarrow> bool \<Rightarrow> nat \<Rightarrow> string \<Rightarrow> (nat \<times> string) option" where
  "read_number radix max_digits allow_zero_prefix bound s =
     (case read_digits radix 0 0 s of (v, c, rest) \<Rightarrow>
        if c = 0 \<or> c > max_digits then None
        else if \<not> allow_zero_prefix \<and> starts_zero s \<and> c > 1 then None
        else if v \<ge> bound then None
        else Some (v, rest))"

fun read_char :: "char \<Rightarrow> string \<Rightarrow> string option" where
  "read_char c (x # xs) = (if x = c then Some xs else None)"
| "read_char c [] = None"

section \<open>Addresses\<close>

definition read_octet :: "string \<Rightarrow> (nat \<times> string) option" where
  "read_octet s = read_number 10 3 False 256 s"

definition read_v4 :: "string \<Rightarrow> (nat list \<times> string) option" where
  "read_v4 s =
     Option.bind (read_octet s) (\<lambda>(a, s1). Option.bind (read_char CHR ''.'' s1) (\<lambda>s2.
     Option.bind (read_octet s2) (\<lambda>(b, s3). Option.bind (read_char CHR ''.'' s3) (\<lambda>s4.
     Option.bind (read_octet s4) (\<lambda>(c, s5). Option.bind (read_char CHR ''.'' s5) (\<lambda>s6.
     Option.bind (read_octet s6) (\<lambda>(d, s7). Some ([a, b, c, d], s7))))))))"

text \<open>The separator is read before every group but the first.\<close>

definition read_separator :: "nat \<Rightarrow> (string \<Rightarrow> ('a \<times> string) option) \<Rightarrow> string \<Rightarrow> ('a \<times> string) option" where
  "read_separator i p s =
     (if i > 0 then Option.bind (read_char CHR '':'' s) p else p s)"

fun v4_groups :: "nat list \<Rightarrow> nat list" where
  "v4_groups [a, b, c, d] = [256 * a + b, 256 * c + d]"
| "v4_groups _ = []"

text \<open>Up to \<open>k\<close> groups; the flag says that the last two came from a dotted quad.\<close>

fun read_groups :: "nat \<Rightarrow> nat \<Rightarrow> string \<Rightarrow> nat list \<times> bool \<times> string" where
  "read_groups 0 i s = ([], False, s)"
| "read_groups (Suc k) i s =
     (case (if k \<ge> 1 then read_separator i read_v4 s else None) of
        Some (os, s') \<Rightarrow> (v4_groups os, True, s')
      | None \<Rightarrow>
          (case read_separator i (read_number 16 4 True 65536) s of
             None \<Rightarrow> ([], False, s)
           | Some (g, s') \<Rightarrow>
               (case read_groups k (Suc i) s' of (gs, v4, r) \<Rightarrow> (g # gs, v4, r))))"

definition read_v6 :: "string \<Rightarrow> (nat list \<times> string) option" where
  "read_v6 s =
     (case read_groups 8 0 s of (head, head_v4, s1) \<Rightarrow>
        if length head = 8 then Some (head, s1)
        else if head_v4 then None
        else case s1 of
               a # b # s2 \<Rightarrow>
                 if a = CHR '':'' \<and> b = CHR '':'' then
                   (case read_groups (8 - (length head + 1)) 0 s2 of (tail, _, s3) \<Rightarrow>
                      Some (head @ replicate (8 - length head - length tail) 0 @ tail, s3))
                 else None
             | _ \<Rightarrow> None)"

fun of_groups :: "nat list \<Rightarrow> nat" where
  "of_groups gs = foldl (\<lambda>acc g. 65536 * acc + g) 0 gs"

definition parse_addr :: "string \<Rightarrow> ip_addr option" where
  "parse_addr s =
     (case read_v4 s of
        Some (os, rest) \<Rightarrow>
          if rest = [] then Some (AddrV4 (of_octets (map of_nat os))) else None
      | None \<Rightarrow>
          (case read_v6 s of
             Some (gs, rest) \<Rightarrow> if rest = [] then Some (AddrV6 (of_nat (of_groups gs))) else None
           | None \<Rightarrow> None))"

section \<open>What the number printer prints\<close>

lemma to_digit_digit:
  assumes "d < radix" "radix \<le> 16"
  shows "to_digit radix (digit d) = Some d"
proof -
  have "d \<in> set [0..<16]" using assms by simp
  then have "to_digit 16 (digit d) = Some d"
    by (auto simp: to_digit_def digit_def upt_rec)
  then show ?thesis using assms(1) by (auto simp: to_digit_def Let_def split: if_splits)
qed

definition digit_free :: "nat \<Rightarrow> string \<Rightarrow> bool" where
  "digit_free radix s = (case s of [] \<Rightarrow> True | c # _ \<Rightarrow> to_digit radix c = None)"

lemma read_digits_show:
  assumes "2 \<le> radix" "radix \<le> 16"
  shows "read_digits radix v c (show_base radix n @ rest)
     = read_digits radix (v * radix ^ length (show_base radix n) + n) (c + length (show_base radix n)) rest"
  using assms
proof (induction radix n arbitrary: v c rest rule: show_base.induct)
  case (1 b n)
  show ?case
  proof (cases "n < b")
    case True
    then show ?thesis using 1 by (simp add: show_base.simps [of b n] to_digit_digit)
  next
    case False
    have n: "n = b * (n div b) + n mod b" by simp
    show ?thesis
      using 1 False
      by (simp add: show_base.simps [of b n] to_digit_digit algebra_simps)
  qed
qed

lemma read_digits_stop: "digit_free radix rest \<Longrightarrow> read_digits radix v c rest = (v, c, rest)"
  by (cases rest) (auto simp: digit_free_def)

lemma show_base_length_pos [simp]: "show_base b n \<noteq> []"
  by (simp add: show_base.simps)

lemma show_base_length:
  "1 < b \<Longrightarrow> n < b ^ k \<Longrightarrow> 0 < k \<Longrightarrow> length (show_base b n) \<le> k"
proof (induction b n arbitrary: k rule: show_base.induct)
  case (1 b n)
  show ?case
  proof (cases "n < b")
    case True
    then show ?thesis using 1 by (simp add: show_base.simps [of b n])
  next
    case False
    then obtain k' where k: "k = Suc k'" "0 < k'" using 1(3,4) by (cases k; cases "k - 1") auto
    then have "n div b < b ^ k'" using 1 by (simp add: less_mult_imp_div_less mult.commute)
    then show ?thesis using 1 False k by (simp add: show_base.simps [of b n])
  qed
qed

lemma starts_zero_append [simp]: "xs \<noteq> [] \<Longrightarrow> starts_zero (xs @ ys) = starts_zero xs"
  by (cases xs) auto

lemma show_base_hd:
  "1 < b \<Longrightarrow> b \<le> 16 \<Longrightarrow> 0 < n \<Longrightarrow> \<not> starts_zero (show_base b n)"
proof (induction b n rule: show_base.induct)
  case (1 b n)
  show ?case
  proof (cases "n < b")
    case True
    then have "to_digit b (digit n) = Some n" using 1 by (simp add: to_digit_digit)
    moreover have "to_digit b CHR ''0'' = Some 0" using 1 by (simp add: to_digit_def)
    ultimately show ?thesis using 1 True by (auto simp: show_base.simps [of b n])
  next
    case False
    then have "0 < n div b" using 1(2) by (simp add: div_greater_zero_iff)
    then show ?thesis using 1 False by (simp add: show_base.simps [of b n])
  qed
qed

text \<open>A printed number is read back, when no digit follows it.\<close>

lemma read_number_show:
  assumes "2 \<le> radix" "radix \<le> 16" "n < bound" "bound \<le> radix ^ m" "0 < m" "digit_free radix rest"
  shows "read_number radix m az bound (show_base radix n @ rest) = Some (n, rest)"
proof -
  let ?d = "show_base radix n"
  have read: "read_digits radix 0 0 (?d @ rest) = (n, length ?d, rest)"
    using assms by (simp add: read_digits_show read_digits_stop)
  have len: "0 < length ?d" "length ?d \<le> m"
    using show_base_length [of radix n m] assms by (simp_all del: length_greater_0_conv add: length_greater_0_conv)
  have "\<not> (starts_zero ?d \<and> length ?d > 1)"
    using show_base_hd [of radix n] assms(1,2) by (cases "n = 0") (simp_all add: show_base.simps)
  then show ?thesis using len assms(3) by (simp add: read_number_def read)
qed

section \<open>Dotted quads\<close>

lemma of_char_digit: "d < 10 \<Longrightarrow> of_char (digit d) = 48 + d"
  by (simp add: digit_def)

lemma digit_free_sep [simp]:
  "digit_free radix []" "radix \<le> 16 \<Longrightarrow> digit_free radix (CHR ''.'' # s)"
  "radix \<le> 16 \<Longrightarrow> digit_free radix (CHR '':'' # s)"
  by (simp_all add: digit_free_def to_digit_def)

lemma read_octet_show:
  "n < 256 \<Longrightarrow> digit_free 10 rest \<Longrightarrow> read_octet (show_nat n @ rest) = Some (n, rest)"
  unfolding read_octet_def by (rule read_number_show) simp_all

lemma u8_less: "unat (b :: u8) < 256"
  using unsigned_less [of b, where ?'a=nat] by simp

lemma octets4: "octets 4 w = [b0, b1, b2, b3] \<Longrightarrow>
   show_v4 w = show_nat (unat b0) @ ''.'' @ show_nat (unat b1) @ ''.'' @ show_nat (unat b2) @ ''.'' @ show_nat (unat b3)"
  by (simp add: show_v4_def)

lemma octets4_cases: "\<exists>b0 b1 b2 b3. octets 4 w = [b0, b1, b2, b3]"
proof -
  have "length (octets 4 w) = Suc (Suc (Suc (Suc 0)))" by simp
  then show ?thesis by (auto simp only: length_Suc_conv length_0_conv)
qed

lemma read_v4_show:
  assumes "digit_free 10 rest"
  shows "read_v4 (show_v4 w @ rest) = Some (map unat (octets 4 w), rest)"
proof -
  obtain b0 b1 b2 b3 where o: "octets 4 w = [b0, b1, b2, b3]" using octets4_cases by blast
  show ?thesis
    using assms by (simp add: octets4 [OF o] o read_v4_def read_octet_show u8_less)
qed

lemma parse_addr_show_v4: "parse_addr (show_v4 w) = Some (AddrV4 w)"
proof -
  have "read_v4 (show_v4 w) = Some (map unat (octets 4 w), [])"
    using read_v4_show [of "[]" w] by simp
  moreover have "of_octets (octets 4 w) = w" by (rule of_octets_octets) simp
  ultimately show ?thesis by (simp add: parse_addr_def comp_def)
qed

section \<open>Hexadecimal groups\<close>

lemma read_digits_suffix:
  "read_digits radix v c s = (v', c', rest) \<Longrightarrow> \<exists>ds. s = ds @ rest \<and> (\<forall>x \<in> set ds. to_digit radix x \<noteq> None)"
proof (induction radix v c s rule: read_digits.induct)
  case (2 radix v c x xs)
  show ?case
  proof (cases "to_digit radix x")
    case None
    then show ?thesis using 2(2) by auto
  next
    case (Some d)
    then obtain ds where "xs = ds @ rest" "\<forall>x \<in> set ds. to_digit radix x \<noteq> None" using 2 by auto
    then show ?thesis using Some by (intro exI [of _ "x # ds"]) auto
  qed
qed simp

lemma read_v4_needs_dot:
  assumes "read_v4 s = Some r"
  shows "CHR ''.'' \<in> set (takeWhile (\<lambda>c. c \<noteq> CHR '':'') s)"
proof -
  obtain a s1 s2 where 1: "read_octet s = Some (a, s1)" and 2: "read_char CHR ''.'' s1 = Some s2"
    using assms by (auto simp: read_v4_def bind_eq_Some_conv)
  obtain s' where s1: "s1 = CHR ''.'' # s'"
    using 2 by (cases s1) (auto split: if_splits)
  from 1 obtain v c where "read_digits 10 0 0 s = (v, c, s1)"
    by (auto simp: read_octet_def read_number_def split: prod.splits if_splits)
  from read_digits_suffix [OF this] obtain ds where ds: "s = ds @ s1" "\<forall>x \<in> set ds. to_digit 10 x \<noteq> None"
    by blast
  have "\<forall>x \<in> set ds. x \<noteq> CHR '':''"
    using ds(2) by (auto simp: to_digit_def)
  then show ?thesis using ds(1) s1 by (simp add: takeWhile_append2)
qed

lemma set_show_base:
  assumes "2 \<le> b" "b \<le> 16"
  shows "\<forall>x \<in> set (show_base b n). to_digit b x \<noteq> None"
  using assms
proof (induction b n rule: show_base.induct)
  case (1 b n)
  then show ?case
    by (cases "n < b") (auto simp: show_base.simps [of b n] to_digit_digit)
qed

lemma to_digit_not_sep: "radix \<le> 16 \<Longrightarrow> to_digit radix CHR '':'' = None" "radix \<le> 16 \<Longrightarrow> to_digit radix CHR ''.'' = None"
  by (simp_all add: to_digit_def)

lemma hex_no_sep: "CHR '':'' \<notin> set (show_hex g)" "CHR ''.'' \<notin> set (show_hex g)"
  using set_show_base [of 16 g] to_digit_not_sep [of 16] by auto

text \<open>What may follow a group: the end of the text or a colon.\<close>

definition group_end :: "string \<Rightarrow> bool" where
  "group_end s = (case s of [] \<Rightarrow> True | c # _ \<Rightarrow> c = CHR '':'')"

lemma group_end_digit_free: "group_end s \<Longrightarrow> digit_free 16 s"
  by (cases s) (auto simp: group_end_def)

lemma read_v4_hex:
  assumes "group_end rest"
  shows "read_v4 (show_hex g @ rest) = None"
proof (rule ccontr)
  assume "read_v4 (show_hex g @ rest) \<noteq> None"
  then have "CHR ''.'' \<in> set (takeWhile (\<lambda>c. c \<noteq> CHR '':'') (show_hex g @ rest))"
    using read_v4_needs_dot by auto
  also have "takeWhile (\<lambda>c. c \<noteq> CHR '':'') (show_hex g @ rest) = show_hex g"
    using assms hex_no_sep(1) [of g]
    by (cases rest) (auto simp: takeWhile_append group_end_def takeWhile_eq_all_conv)
  finally show False using hex_no_sep(2) by blast
qed

lemma read_hex_show:
  "g < 65536 \<Longrightarrow> group_end rest \<Longrightarrow> read_number 16 4 True 65536 (show_hex g @ rest) = Some (g, rest)"
  by (rule read_number_show) (simp_all add: group_end_digit_free)

definition tail_text :: "nat list \<Rightarrow> string" where
  "tail_text gs = concat (map (\<lambda>g. CHR '':'' # show_hex g) gs)"

lemma join_hex: "join '':'' (map show_hex (g # gs)) = show_hex g @ tail_text gs"
  by (induction gs arbitrary: g) (simp_all add: tail_text_def)

lemma group_end_tail: "group_end rest \<Longrightarrow> group_end (tail_text gs @ rest)"
  by (cases gs) (simp_all add: tail_text_def group_end_def)

lemma read_groups_hex:
  assumes "g < 65536" "group_end rest" "read_groups k (Suc i) rest = (gs, b, r)"
  shows "i = 0 \<Longrightarrow> read_groups (Suc k) 0 (show_hex g @ rest) = (g # gs, b, r)"
    and "i > 0 \<Longrightarrow> read_groups (Suc k) i (CHR '':'' # show_hex g @ rest) = (g # gs, b, r)"
  using assms by (simp_all add: read_separator_def read_v4_hex read_hex_show)

lemma read_groups_tail:
  assumes "\<forall>g \<in> set gs. g < 65536" "length gs \<le> k" "group_end rest" "0 < i"
    and "read_groups (k - length gs) (i + length gs) rest = (gs', b, r)"
  shows "read_groups k i (tail_text gs @ rest) = (gs @ gs', b, r)"
  using assms
proof (induction gs arbitrary: k i)
  case Nil
  then show ?case by (simp add: tail_text_def)
next
  case (Cons g gs)
  then obtain k' where k: "k = Suc k'" by (cases k) auto
  have "read_groups k' (Suc i) (tail_text gs @ rest) = (gs @ gs', b, r)"
    using Cons k by simp
  from read_groups_hex(2) [OF _ group_end_tail [OF Cons.prems(3)] this Cons.prems(4), of g]
  have "read_groups (Suc k') i (CHR '':'' # show_hex g @ tail_text gs @ rest) = (g # gs @ gs', b, r)"
    using Cons.prems(1) by simp
  moreover have "tail_text (g # gs) @ rest = CHR '':'' # show_hex g @ tail_text gs @ rest"
    by (simp add: tail_text_def)
  ultimately show ?case using k by (simp only: append_Cons)
qed

text \<open>Where the reading of groups stops.\<close>

definition groups_stop :: "string \<Rightarrow> bool" where
  "groups_stop s = (s = [] \<or> (\<exists>s'. s = CHR '':'' # CHR '':'' # s'))"

lemma read_colon:
  "read_v4 (CHR '':'' # s) = None" "read_number 16 4 True 65536 (CHR '':'' # s) = None"
  "read_v4 [] = None" "read_number 16 4 True 65536 [] = None"
  by (simp_all add: read_v4_def read_octet_def read_number_def to_digit_def)

lemma read_groups_stop: "groups_stop s \<Longrightarrow> read_groups k i s = ([], False, s)"
  by (cases k; cases i) (auto simp: groups_stop_def read_separator_def read_colon)

lemma groups_stop_end: "groups_stop s \<Longrightarrow> group_end s"
  by (auto simp: groups_stop_def group_end_def)

lemma read_groups_join:
  assumes "\<forall>g \<in> set gs. g < 65536" "length gs \<le> k" "groups_stop rest"
  shows "read_groups k 0 (join '':'' (map show_hex gs) @ rest) = (gs, False, rest)"
proof (cases gs)
  case Nil
  then show ?thesis using assms(3) by (simp add: read_groups_stop)
next
  case (Cons g gs')
  then obtain k' where k: "k = Suc k'" using assms(2) by (cases k) auto
  have "read_groups k' (Suc 0) (tail_text gs' @ rest) = (gs' @ [], False, rest)"
    using Cons assms k by (intro read_groups_tail) (auto simp: read_groups_stop groups_stop_end)
  from read_groups_hex(1) [OF _ group_end_tail [OF groups_stop_end [OF assms(3)]] this refl, of g]
  have "read_groups (Suc k') 0 (show_hex g @ tail_text gs' @ rest) = (g # gs', False, rest)"
    using Cons assms(1) by simp
  then show ?thesis using Cons k by (simp only: join_hex append_assoc)
qed

section \<open>Segments\<close>

lemma of_le_bytes_rev: "of_le_bytes (rev bs) = foldl (\<lambda>acc b. 256 * acc + unat b) 0 bs"
  by (induction bs rule: rev_induct) simp_all

lemma foldl_segments:
  "even (length bs) \<Longrightarrow>
     foldl (\<lambda>acc g. 65536 * acc + g) v (segments bs) = foldl (\<lambda>acc b. 256 * acc + unat b) v bs"
proof (induction bs arbitrary: v rule: segments.induct)
  case (1 a b bs)
  then show ?case by (simp add: add.assoc)
qed auto

lemma of_groups_segments: "of_groups (segments (octets 16 (a :: 128 word))) = unat a"
proof -
  have "of_groups (segments (octets 16 a)) = of_le_bytes (rev (octets 16 a))"
    by (simp add: foldl_segments of_le_bytes_rev)
  also have "\<dots> = unat a mod 256 ^ 16" by (simp add: octets_def of_le_bytes_le_bytes)
  finally show ?thesis using unsigned_less [of a, where ?'a=nat] by simp
qed

lemma length_segments: "length (segments bs) = length bs div 2"
  by (induction bs rule: segments.induct) auto

lemma segments_less: "\<forall>g \<in> set (segments bs). g < 65536"
proof (induction bs rule: segments.induct)
  case (1 a b bs)
  then show ?case using u8_less [of a] u8_less [of b] by simp
qed auto

lemma drop_segments: "drop k (segments bs) = segments (drop (2 * k) bs)"
  by (induction bs arbitrary: k rule: segments.induct) (case_tac k; simp)+

definition zero_run :: "nat list \<Rightarrow> nat \<times> nat \<Rightarrow> bool" where
  "zero_run ss p \<longleftrightarrow> fst p + snd p \<le> length ss \<and> (\<forall>j. fst p \<le> j \<and> j < fst p + snd p \<longrightarrow> ss ! j = 0)"

lemma zero_span_run:
  assumes "zero_run full best" "snd cur = 0 \<or> zero_run full cur \<and> fst cur + snd cur = i"
    and "i + length ss = length full" "ss = drop i full"
  shows "zero_run full (zero_span i ss cur best)"
  using assms
proof (induction i ss cur best rule: zero_span.induct)
  case (1 i cur best)
  then show ?case by simp
next
  case (2 i s ss cur best)
  have i: "i < length full" "full ! i = s" "ss = drop (Suc i) full"
  proof -
    show "i < length full" using 2(5) by simp
    then have "full ! i # drop (Suc i) full = s # ss" using 2(6) by (simp add: Cons_nth_drop_Suc)
    then show "full ! i = s" "ss = drop (Suc i) full" by simp_all
  qed
  show ?case
  proof (cases "s = 0")
    case False
    then have "zero_run full (zero_span (Suc i) ss (0, 0) best)"
      using 2(2) [OF False 2(3)] 2(5) i by simp
    then show ?thesis using False by simp
  next
    case True
    let ?cur = "(if snd cur = 0 then i else fst cur, snd cur + 1)"
    let ?best = "if snd ?cur > snd best then ?cur else best"
    have cur: "zero_run full ?cur \<and> fst ?cur + snd ?cur = Suc i"
      using 2(4) i True by (auto simp: zero_run_def less_Suc_eq)
    then have "zero_run full ?best" using 2(3) by presburger
    then have "zero_run full (zero_span (Suc i) ss ?cur ?best)"
      using 2(1) [OF True refl] cur 2(5) i(3) by simp
    then show ?thesis using True by (simp only: zero_span.simps Let_def if_True simp_thms)
  qed
qed

lemma zero_run_split:
  assumes "zero_run ss (start, len)"
  shows "take start ss @ replicate len 0 @ drop (start + len) ss = ss"
proof (rule nth_equalityI)
  show "length (take start ss @ replicate len 0 @ drop (start + len) ss) = length ss"
    using assms by (auto simp: zero_run_def)
  fix j assume "j < length (take start ss @ replicate len 0 @ drop (start + len) ss)"
  then show "(take start ss @ replicate len 0 @ drop (start + len) ss) ! j = ss ! j"
    using assms by (auto simp: zero_run_def nth_append min_def)
qed

section \<open>Reading back an IPv6 address\<close>

lemma le_bytes_nth: "i < n \<Longrightarrow> le_bytes n w ! i = ucast (drop_bit (8 * i) w)"
proof (induction n arbitrary: i w)
  case (Suc n)
  then show ?case by (cases i) (simp_all add: drop_bit_drop_bit add.commute)
qed simp

lemma octets_low: "octets 4 (ucast (a :: 128 word) :: u32) = drop 12 (octets 16 a)"
proof -
  have "le_bytes 4 (ucast a :: u32) = take 4 (le_bytes 16 a)"
  proof (rule nth_equalityI)
    fix i assume i: "i < length (le_bytes 4 (ucast a :: u32))"
    show "le_bytes 4 (ucast a :: u32) ! i = take 4 (le_bytes 16 a) ! i"
      using i by (auto simp: le_bytes_nth intro!: bit_eqI simp: bit_simps)
  qed simp
  then show ?thesis by (simp add: octets_def drop_rev)
qed

lemma v4_groups_segments: "length os = 4 \<Longrightarrow> v4_groups (map unat os) = segments os"
  by (auto simp: numeral_eq_Suc length_Suc_conv)

abbreviation v6_segments :: "128 word \<Rightarrow> nat list" where
  "v6_segments a \<equiv> segments (octets 16 a)"

lemma length_v6_segments: "length (v6_segments a) = 8"
  by (simp add: length_segments)

lemma read_v4_join:
  assumes "groups_stop rest" "gs \<noteq> [] \<or> rest \<noteq> []"
  shows "read_v4 (join '':'' (map show_hex gs) @ rest) = None"
proof (cases gs)
  case Nil
  then show ?thesis using assms by (auto simp: groups_stop_def read_colon)
next
  case (Cons g gs')
  then show ?thesis
    using read_v4_hex [OF group_end_tail [OF groups_stop_end [OF assms(1)]]]
    by (simp only: join_hex append_assoc)
qed

lemma parse_v6_text:
  assumes "read_v4 s = None" "read_v6 s = Some (v6_segments a, [])"
  shows "parse_addr s = Some (AddrV6 a)"
  using assms of_groups_segments [of a] by (simp add: parse_addr_def del: of_groups.simps)

lemma read_v6_plain: "read_v6 (join '':'' (map show_hex (v6_segments a))) = Some (v6_segments a, [])"
  using read_groups_join [of "v6_segments a" 8 "[]"]
  by (simp add: read_v6_def segments_less length_v6_segments groups_stop_def)

lemma read_v6_compressed:
  assumes "zero_run (v6_segments a) (start, len)" "1 < len"
  shows "read_v6 (join '':'' (map show_hex (take start (v6_segments a))) @ ''::''
      @ join '':'' (map show_hex (drop (start + len) (v6_segments a)))) = Some (v6_segments a, [])"
proof -
  let ?h = "take start (v6_segments a)" and ?t = "drop (start + len) (v6_segments a)"
  have b: "start + len \<le> 8" using assms(1) by (simp add: zero_run_def length_v6_segments)
  have len: "length ?h = start" "length ?t = 8 - (start + len)" using b by (simp_all add: length_v6_segments)
  have "read_groups 8 0 (join '':'' (map show_hex ?h) @ ''::'' @ join '':'' (map show_hex ?t))
      = (?h, False, ''::'' @ join '':'' (map show_hex ?t))"
    using len(1) b segments_less [of "octets 16 a"]
    by (intro read_groups_join) (auto simp: groups_stop_def dest: in_set_takeD)
  moreover have "read_groups (8 - (length ?h + 1)) 0 (join '':'' (map show_hex ?t)) = (?t, False, [])"
  proof -
    have "\<forall>g \<in> set ?t. g < 65536" using segments_less set_drop_subset by fast
    moreover have "length ?t \<le> 8 - (length ?h + 1)" using len assms(2) by linarith
    ultimately show ?thesis
      using read_groups_join [of ?t "8 - (length ?h + 1)" "[]"] by (simp add: groups_stop_def)
  qed
  moreover have "?h @ replicate (8 - length ?h - length ?t) 0 @ ?t = v6_segments a"
    using zero_run_split [OF assms(1)] len b by simp
  ultimately show ?thesis using len b assms(2) by (simp add: read_v6_def)
qed

lemma show_hex_ffff: "show_hex 65535 = ''ffff''"
  by (simp add: show_base.simps digit_def char_of_eq_iff)

lemma read_v6_mapped:
  assumes "take 6 (v6_segments a) = [0, 0, 0, 0, 0, 65535]"
  shows "read_v6 (''::ffff:'' @ show_v4 (ucast a)) = Some (v6_segments a, [])"
proof -
  let ?v = "ucast a :: u32"
  have low: "v4_groups (map unat (octets 4 ?v)) = drop 6 (v6_segments a)"
    by (simp add: v4_groups_segments octets_low drop_segments)
  have "read_groups 6 1 (CHR '':'' # show_v4 ?v) = (drop 6 (v6_segments a), True, [])"
    using read_v4_show [of "[]" ?v] low by (simp add: read_separator_def numeral_eq_Suc)
  then have "read_groups (Suc 6) 0 (show_hex 65535 @ CHR '':'' # show_v4 ?v)
      = (65535 # drop 6 (v6_segments a), True, [])"
    by (intro read_groups_hex(1)) (simp_all add: group_end_def)
  then have "read_groups 7 0 (''ffff:'' @ show_v4 ?v) = (65535 # drop 6 (v6_segments a), True, [])"
    by (simp add: show_hex_ffff)
  moreover have "read_groups 8 0 (''::ffff:'' @ show_v4 ?v) = ([], False, ''::ffff:'' @ show_v4 ?v)"
    by (rule read_groups_stop) (simp add: groups_stop_def)
  moreover have "replicate 5 (0 :: nat) = [0, 0, 0, 0, 0]" by (simp add: numeral_eq_Suc)
  moreover have "[0, 0, 0, 0, 0, 65535] @ drop 6 (v6_segments a) = v6_segments a"
    using append_take_drop_id [of 6 "v6_segments a"] assms by metis
  ultimately show ?thesis by (simp add: read_v6_def length_v6_segments)
qed

lemma parse_addr_show_v6: "parse_addr (show_v6 a) = Some (AddrV6 a)"
proof -
  obtain start len where sp: "zero_span 0 (v6_segments a) (0, 0) (0, 0) = (start, len)"
    by (cases "zero_span 0 (v6_segments a) (0, 0) (0, 0)")
  have run: "zero_run (v6_segments a) (start, len)"
    using zero_span_run [of "v6_segments a" "(0, 0)" "(0, 0)" 0 "v6_segments a"] sp by (simp add: zero_run_def)
  consider (mapped) "take 6 (v6_segments a) = [0, 0, 0, 0, 0, 65535]"
    | (runs) "take 6 (v6_segments a) \<noteq> [0, 0, 0, 0, 0, 65535]" "1 < len"
    | (plain) "take 6 (v6_segments a) \<noteq> [0, 0, 0, 0, 0, 65535]" "\<not> 1 < len" by blast
  then show ?thesis
  proof cases
    case mapped
    then have "show_v6 a = ''::ffff:'' @ show_v4 (ucast a)" by (simp add: show_v6_def)
    moreover have "read_v4 (''::ffff:'' @ show_v4 (ucast a)) = None" by (simp add: read_colon)
    ultimately show ?thesis using read_v6_mapped [OF mapped] parse_v6_text by metis
  next
    case runs
    then have "show_v6 a = join '':'' (map show_hex (take start (v6_segments a))) @ ''::''
        @ join '':'' (map show_hex (drop (start + len) (v6_segments a)))"
      by (simp add: show_v6_def sp Let_def)
    then show ?thesis
      using parse_v6_text [OF read_v4_join read_v6_compressed [OF run runs(2)]]
      by (simp add: groups_stop_def)
  next
    case plain
    then have "show_v6 a = join '':'' (map show_hex (v6_segments a))" by (simp add: show_v6_def sp Let_def)
    moreover have "v6_segments a \<noteq> []" using length_v6_segments [of a] by auto
    then have "read_v4 (join '':'' (map show_hex (v6_segments a))) = None"
      using read_v4_join [of "[]" "v6_segments a"] by (simp add: groups_stop_def)
    ultimately show ?thesis using read_v6_plain parse_v6_text by metis
  qed
qed

lemma parse_addr_show [simp]: "parse_addr (show_addr a) = Some a"
  by (cases a) (simp_all add: parse_addr_show_v4 parse_addr_show_v6)

lemma show_addr_inj: "show_addr a = show_addr b \<longleftrightarrow> a = b"
  by (metis parse_addr_show option.inject)

section \<open>\<^verbatim>\<open>parse_ip\<close>\<close>

text \<open>\<^verbatim>\<open>str::trim\<close> removes the white space characters of ASCII at both ends.\<close>

definition is_space :: "char \<Rightarrow> bool" where
  "is_space c = (of_char c \<in> set [9, 10, 11, 12, 13, 32 :: nat])"

definition trim :: "string \<Rightarrow> string" where
  "trim s = rev (dropWhile is_space (rev (dropWhile is_space s)))"

datatype ip_error = InvalidIp string

definition parse_ip :: "string \<Rightarrow> ip_error + ip_addr" where
  "parse_ip s = (case parse_addr (trim s) of Some a \<Rightarrow> Inr a | None \<Rightarrow> Inl (InvalidIp s))"

lemma dropWhile_id: "\<forall>c \<in> set s. \<not> P c \<Longrightarrow> dropWhile P s = s"
  by (cases s) auto

lemma trim_id: "\<forall>c \<in> set s. \<not> is_space c \<Longrightarrow> trim s = s"
  by (simp add: trim_def dropWhile_id)

lemma show_addr_not_Nil: "show_addr a \<noteq> []"
proof
  assume "show_addr a = []"
  then have "parse_addr [] = Some a" using parse_addr_show [of a] by simp
  then show False
    by (simp add: parse_addr_def read_v6_def read_colon read_groups_stop groups_stop_def)
qed

lemma digit_not_space: "to_digit 16 c \<noteq> None \<Longrightarrow> \<not> is_space c"
  by (auto simp: to_digit_def is_space_def)

lemma show_base_no_space:
  assumes "2 \<le> b" "b \<le> 16" "c \<in> set (show_base b n)"
  shows "\<not> is_space c"
proof -
  have "to_digit b c \<noteq> None" using set_show_base assms by blast
  then have "to_digit 16 c \<noteq> None" using assms(2) by (auto simp: to_digit_def Let_def split: if_splits)
  then show ?thesis by (rule digit_not_space)
qed

lemma set_join: "c \<in> set (join sep xs) \<Longrightarrow> c \<in> set sep \<or> (\<exists>x \<in> set xs. c \<in> set x)"
  by (induction sep xs rule: join.induct) auto

lemma sep_not_space: "\<not> is_space CHR ''.''" "\<not> is_space CHR '':''" "\<not> is_space CHR ''f''"
  by (simp_all add: is_space_def)

lemma show_v4_no_space: "c \<in> set (show_v4 w) \<Longrightarrow> \<not> is_space c"
  unfolding show_v4_def by (drule set_join) (auto simp: sep_not_space dest: show_base_no_space [rotated 2])

lemma hex_text_no_space: "c \<in> set (join '':'' (map show_hex gs)) \<Longrightarrow> \<not> is_space c"
  by (drule set_join) (auto simp: sep_not_space dest: show_base_no_space [rotated 2])

lemma show_addr_no_space: "c \<in> set (show_addr a) \<Longrightarrow> \<not> is_space c"
  by (cases a)
     (auto simp: show_v6_def Let_def sep_not_space show_v4_no_space hex_text_no_space
       split: if_splits prod.splits)

text \<open>the address parser of the configuration reads back every address from its printed text, for
  both families, with any white space around it; so printing is injective.\<close>

theorem parse_ip_round_trip:
  assumes "\<forall>c \<in> set pre \<union> set post. is_space c"
  shows "parse_ip (pre @ show_addr a @ post) = Inr a"
proof -
  have "trim (pre @ show_addr a @ post) = trim (show_addr a)"
  proof -
    have pre: "dropWhile is_space (pre @ t) = dropWhile is_space t" if "\<forall>c \<in> set pre. is_space c" for pre t
      using that by (simp add: dropWhile_append2)
    have hd: "dropWhile is_space (show_addr a @ t) = show_addr a @ t" for t
      using show_addr_no_space [of "hd (show_addr a)" a] show_addr_not_Nil [of a] by (cases "show_addr a") auto
    have tl: "dropWhile is_space (rev (show_addr a)) = rev (show_addr a)"
      using show_addr_no_space [of _ a] by (simp add: dropWhile_id)
    show ?thesis using assms hd [of post] hd [of "[]"] tl
      by (simp add: trim_def pre)
  qed
  then show ?thesis by (simp add: parse_ip_def trim_id show_addr_no_space)
qed

theorem parse_ip_round_trip_witness:
  "parse_ip ('' '' @ show_addr (AddrV6 0x20010db8000000000000000000000001) @ '' '') =
     Inr (AddrV6 0x20010db8000000000000000000000001)"
  by (rule parse_ip_round_trip) (simp add: is_space_def)

section \<open>Text of CIDR blocks\<close>

text \<open>The documented text form of \<^verbatim>\<open>IpNet\<close> and its parser, a parameter like the type itself.\<close>

locale ipnet_text = ipnet api for api :: "'n ipnet_api" +
  fixes parse_net :: "string \<Rightarrow> 'n option"
  assumes to_string: "net_to_string api n = show_addr (net_addr api n) @ ''/'' @ show_nat (net_prefix_len api n)"
    and parse_to_string: "parse_net (net_to_string api n) = Some n"
begin

lemma net_eqI: "net_addr api m = net_addr api n \<Longrightarrow> net_prefix_len api m = net_prefix_len api n \<Longrightarrow> m = n"
  by (metis to_string parse_to_string option.inject)

lemma net_to_string_inj: "net_to_string api m = net_to_string api n \<longleftrightarrow> m = n"
  by (metis parse_to_string option.inject)

end

definition cidr_parse :: "string \<Rightarrow> cidr option" where
  "cidr_parse s =
     (let a = takeWhile (\<lambda>c. c \<noteq> CHR ''/'') s; p = drop (length a + 1) s in
      case (parse_addr a, read_digits 10 0 0 p) of
        (Some (AddrV4 w), (n, c, [])) \<Rightarrow> if c > 0 then Some (Cidr4 w n) else None
      | (Some (AddrV6 w), (n, c, [])) \<Rightarrow> if c > 0 then Some (Cidr6 w n) else None
      | _ \<Rightarrow> None)"

lemma show_addr_no_slash: "CHR ''/'' \<notin> set (show_addr a)"
proof -
  have d: "to_digit 10 CHR ''/'' = None" "to_digit 16 CHR ''/'' = None" by (simp_all add: to_digit_def)
  have n: "CHR ''/'' \<notin> set (show_hex n)" "CHR ''/'' \<notin> set (show_nat n)" for n
    using set_show_base [of 16 n] set_show_base [of 10 n] d by force+
  have h: "CHR ''/'' \<notin> set (join '':'' (map show_hex gs))" for gs
    using n by (auto dest!: set_join)
  have v: "CHR ''/'' \<notin> set (show_v4 w)" for w
    using n by (auto simp: show_v4_def dest!: set_join)
  show ?thesis using h v by (cases a) (auto simp: show_v6_def Let_def split: prod.splits)
qed

lemma cidr_parse_text:
  "cidr_parse (show_addr a @ ''/'' @ show_nat p) =
     (case a of AddrV4 w \<Rightarrow> Some (Cidr4 w p) | AddrV6 w \<Rightarrow> Some (Cidr6 w p))"
proof -
  have t: "takeWhile (\<lambda>c. c \<noteq> CHR ''/'') (show_addr a @ ''/'' @ show_nat p) = show_addr a"
    using show_addr_no_slash [of a] by (auto simp: takeWhile_append takeWhile_eq_all_conv)
  have r: "read_digits 10 0 0 (show_nat p) = (p, length (show_nat p), [])"
    using read_digits_show [of 10 0 0 p "[]"] by simp
  show ?thesis
    unfolding cidr_parse_def t Let_def using r by (cases a) (simp_all add: parse_addr_show_v4 parse_addr_show_v6)
qed

interpretation cidr_text: ipnet_text cidr_api cidr_parse
proof (unfold_locales, goal_cases)
  case (1 n)
  show ?case by (simp add: cidr_api_def)
next
  case (2 n)
  show ?case using cidr_parse_text [of "fst (cidr_key n)" "snd (cidr_key n)"]
    by (cases n) (simp_all add: cidr_api_def)
qed

end
