(* ===== verification/Kr_LbAlloc.thy ===== *)
theory Kr_LbAlloc
  imports Kr_IpNet
begin

text \<open>
  The LoadBalancer address allocator, \<^verbatim>\<open>crates/lballoc/src\<close>: the pool cursor (\<^verbatim>\<open>pools.rs\<close>), the
  planning of one service (\<^verbatim>\<open>allocate.rs\<close>), the reconcile pass over all services
  (\<^verbatim>\<open>controller.rs\<close>). The status subresource of the API server is the parameter
  \<open>append_ingress\<close>, an effect on a state of any type.
\<close>

section \<open>Pools\<close>

record 'n ip_ranges =
  ranges :: "'n list"
  range_index :: nat
  current_ip :: "ip_addr option"

text \<open>The octets in reverse order: increment one, stop when it did not wrap to zero.\<close>

fun bump_le :: "u8 list \<Rightarrow> u8 list" where
  "bump_le [] = []"
| "bump_le (b # bs) = (let b' = b + 1 in if b' \<noteq> 0 then b' # bs else b' # bump_le bs)"

definition bump :: "u8 list \<Rightarrow> u8 list" where
  "bump os = rev (bump_le (rev os))"

fun inc_ip :: "ip_addr \<Rightarrow> ip_addr" where
  "inc_ip (AddrV4 a) = AddrV4 (of_octets (bump (octets 4 a)))"
| "inc_ip (AddrV6 a) = AddrV6 (of_octets (bump (octets 16 a)))"

definition ranges_new :: "'n ipnet_api \<Rightarrow> 'n list \<Rightarrow> 'n ip_ranges" where
  "ranges_new api rs =
     \<lparr> ranges = rs, range_index = 0,
       current_ip = (case rs of [] \<Rightarrow> None | r # _ \<Rightarrow> Some (net_network api r)) \<rparr>"

definition ranges_len :: "'n ip_ranges \<Rightarrow> nat" where
  "ranges_len r = length (ranges r)"

definition ranges_is_empty :: "'n ip_ranges \<Rightarrow> bool" where
  "ranges_is_empty r = (ranges r = [])"

definition ranges_contains :: "'n ipnet_api \<Rightarrow> 'n ip_ranges \<Rightarrow> ip_addr \<Rightarrow> bool" where
  "ranges_contains api r ip = list_ex (\<lambda>n. net_contains api n ip) (ranges r)"

text \<open>Indexing out of range panics in Rust; \<open>ranges_wf\<close> below excludes it.\<close>

definition inc :: "'n ipnet_api \<Rightarrow> 'n ip_ranges \<Rightarrow> 'n ip_ranges" where
  "inc api r =
     (case current_ip r of
        None \<Rightarrow> r
      | Some cur \<Rightarrow>
          let nxt = inc_ip cur in
          if net_contains api (ranges r ! range_index r) nxt then r \<lparr> current_ip := Some nxt \<rparr>
          else
            let i = (if range_index r + 1 \<ge> length (ranges r) then 0 else range_index r + 1)
            in r \<lparr> range_index := i, current_ip := Some (net_network api (ranges r ! i)) \<rparr>)"

text \<open>
  The loop of \<^verbatim>\<open>next_free_ip\<close>. The outer option is the loop itself (None: it does not end), the inner
  one the result of the function.
\<close>

partial_function (option) next_free_loop ::
  "'n ipnet_api \<Rightarrow> ip_addr list \<Rightarrow> ip_addr \<Rightarrow> ip_addr \<Rightarrow> 'n ip_ranges
     \<Rightarrow> (ip_addr option \<times> 'n ip_ranges) option" where
  [code]: "next_free_loop api allocated start ip r =
     (if ip \<notin> set allocated then Some (Some ip, r)
      else let r' = inc api r in
        (case current_ip r' of
           None \<Rightarrow> Some (None, r')
         | Some ip' \<Rightarrow> if ip' = start then Some (None, r')
                       else next_free_loop api allocated start ip' r'))"

definition next_free_ip ::
  "'n ipnet_api \<Rightarrow> ip_addr list \<Rightarrow> 'n ip_ranges \<Rightarrow> (ip_addr option \<times> 'n ip_ranges) option" where
  "next_free_ip api allocated r =
     (case current_ip r of
        None \<Rightarrow> Some (None, r)
      | Some start \<Rightarrow> next_free_loop api allocated start start r)"

section \<open>Planning one service\<close>

record lb_service =
  lb_namespace :: string
  lb_name :: string
  is_loadbalancer :: bool
  loadbalancer_class :: "string option"
  want_v4 :: bool
  want_v6 :: bool
  require_dual :: bool
  lb_external_ips :: "ip_addr list"
  ingress_ips :: "ip_addr list"

definition LOAD_BALANCER_CLASS :: string where
  "LOAD_BALANCER_CLASS = ''kube-router''"

definition have_families :: "lb_service \<Rightarrow> bool \<times> bool" where
  "have_families svc = (list_ex is_ipv4 (ingress_ips svc), list_ex is_ipv6 (ingress_ips svc))"

datatype alloc_error = NoRanges string | DualStackUnavailable | Exhausted

definition check_class :: "string option \<Rightarrow> bool \<Rightarrow> bool" where
  "check_class cls is_default =
     (case cls of
        Some c \<Rightarrow> if c = LOAD_BALANCER_CLASS then True
                   else if c = ''default'' then is_default else False
      | None \<Rightarrow> is_default)"

definition needs_ingress :: "lb_service \<Rightarrow> bool" where
  "needs_ingress svc =
     (let (have4, have6) = have_families svc in want_v4 svc \<noteq> have4 \<or> want_v6 svc \<noteq> have6)"

definition should_allocate :: "lb_service \<Rightarrow> bool \<Rightarrow> bool" where
  "should_allocate svc is_default =
     (is_loadbalancer svc \<and> check_class (loadbalancer_class svc) is_default \<and> needs_ingress svc)"

record allocation_plan =
  plan_v4 :: "ip_addr option"
  plan_v6 :: "ip_addr option"

definition plan_ips :: "allocation_plan \<Rightarrow> ip_addr list" where
  "plan_ips p = (case plan_v4 p of None \<Rightarrow> [] | Some a \<Rightarrow> [a]) @
                (case plan_v6 p of None \<Rightarrow> [] | Some a \<Rightarrow> [a])"

definition plan_is_empty :: "allocation_plan \<Rightarrow> bool" where
  "plan_is_empty p = (plan_v4 p = None \<and> plan_v6 p = None)"

text \<open>One family's attempt: the planned address, the error, and the moved cursor.\<close>

definition try_family ::
  "'n ipnet_api \<Rightarrow> bool \<Rightarrow> ip_addr list \<Rightarrow> 'n ip_ranges
     \<Rightarrow> (ip_addr option \<times> alloc_error option \<times> 'n ip_ranges) option" where
  "try_family api needed allocated r =
     (if needed then
        (case next_free_ip api allocated r of
           None \<Rightarrow> None
         | Some (Some ip, r') \<Rightarrow> Some (Some ip, None, r')
         | Some (None, r') \<Rightarrow> Some (None, Some Exhausted, r'))
      else Some (None, None, r))"

text \<open>
  The result is \<open>Inl\<close> an error or \<open>Inr\<close> a plan, with the two cursors as they are afterwards.
\<close>

definition plan_allocation ::
  "'n ipnet_api \<Rightarrow> lb_service \<Rightarrow> 'n ip_ranges \<Rightarrow> 'n ip_ranges \<Rightarrow> ip_addr list \<Rightarrow> ip_addr list
     \<Rightarrow> ((alloc_error + allocation_plan) \<times> 'n ip_ranges \<times> 'n ip_ranges) option" where
  "plan_allocation api svc r4 r6 allocated4 allocated6 =
     (let can_v4 = (\<not> ranges_is_empty r4); can_v6 = (\<not> ranges_is_empty r6) in
      if require_dual svc \<and> \<not> can_v4 then Some (Inl (NoRanges ''IPv4 required''), r4, r6)
      else if require_dual svc \<and> \<not> can_v6 then Some (Inl (NoRanges ''IPv6 required''), r4, r6)
      else if want_v4 svc \<and> \<not> can_v4 \<and> \<not> want_v6 svc then Some (Inl (NoRanges ''no IPv4 ranges''), r4, r6)
      else if want_v6 svc \<and> \<not> can_v6 \<and> \<not> want_v4 svc then Some (Inl (NoRanges ''no IPv6 ranges''), r4, r6)
      else
        let (have4, have6) = have_families svc in
        case try_family api (want_v4 svc \<and> \<not> have4 \<and> can_v4) allocated4 r4 of
          None \<Rightarrow> None
        | Some (p4, err4, r4') \<Rightarrow>
            (case try_family api (want_v6 svc \<and> \<not> have6 \<and> can_v6) allocated6 r6 of
               None \<Rightarrow> None
             | Some (p6, err6, r6') \<Rightarrow>
                 let plan = \<lparr> plan_v4 = p4, plan_v6 = p6 \<rparr> in
                 Some (if plan_is_empty plan \<and> err4 = None \<and> err6 = None then Inr plan
                       else if plan_is_empty plan then
                         Inl (case err4 of Some e \<Rightarrow> e
                              | None \<Rightarrow> (case err6 of Some e \<Rightarrow> e | None \<Rightarrow> Exhausted))
                       else if require_dual svc \<and> (p4 = None \<or> p6 = None) then Inl DualStackUnavailable
                       else Inr plan,
                       r4', r6')))"

section \<open>The reconcile pass\<close>

fun service_ips :: "lb_service \<Rightarrow> ip_addr list" where
  "service_ips svc = lb_external_ips svc @ ingress_ips svc"

definition allocated_ips ::
  "'n ipnet_api \<Rightarrow> lb_service list \<Rightarrow> 'n ip_ranges \<Rightarrow> 'n ip_ranges \<Rightarrow> ip_addr list \<times> ip_addr list" where
  "allocated_ips api services r4 r6 =
     (let ips = concat (map service_ips services) in
      (filter (\<lambda>ip. is_ipv4 ip \<and> ranges_contains api r4 ip) ips,
       filter (\<lambda>ip. is_ipv6 ip \<and> ranges_contains api r6 ip) ips))"

record 'n lb_allocator =
  v4_ranges :: "'n ip_ranges"
  v6_ranges :: "'n ip_ranges"
  is_default_class :: bool

type_synonym ('s, 'e) status_updater = "string \<Rightarrow> string \<Rightarrow> ip_addr list \<Rightarrow> ('s, 'e, unit) eff"

text \<open>
  The loop over the services. \<open>a4\<close>, \<open>a6\<close> are the addresses handed out so far; the result is the
  number of services updated or the first status error, with the allocator and the cluster state.
\<close>

fun reconcile_loop ::
  "'n ipnet_api \<Rightarrow> ('s, 'e) status_updater \<Rightarrow> lb_service list \<Rightarrow> ip_addr list \<Rightarrow> ip_addr list
     \<Rightarrow> nat \<Rightarrow> 'n lb_allocator \<Rightarrow> 's \<Rightarrow> (('e + nat) \<times> 'n lb_allocator \<times> 's) option" where
  "reconcile_loop api append_ingress [] a4 a6 updated al s = Some (Inr updated, al, s)"
| "reconcile_loop api append_ingress (svc # svcs) a4 a6 updated al s =
     (if \<not> should_allocate svc (is_default_class al)
      then reconcile_loop api append_ingress svcs a4 a6 updated al s
      else case plan_allocation api svc (v4_ranges al) (v6_ranges al) a4 a6 of
        None \<Rightarrow> None
      | Some (res, r4, r6) \<Rightarrow>
          let al' = al \<lparr> v4_ranges := r4, v6_ranges := r6 \<rparr> in
          (case res of
             Inl _ \<Rightarrow> reconcile_loop api append_ingress svcs a4 a6 updated al' s
           | Inr plan \<Rightarrow>
               let ips = plan_ips plan in
               if ips = [] then reconcile_loop api append_ingress svcs a4 a6 updated al' s
               else
                 let a4' = a4 @ filter is_ipv4 ips; a6' = a6 @ filter is_ipv6 ips in
                 (case append_ingress (lb_namespace svc) (lb_name svc) ips s of
                    (Inl e, s') \<Rightarrow> Some (Inl e, al', s')
                  | (Inr _, s') \<Rightarrow>
                      reconcile_loop api append_ingress svcs a4' a6' (updated + 1) al' s')))"

definition lb_reconcile ::
  "'n ipnet_api \<Rightarrow> ('s, 'e) status_updater \<Rightarrow> lb_service list \<Rightarrow> 'n lb_allocator \<Rightarrow> 's
     \<Rightarrow> (('e + nat) \<times> 'n lb_allocator \<times> 's) option" where
  "lb_reconcile api append_ingress services al s =
     (let (a4, a6) = allocated_ips api services (v4_ranges al) (v6_ranges al)
      in reconcile_loop api append_ingress services a4 a6 0 al s)"

section \<open>Incrementing an address\<close>

lemma length_bump_le [simp]: "length (bump_le bs) = length bs"
  by (induction bs) (auto simp: Let_def)

lemma of_le_bytes_bump_le:
  "of_le_bytes (bump_le bs) = (of_le_bytes bs + 1) mod 256 ^ length bs"
proof (induction bs)
  case (Cons b bs)
  have b: "unat b < 256" using unsigned_less [of b, where ?'a=nat] by simp
  show ?case
  proof (cases "b + 1 = 0")
    case True
    then have "b = - 1" by (simp add: eq_neg_iff_add_eq_0)
    then have "b = 255" by simp
    then show ?thesis using Cons by (simp add: mult_mod_right)
  next
    case False
    then have nz: "unat (b + 1) = unat b + 1"
      using unatSuc [of b] by (simp add: add.commute)
    then have "unat b + 1 < 256"
      using unsigned_less [of "b + 1", where ?'a=nat] by simp
    moreover have "of_le_bytes bs < 256 ^ length bs" by (rule of_le_bytes_less)
    ultimately have "unat b + 256 * of_le_bytes bs + 1 < 256 ^ length (b # bs)" by simp
    then show ?thesis using False nz by (simp add: Let_def)
  qed
qed simp

lemma of_octets_bump:
  fixes w :: "'a::len word"
  assumes "LENGTH('a) = 8 * n"
  shows "of_octets (bump (octets n w)) = w + 1"
proof -
  have p: "(256 :: nat) ^ n = 2 ^ LENGTH('a)" by (simp add: assms power_mult)
  have "of_octets (bump (octets n w)) = (of_nat ((unat w + 1) mod 2 ^ LENGTH('a)) :: 'a word)"
    by (simp add: of_octets_def bump_def octets_def of_le_octets_eq of_le_bytes_bump_le of_le_bytes_le_bytes p)
  also have "\<dots> = of_nat (unat w + 1)"
    by (subst word_of_nat_eq_iff) (simp add: take_bit_eq_mod)
  finally show ?thesis by simp
qed

lemma inc_ip_V4: "inc_ip (AddrV4 a) = AddrV4 (a + 1)"
  by (simp add: of_octets_bump)

lemma inc_ip_V6: "inc_ip (AddrV6 a) = AddrV6 (a + 1)"
  by (simp add: of_octets_bump)

declare inc_ip.simps [simp del]

fun addr_val :: "ip_addr \<Rightarrow> nat" where
  "addr_val (AddrV4 a) = unat a"
| "addr_val (AddrV6 a) = unat a"

lemma of_addr_inc_ip [simp]: "of_addr (inc_ip a) = of_addr a"
  by (cases a) (simp_all add: inc_ip_V4 inc_ip_V6)

lemma word_inc_val:
  assumes "(a :: 'a::len word) < b"
  shows "unat (a + 1) = unat a + 1"
proof -
  have "1 + a \<noteq> 0"
  proof
    assume "1 + a = 0"
    then have "a = - 1" by (simp add: eq_neg_iff_add_eq_0 add.commute)
    with assms show False using word_order.extremum [of b] by (simp add: leD)
  qed
  then show ?thesis using unatSuc [of a] by (simp add: add.commute)
qed

lemma word_inc_le: "(a :: 'a::len word) < b \<Longrightarrow> a \<le> a + 1"
  by (simp add: word_le_nat_alt word_inc_val)

lemma less_same_family [simp]:
  "AddrV4 x < AddrV4 y \<longleftrightarrow> x < y" "AddrV6 u < AddrV6 v \<longleftrightarrow> u < v"
  by (auto simp: less_ip_addr_def order_less_le)

lemma inc_ip_between:
  assumes "of_addr a = of_addr b" "a < b"
  shows "a \<le> inc_ip a \<and> inc_ip a \<le> b \<and> addr_val (inc_ip a) = addr_val a + 1
    \<and> addr_val a < addr_val b"
  using assms
  by (cases a; cases b)
     (auto simp: inc_ip_V4 inc_ip_V6 word_inc_val word_inc_le inc_le unat_mono)

section \<open>The cursor\<close>

text \<open>The invariant of a cursor: without ranges there is no current address, with ranges it lies in
  the range of the index.\<close>

definition ranges_wf :: "'n ipnet_api \<Rightarrow> 'n ip_ranges \<Rightarrow> bool" where
  "ranges_wf api r =
     (case current_ip r of
        None \<Rightarrow> ranges r = []
      | Some ip \<Rightarrow> range_index r < length (ranges r)
                   \<and> net_contains api (ranges r ! range_index r) ip)"

text \<open>No range is the whole address space of its family.\<close>

definition no_wrap :: "'n ipnet_api \<Rightarrow> 'n list \<Rightarrow> bool" where
  "no_wrap api rs = list_all (\<lambda>n. \<not> net_contains api n (inc_ip (net_broadcast api n))) rs"

definition nets_apart :: "'n ipnet_api \<Rightarrow> 'n \<Rightarrow> 'n \<Rightarrow> bool" where
  "nets_apart api m n \<longleftrightarrow> net_family api m \<noteq> net_family api n
     \<or> net_broadcast api m < net_network api n \<or> net_broadcast api n < net_network api m"

abbreviation pool_disjoint :: "'n ipnet_api \<Rightarrow> 'n list \<Rightarrow> bool" where
  "pool_disjoint api rs \<equiv> sorted_wrt (nets_apart api) rs"

abbreviation at :: "'n ip_ranges \<Rightarrow> nat \<Rightarrow> ip_addr \<Rightarrow> 'n ip_ranges" where
  "at r i ip \<equiv> r \<lparr> range_index := i, current_ip := Some ip \<rparr>"

definition next_index :: "'n ip_ranges \<Rightarrow> nat \<Rightarrow> nat" where
  "next_index r i = (if i + 1 \<ge> length (ranges r) then 0 else i + 1)"

lemma ranges_inc [simp]: "ranges (inc api r) = ranges r"
  by (simp add: inc_def Let_def split: option.splits)

lemma ranges_inc_pow [simp]: "ranges ((inc api ^^ k) r) = ranges r"
  by (induction k) simp_all

context ipnet
begin

lemma wf_new: "ranges_wf api (ranges_new api rs)"
  by (simp add: ranges_wf_def ranges_new_def contains_network split: list.splits)

lemma wf_inc: "ranges_wf api r \<Longrightarrow> ranges_wf api (inc api r)"
  by (auto simp: ranges_wf_def inc_def Let_def contains_network split: option.splits)

lemma wf_inc_pow: "ranges_wf api r \<Longrightarrow> ranges_wf api ((inc api ^^ k) r)"
  by (induction k) (simp_all add: wf_inc)

lemma nets_apart_not_contains:
  "nets_apart api m n \<Longrightarrow> net_contains api m a \<Longrightarrow> \<not> net_contains api n a"
  by (auto simp: nets_apart_def contains_iff)

lemma pool_disjoint_unique:
  assumes "pool_disjoint api rs" "i < length rs" "j < length rs"
    "net_contains api (rs ! i) a" "net_contains api (rs ! j) a"
  shows "i = j"
proof (rule linorder_cases [of i j])
  show "i < j \<Longrightarrow> i = j" "j < i \<Longrightarrow> i = j"
    using assms by (meson nets_apart_not_contains sorted_wrt_nth_less)+
qed

text \<open>Within one range the cursor walks from any address to any later one.\<close>

lemma reach_within:
  assumes "net_contains api (ranges r ! i) lo" "net_contains api (ranges r ! i) hi" "lo \<le> hi"
  shows "\<exists>k. (inc api ^^ k) (at r i lo) = at r i hi"
  using assms
proof (induction "addr_val hi - addr_val lo" arbitrary: lo)
  case 0
  have fam: "of_addr lo = of_addr hi" using 0 by (simp add: contains_iff)
  have "lo = hi" using 0 inc_ip_between [OF fam] by (metis diff_is_0_eq leD order_le_less)
  then show ?case by (metis funpow_0)
next
  case (Suc d)
  have fam: "of_addr lo = of_addr hi" using Suc by (simp add: contains_iff)
  have less: "lo < hi" using Suc.hyps(2) Suc.prems(3) by (auto simp: order_le_less)
  note b = inc_ip_between [OF fam less]
  have nxt: "net_contains api (ranges r ! i) (inc_ip lo)"
    using Suc.prems b by (auto simp: contains_iff)
  have "d = addr_val hi - addr_val (inc_ip lo)" using Suc.hyps(2) b by linarith
  then obtain k where "(inc api ^^ k) (at r i (inc_ip lo)) = at r i hi"
    using Suc.hyps(1) nxt Suc.prems(2) b by blast
  moreover have "inc api (at r i lo) = at r i (inc_ip lo)"
    using nxt by (simp add: inc_def)
  ultimately have "(inc api ^^ Suc k) (at r i lo) = at r i hi"
    by (simp add: funpow_swap1)
  then show ?case by blast
qed

text \<open>At the last address of a range the cursor moves to the first address of the next one.\<close>

lemma reach_next_range:
  assumes "no_wrap api (ranges r)" "i < length (ranges r)" "net_contains api (ranges r ! i) ip"
  shows "\<exists>k > 0. (inc api ^^ k) (at r i ip)
           = at r (next_index r i) (net_network api (ranges r ! next_index r i))"
proof -
  let ?b = "net_broadcast api (ranges r ! i)"
  obtain k where k: "(inc api ^^ k) (at r i ip) = at r i ?b"
    using reach_within assms(3) contains_broadcast contains_iff by metis
  have "\<not> net_contains api (ranges r ! i) (inc_ip ?b)"
    using assms(1,2) by (auto simp: no_wrap_def list_all_length)
  then have "inc api (at r i ?b) = at r (next_index r i) (net_network api (ranges r ! next_index r i))"
    by (simp add: inc_def next_index_def)
  then have "(inc api ^^ Suc k) (at r i ip)
      = at r (next_index r i) (net_network api (ranges r ! next_index r i))"
    using k by simp
  then show ?thesis by blast
qed

lemma reach_trans:
  "(inc api ^^ k) x = y \<Longrightarrow> (inc api ^^ l) y = z \<Longrightarrow> \<exists>m \<ge> k. (inc api ^^ m) x = z"
  by (metis add.commute funpow_add le_add1 o_apply)

lemma reach_first_range:
  assumes "no_wrap api (ranges r)" "i < length (ranges r)" "net_contains api (ranges r ! i) ip"
  shows "\<exists>k > 0. (inc api ^^ k) (at r i ip) = at r 0 (net_network api (ranges r ! 0))"
  using assms(2,3)
proof (induction "length (ranges r) - i" arbitrary: i ip)
  case (Suc d)
  obtain k where k: "k > 0" "(inc api ^^ k) (at r i ip)
      = at r (next_index r i) (net_network api (ranges r ! next_index r i))"
    using reach_next_range assms(1) Suc.prems by blast
  show ?case
  proof (cases "i + 1 \<ge> length (ranges r)")
    case True
    then show ?thesis using k by (auto simp: next_index_def)
  next
    case False
    then have ni: "next_index r i = i + 1" by (simp add: next_index_def)
    moreover have "d = length (ranges r) - (i + 1)" using Suc.hyps(2) by linarith
    ultimately obtain l where l: "(inc api ^^ l) (at r (i + 1) (net_network api (ranges r ! (i + 1))))
        = at r 0 (net_network api (ranges r ! 0))"
      using Suc.hyps(1) [of "i + 1"] False contains_network by (metis not_le_imp_less)
    show ?thesis using reach_trans [OF k(2) [unfolded ni] l] k(1) by (metis order_less_le_trans)
  qed
qed simp

lemma reach_range:
  assumes "no_wrap api (ranges r)" "j < length (ranges r)"
  shows "\<exists>k. (inc api ^^ k) (at r 0 (net_network api (ranges r ! 0)))
           = at r j (net_network api (ranges r ! j))"
  using assms(2)
proof (induction j)
  case 0
  show ?case by (metis funpow_0)
next
  case (Suc j)
  then obtain k where k: "(inc api ^^ k) (at r 0 (net_network api (ranges r ! 0)))
      = at r j (net_network api (ranges r ! j))" by auto
  have "next_index r j = Suc j" using Suc.prems by (simp add: next_index_def)
  then show ?case
    using reach_trans [OF k] reach_next_range [OF assms(1), of j] contains_network Suc.prems
    by (metis Suc_lessD)
qed

text \<open>From any place the cursor comes to any place of the pool, also back to where it was.\<close>

lemma reach_any:
  assumes "no_wrap api (ranges r)"
    and "i < length (ranges r)" "net_contains api (ranges r ! i) a"
    and "j < length (ranges r)" "net_contains api (ranges r ! j) b"
  shows "\<exists>k > 0. (inc api ^^ k) (at r i a) = at r j b"
proof -
  obtain k where k: "k > 0" "(inc api ^^ k) (at r i a) = at r 0 (net_network api (ranges r ! 0))"
    using reach_first_range assms(1-3) by blast
  obtain l where l: "(inc api ^^ l) (at r 0 (net_network api (ranges r ! 0)))
      = at r j (net_network api (ranges r ! j))" using reach_range assms(1,4) by blast
  obtain m where m: "(inc api ^^ m) (at r j (net_network api (ranges r ! j))) = at r j b"
    using reach_within contains_network contains_iff assms(5) by metis
  obtain n where n: "n \<ge> k" "(inc api ^^ n) (at r i a) = at r j (net_network api (ranges r ! j))"
    using reach_trans [OF k(2) l] by blast
  then show ?thesis using reach_trans [OF n(2) m] k(1) by (metis order_less_le_trans)
qed

end

section \<open>The next free address\<close>

lemma wf_current: "ranges_wf api r \<Longrightarrow> ranges r \<noteq> [] \<Longrightarrow> \<exists>ip. current_ip r = Some ip"
  by (auto simp: ranges_wf_def split: option.splits)

lemma wf_at:
  "ranges_wf api r \<Longrightarrow> current_ip r = Some ip \<Longrightarrow>
     r = at r (range_index r) ip \<and> range_index r < length (ranges r)
     \<and> net_contains api (ranges r ! range_index r) ip"
  by (simp add: ranges_wf_def)

lemma ranges_contains_nth:
  "ranges_contains api r a \<longleftrightarrow> (\<exists>i < length (ranges r). net_contains api (ranges r ! i) a)"
  by (auto simp: ranges_contains_def list_ex_length)

lemma wf_current_contained:
  "ranges_wf api r \<Longrightarrow> current_ip r = Some a \<Longrightarrow> ranges_contains api r a"
  by (auto simp: ranges_contains_nth ranges_wf_def)

context ipnet
begin

text \<open>The loop from step \<open>j\<close> on, when the cursor is first back at \<open>start\<close> after \<open>k\<close> steps.\<close>

lemma next_free_loop_run:
  assumes wf: "ranges_wf api r" and ne: "ranges r \<noteq> []"
    and ret: "current_ip ((inc api ^^ k) r) = Some start"
    and first: "\<And>m. 0 < m \<Longrightarrow> m < k \<Longrightarrow> current_ip ((inc api ^^ m) r) \<noteq> Some start"
    and "j < k" "current_ip ((inc api ^^ j) r) = Some ip"
  shows "\<exists>res n. next_free_loop api allocated start ip ((inc api ^^ j) r) = Some (res, (inc api ^^ n) r)
      \<and> (case res of
           Some a \<Rightarrow> a \<notin> set allocated \<and> current_ip ((inc api ^^ n) r) = Some a
         | None \<Rightarrow> \<forall>m. j \<le> m \<and> m < k \<longrightarrow> the (current_ip ((inc api ^^ m) r)) \<in> set allocated)"
  using assms(5,6)
proof (induction "k - j" arbitrary: j ip)
  case (Suc d)
  show ?case
  proof (cases "ip \<in> set allocated")
    case False
    then have "next_free_loop api allocated start ip ((inc api ^^ j) r) = Some (Some ip, (inc api ^^ j) r)"
      by (simp add: next_free_loop.simps)
    then show ?thesis using False Suc.prems by (intro exI [of _ "Some ip"] exI [of _ j]) simp
  next
    case True
    obtain ip' where ip': "current_ip ((inc api ^^ Suc j) r) = Some ip'"
      using wf_current wf_inc_pow [OF wf] ne ranges_inc_pow by metis
    have upto: "m = j \<or> Suc j \<le> m" if "j \<le> m" for m using that by linarith
    show ?thesis
    proof (cases "ip' = start")
      case start: True
      then have k: "k = Suc j" using first [of "Suc j"] ip' Suc.prems(1) by force
      have "next_free_loop api allocated start ip ((inc api ^^ j) r) = Some (None, (inc api ^^ Suc j) r)"
        using True start ip' by (simp add: next_free_loop.simps)
      then show ?thesis using True Suc.prems k
        by (intro exI [of _ None] exI [of _ "Suc j"]) (auto simp: less_Suc_eq_le)
    next
      case nstart: False
      then have j: "Suc j < k" using ret ip' Suc.prems(1) by (metis Suc_lessI option.inject)
      have step: "next_free_loop api allocated start ip ((inc api ^^ j) r)
          = next_free_loop api allocated start ip' ((inc api ^^ Suc j) r)"
        using True nstart ip'
        by (subst next_free_loop.simps) simp
      have d: "d = k - Suc j" using Suc.hyps(2) by linarith
      obtain res n where
        run: "next_free_loop api allocated start ip' ((inc api ^^ Suc j) r) = Some (res, (inc api ^^ n) r)"
        and post: "case res of
            Some a \<Rightarrow> a \<notin> set allocated \<and> current_ip ((inc api ^^ n) r) = Some a
          | None \<Rightarrow> \<forall>m. Suc j \<le> m \<and> m < k \<longrightarrow> the (current_ip ((inc api ^^ m) r)) \<in> set allocated"
        using Suc.hyps(1) [OF d j ip'] by blast
      have "case res of
            Some a \<Rightarrow> a \<notin> set allocated \<and> current_ip ((inc api ^^ n) r) = Some a
          | None \<Rightarrow> \<forall>m. j \<le> m \<and> m < k \<longrightarrow> the (current_ip ((inc api ^^ m) r)) \<in> set allocated"
        using post upto True Suc.prems(2) by (cases res) force+
      then show ?thesis using run step by auto
    qed
  qed
qed simp

text \<open>The first return of the cursor to its current address.\<close>

lemma first_return:
  assumes wf: "ranges_wf api r" and "no_wrap api (ranges r)" and cur: "current_ip r = Some start"
  obtains k where "0 < k" "current_ip ((inc api ^^ k) r) = Some start"
    "\<And>m. 0 < m \<Longrightarrow> m < k \<Longrightarrow> current_ip ((inc api ^^ m) r) \<noteq> Some start"
proof -
  let ?P = "\<lambda>k. 0 < k \<and> current_ip ((inc api ^^ k) r) = Some start"
  have "\<exists>k > 0. (inc api ^^ k) r = r"
    using reach_any [OF assms(2)] wf_at [OF wf cur] by metis
  then have "\<exists>k. ?P k" using cur by auto
  then have "?P (LEAST k. ?P k)" by (rule LeastI_ex)
  then show ?thesis using that not_less_Least [of _ ?P] by blast
qed

text \<open>With disjoint ranges the places seen until the first return are all places of the pool.\<close>

lemma first_return_covers:
  assumes wf: "ranges_wf api r" and nw: "no_wrap api (ranges r)" and cur: "current_ip r = Some start"
    and dj: "pool_disjoint api (ranges r)"
    and k: "0 < k" "current_ip ((inc api ^^ k) r) = Some start"
    and a: "ranges_contains api r a"
  shows "\<exists>m < k. current_ip ((inc api ^^ m) r) = Some a"
proof -
  let ?s = "(inc api ^^ k) r"
  have wfk: "ranges_wf api ?s" using wf by (rule wf_inc_pow)
  have "range_index ?s = range_index r"
    using pool_disjoint_unique [OF dj] wf_at [OF wf cur] wf_at [OF wfk k(2)] by (metis ranges_inc_pow)
  moreover have "current_ip ?s = current_ip r" "ranges ?s = ranges r" using k(2) cur by simp_all
  moreover have "ip_ranges.more ?s = ip_ranges.more r"
    by simp
  ultimately have per: "?s = r" by (intro ip_ranges.equality) 
  obtain j where "j < length (ranges r)" "net_contains api (ranges r ! j) a"
    using a by (auto simp: ranges_contains_nth)
  then obtain n where "(inc api ^^ n) r = at r j a"
    using reach_any [OF nw] wf_at [OF wf cur] by metis
  then have "(inc api ^^ (n mod k)) r = at r j a"
    using funpow_mod_eq [OF per, of n] by simp
  then show ?thesis using k(1) by (intro exI [of _ "n mod k"]) simp
qed

lemma next_free_ip_spec:
  assumes wf: "ranges_wf api r" and nw: "no_wrap api (ranges r)"
  shows "\<exists>res r'. next_free_ip api allocated r = Some (res, r')
      \<and> ranges_wf api r' \<and> ranges r' = ranges r
      \<and> (case res of
           Some a \<Rightarrow> a \<notin> set allocated \<and> ranges_contains api r a \<and> current_ip r' = Some a
         | None \<Rightarrow> pool_disjoint api (ranges r) \<longrightarrow> (\<forall>a. ranges_contains api r a \<longrightarrow> a \<in> set allocated))"
proof (cases "current_ip r")
  case None
  then show ?thesis using wf by (auto simp: next_free_ip_def ranges_wf_def ranges_contains_def)
next
  case (Some start)
  then have ne: "ranges r \<noteq> []" using wf by (auto simp: ranges_wf_def)
  obtain k where k: "0 < k" "current_ip ((inc api ^^ k) r) = Some start"
    "\<And>m. 0 < m \<Longrightarrow> m < k \<Longrightarrow> current_ip ((inc api ^^ m) r) \<noteq> Some start"
    using first_return [OF wf nw Some] by blast
  obtain res n where run: "next_free_loop api allocated start start r = Some (res, (inc api ^^ n) r)"
    and post: "case res of
        Some a \<Rightarrow> a \<notin> set allocated \<and> current_ip ((inc api ^^ n) r) = Some a
      | None \<Rightarrow> \<forall>m. 0 \<le> m \<and> m < k \<longrightarrow> the (current_ip ((inc api ^^ m) r)) \<in> set allocated"
    using next_free_loop_run [OF wf ne k(2,3) k(1), of start allocated] Some by auto
  have wfn: "ranges_wf api ((inc api ^^ n) r)" using wf by (rule wf_inc_pow)
  have "case res of
        Some a \<Rightarrow> a \<notin> set allocated \<and> ranges_contains api r a \<and> current_ip ((inc api ^^ n) r) = Some a
      | None \<Rightarrow> pool_disjoint api (ranges r) \<longrightarrow> (\<forall>a. ranges_contains api r a \<longrightarrow> a \<in> set allocated)"
  proof (cases res)
    case None
    have "a \<in> set allocated" if dj: "pool_disjoint api (ranges r)" and ca: "ranges_contains api r a" for a
    proof -
      obtain m where "m < k" "current_ip ((inc api ^^ m) r) = Some a"
        using first_return_covers [OF wf nw Some dj k(1,2) ca] by blast
      then show ?thesis using post None by force
    qed
    then show ?thesis using None by simp
  next
    case (Some a)
    then show ?thesis
      using post wf_current_contained [OF wfn, of a] by (auto simp: ranges_contains_def)
  qed
  then show ?thesis using run wfn Some by (auto simp: next_free_ip_def)
qed

end

section \<open>Plans\<close>

definition family_ranges :: "'n ipnet_api \<Rightarrow> ip_family \<Rightarrow> 'n ip_ranges \<Rightarrow> bool" where
  "family_ranges api f r = list_all (\<lambda>n. net_family api n = f) (ranges r)"

text \<open>What the allocator keeps of each of its two cursors.\<close>

definition pool_wf :: "'n ipnet_api \<Rightarrow> ip_family \<Rightarrow> 'n ip_ranges \<Rightarrow> bool" where
  "pool_wf api f r = (ranges_wf api r \<and> no_wrap api (ranges r) \<and> family_ranges api f r)"

definition alloc_wf :: "'n ipnet_api \<Rightarrow> 'n lb_allocator \<Rightarrow> bool" where
  "alloc_wf api al = (pool_wf api V4 (v4_ranges al) \<and> pool_wf api V6 (v6_ranges al))"

text \<open>A planned address of one family is needed, fresh and from the pool.\<close>

definition fresh_from :: "'n ipnet_api \<Rightarrow> 'n ip_ranges \<Rightarrow> ip_addr list \<Rightarrow> ip_addr option \<Rightarrow> bool" where
  "fresh_from api r allocated p =
     (case p of None \<Rightarrow> True | Some a \<Rightarrow> a \<notin> set allocated \<and> ranges_contains api r a)"

lemma ranges_contains_cong: "ranges r' = ranges r \<Longrightarrow> ranges_contains api r' = ranges_contains api r"
  by (simp add: ranges_contains_def fun_eq_iff)

context ipnet
begin

lemma family_ranges_contains:
  "family_ranges api f r \<Longrightarrow> ranges_contains api r a \<Longrightarrow> of_addr a = f"
  by (auto simp: family_ranges_def ranges_contains_def list_all_iff list_ex_iff dest: contains_family)

lemma try_family_spec:
  assumes "pool_wf api f r"
  shows "\<exists>p err r'. try_family api needed allocated r = Some (p, err, r')
     \<and> pool_wf api f r' \<and> ranges r' = ranges r \<and> fresh_from api r allocated p
     \<and> (p \<noteq> None \<longrightarrow> needed) \<and> (needed \<longrightarrow> (err = None \<longleftrightarrow> p \<noteq> None)) \<and> (\<not> needed \<longrightarrow> err = None)
     \<and> (err \<noteq> None \<longrightarrow> pool_disjoint api (ranges r) \<longrightarrow>
          (\<forall>a. ranges_contains api r a \<longrightarrow> a \<in> set allocated))"
proof (cases needed)
  case False
  then show ?thesis using assms by (simp add: try_family_def fresh_from_def)
next
  case True
  have wf: "ranges_wf api r" and nw: "no_wrap api (ranges r)" using assms by (simp_all add: pool_wf_def)
  obtain res r' where run: "next_free_ip api allocated r = Some (res, r')" and wf': "ranges_wf api r'"
    and eq: "ranges r' = ranges r" and post: "case res of
       Some a \<Rightarrow> a \<notin> set allocated \<and> ranges_contains api r a \<and> current_ip r' = Some a
     | None \<Rightarrow> pool_disjoint api (ranges r) \<longrightarrow> (\<forall>a. ranges_contains api r a \<longrightarrow> a \<in> set allocated)"
    using next_free_ip_spec [OF wf nw, of allocated] by blast
  have pw: "pool_wf api f r'" using assms wf' eq by (simp add: pool_wf_def family_ranges_def)
  show ?thesis
  proof (cases res)
    case None
    then show ?thesis using True run pw eq post
      by (intro exI [of _ None] exI [of _ "Some Exhausted"] exI [of _ r'])
         (simp add: try_family_def fresh_from_def)
  next
    case (Some a)
    then show ?thesis using True run pw eq post
      by (intro exI [of _ "Some a"] exI [of _ None] exI [of _ r'])
         (simp add: try_family_def fresh_from_def)
  qed
qed

lemma plan_allocation_spec:
  assumes "pool_wf api V4 r4" "pool_wf api V6 r6"
  shows "\<exists>res r4' r6'. plan_allocation api svc r4 r6 a4 a6 = Some (res, r4', r6')
     \<and> pool_wf api V4 r4' \<and> pool_wf api V6 r6' \<and> ranges r4' = ranges r4 \<and> ranges r6' = ranges r6
     \<and> (\<forall>plan. res = Inr plan \<longrightarrow> fresh_from api r4 a4 (plan_v4 plan) \<and> fresh_from api r6 a6 (plan_v6 plan))"
proof -
  obtain have4 have6 where h: "have_families svc = (have4, have6)" by (cases "have_families svc")
  let ?n4 = "want_v4 svc \<and> \<not> have4 \<and> \<not> ranges_is_empty r4"
  let ?n6 = "want_v6 svc \<and> \<not> have6 \<and> \<not> ranges_is_empty r6"
  obtain p4 e4 r4' where t4: "try_family api ?n4 a4 r4 = Some (p4, e4, r4')"
    "pool_wf api V4 r4'" "ranges r4' = ranges r4" "fresh_from api r4 a4 p4"
    using try_family_spec [OF assms(1), of ?n4 a4] by blast
  obtain p6 e6 r6' where t6: "try_family api ?n6 a6 r6 = Some (p6, e6, r6')"
    "pool_wf api V6 r6'" "ranges r6' = ranges r6" "fresh_from api r6 a6 p6"
    using try_family_spec [OF assms(2), of ?n6 a6] by blast
  show ?thesis
    unfolding plan_allocation_def h Let_def prod.case t4(1) t6(1) option.case
    using assms t4 t6 by (auto split: if_splits)
qed

end

section \<open>What a pass hands out\<close>

text \<open>An updater that also records its calls; \<open>logged_drop\<close> below shows that it changes nothing else.\<close>

type_synonym ingress_log = "(string \<times> string \<times> ip_addr list) list"

definition logged :: "('s, 'e) status_updater \<Rightarrow> ('s \<times> ingress_log, 'e) status_updater" where
  "logged f ns name ips sl =
     (case f ns name ips (fst sl) of (r, s') \<Rightarrow> (r, (s', snd sl @ [(ns, name, ips)])))"

definition assigned :: "ingress_log \<Rightarrow> ip_addr list" where
  "assigned log = concat (map (snd \<circ> snd) log)"

lemma assigned_append [simp]: "assigned (l @ [(ns, name, ips)]) = assigned l @ ips"
  by (simp add: assigned_def)

lemma logged_eq:
  "f ns name ips (fst sl) = (r, s') \<Longrightarrow> logged f ns name ips sl = (r, (s', snd sl @ [(ns, name, ips)]))"
  by (simp add: logged_def)

lemma reconcile_loop_logged:
  "map_option (\<lambda>(r, al, sl). (r, al, fst sl)) (reconcile_loop api (logged f) svcs a4 a6 n al sl)
     = reconcile_loop api f svcs a4 a6 n al (fst sl)"
proof (induction svcs arbitrary: a4 a6 n al sl)
  case (Cons svc svcs)
  show ?case
    by (auto simp: Cons.IH logged_eq Let_def split: option.splits prod.splits sum.splits)
qed simp

lemma logged_drop:
  "map_option (\<lambda>(r, al, sl). (r, al, fst sl)) (lb_reconcile api (logged f) services al (s, []))
     = lb_reconcile api f services al s"
  by (simp add: lb_reconcile_def reconcile_loop_logged split: prod.splits)

text \<open>
  The loop invariant: what has been assigned is distinct, belongs to the pools, and is recorded in
  \<open>a4\<close>, \<open>a6\<close>, so that no later plan uses it again.
\<close>

definition pass_inv ::
  "'n ipnet_api \<Rightarrow> 'n ip_ranges \<Rightarrow> 'n ip_ranges \<Rightarrow> ip_addr set \<Rightarrow> ip_addr list \<Rightarrow> ip_addr list
     \<Rightarrow> ingress_log \<Rightarrow> bool" where
  "pass_inv api r4 r6 taken a4 a6 log \<longleftrightarrow>
     distinct (assigned log) \<and> set (assigned log) \<union> taken \<subseteq> set a4 \<union> set a6
     \<and> set (assigned log) \<inter> taken = {}
     \<and> (\<forall>ip \<in> set (assigned log). ranges_contains api r4 ip \<or> ranges_contains api r6 ip)
     \<and> (\<forall>ip \<in> set a4. is_ipv4 ip) \<and> (\<forall>ip \<in> set a6. is_ipv6 ip)"

context ipnet
begin

lemma pool_wf_contains_V4: "pool_wf api V4 r \<Longrightarrow> ranges_contains api r a \<Longrightarrow> is_ipv4 a"
  using family_ranges_contains [of V4 r a] by (cases a) (auto simp: pool_wf_def)

lemma pool_wf_contains_V6: "pool_wf api V6 r \<Longrightarrow> ranges_contains api r a \<Longrightarrow> is_ipv6 a"
  using family_ranges_contains [of V6 r a] by (cases a) (auto simp: pool_wf_def)

lemma pass_inv_step:
  assumes inv: "pass_inv api r4 r6 taken a4 a6 log"
    and wf: "pool_wf api V4 r4" "pool_wf api V6 r6"
    and fresh: "fresh_from api r4 a4 (plan_v4 plan)" "fresh_from api r6 a6 (plan_v6 plan)"
  shows "pass_inv api r4 r6 taken (a4 @ filter is_ipv4 (plan_ips plan))
           (a6 @ filter is_ipv6 (plan_ips plan)) (log @ [(ns, name, plan_ips plan)])"
proof -
  have 4: "a \<notin> set a4 \<and> ranges_contains api r4 a \<and> is_ipv4 a" if "plan_v4 plan = Some a" for a
    using that fresh(1) pool_wf_contains_V4 [OF wf(1)] by (auto simp: fresh_from_def)
  have 6: "a \<notin> set a6 \<and> ranges_contains api r6 a \<and> is_ipv6 a" if "plan_v6 plan = Some a" for a
    using that fresh(2) pool_wf_contains_V6 [OF wf(2)] by (auto simp: fresh_from_def)
  show ?thesis
    using inv 4 6 unfolding pass_inv_def plan_ips_def assigned_append
    by (cases "plan_v4 plan"; cases "plan_v6 plan") (auto 0 3)
qed

lemma reconcile_loop_spec:
  assumes "alloc_wf api al" "ranges (v4_ranges al) = ranges r4" "ranges (v6_ranges al) = ranges r6"
    "pool_wf api V4 r4" "pool_wf api V6 r6" "pass_inv api r4 r6 taken a4 a6 (snd sl)"
  shows "\<exists>res al' sl' a4' a6'. reconcile_loop api (logged f) svcs a4 a6 n al sl = Some (res, al', sl')
     \<and> alloc_wf api al' \<and> ranges (v4_ranges al') = ranges r4 \<and> ranges (v6_ranges al') = ranges r6
     \<and> pass_inv api r4 r6 taken a4' a6' (snd sl')"
  using assms
proof (induction svcs arbitrary: a4 a6 n al sl)
  case Nil
  then show ?case by auto
next
  case (Cons svc svcs)
  note IH = Cons.IH [OF _ _ _ Cons.prems(4,5)]
  show ?case
  proof (cases "should_allocate svc (is_default_class al)")
    case False
    then show ?thesis using IH [OF Cons.prems(1-3,6)] by simp
  next
    case True
    obtain res q4 q6 where run: "plan_allocation api svc (v4_ranges al) (v6_ranges al) a4 a6 = Some (res, q4, q6)"
      and wfq: "pool_wf api V4 q4" "pool_wf api V6 q6"
      and eqq: "ranges q4 = ranges (v4_ranges al)" "ranges q6 = ranges (v6_ranges al)"
      and plan: "\<And>plan. res = Inr plan \<Longrightarrow>
         fresh_from api (v4_ranges al) a4 (plan_v4 plan) \<and> fresh_from api (v6_ranges al) a6 (plan_v6 plan)"
      using plan_allocation_spec Cons.prems(1) unfolding alloc_wf_def by blast
    let ?al = "al \<lparr> v4_ranges := q4, v6_ranges := q6 \<rparr>"
    have al: "alloc_wf api ?al" "ranges (v4_ranges ?al) = ranges r4" "ranges (v6_ranges ?al) = ranges r6"
      using wfq eqq Cons.prems(2,3) by (simp_all add: alloc_wf_def)
    note skip = IH [OF al Cons.prems(6)]
    show ?thesis
    proof (cases res)
      case (Inl e)
      then show ?thesis using True run skip by simp
    next
      case (Inr p)
      have "ranges_contains api (v4_ranges al) = ranges_contains api r4"
        "ranges_contains api (v6_ranges al) = ranges_contains api r6"
        using Cons.prems(2,3) ranges_contains_cong by blast+
      then have "fresh_from api r4 a4 (plan_v4 p)" "fresh_from api r6 a6 (plan_v6 p)"
        using plan [OF Inr] by (auto simp: fresh_from_def split: option.splits)
      note inv' = pass_inv_step [OF Cons.prems(6,4,5) this, of "lb_namespace svc" "lb_name svc"]
      obtain r s' where f: "f (lb_namespace svc) (lb_name svc) (plan_ips p) (fst sl) = (r, s')"
        by (cases "f (lb_namespace svc) (lb_name svc) (plan_ips p) (fst sl)")
      show ?thesis
      proof (cases "plan_ips p = []")
        case empty: True
        then show ?thesis using True run Inr skip by simp
      next
        case False
        let ?sl = "(s', snd sl @ [(lb_namespace svc, lb_name svc, plan_ips p)])"
        have lg: "logged f (lb_namespace svc) (lb_name svc) (plan_ips p) sl = (r, ?sl)"
          using f by (rule logged_eq)
        show ?thesis
        proof (cases r)
          case (Inl e)
          then show ?thesis using True run \<open>res = Inr p\<close> False lg al inv' by auto
        next
          case (Inr u)
          have "pass_inv api r4 r6 taken (a4 @ filter is_ipv4 (plan_ips p))
              (a6 @ filter is_ipv6 (plan_ips p)) (snd ?sl)" using inv' by simp
          from IH [OF al this, of "Suc n"] show ?thesis
            using True run \<open>res = Inr p\<close> False lg Inr by (simp add: Let_def)
        qed
      qed
    qed
  qed
qed

lemma pass_inv_init:
  assumes "allocated_ips api services r4 r6 = (a4, a6)"
  shows "pass_inv api r4 r6 (set a4 \<union> set a6) a4 a6 []"
  using assms by (auto simp: pass_inv_def assigned_def allocated_ips_def Let_def)

lemma allocated_ips_complete:
  assumes wf: "pool_wf api V4 r4" "pool_wf api V6 r6"
    and "allocated_ips api services r4 r6 = (a4, a6)" "svc \<in> set services" "ip \<in> set (service_ips svc)"
    and "ranges_contains api r4 ip \<or> ranges_contains api r6 ip"
  shows "ip \<in> set a4 \<union> set a6"
proof -
  have sets: "set a4 \<union> set a6 = {ip \<in> \<Union>(set ` service_ips ` set services).
      is_ipv4 ip \<and> ranges_contains api r4 ip \<or> is_ipv6 ip \<and> ranges_contains api r6 ip}"
    using assms(3) by (auto simp: allocated_ips_def Let_def)
  then show ?thesis
    using assms(4-6) pool_wf_contains_V4 [OF wf(1)] pool_wf_contains_V6 [OF wf(2)] by blast
qed

lemma lb_reconcile_spec:
  assumes "alloc_wf api al"
  shows "\<exists>res al' s' log. lb_reconcile api (logged f) services al (s, []) = Some (res, al', s', log)
     \<and> alloc_wf api al' \<and> distinct (assigned log)
     \<and> (\<forall>ip \<in> set (assigned log).
          (ranges_contains api (v4_ranges al) ip \<or> ranges_contains api (v6_ranges al) ip)
          \<and> (\<forall>svc \<in> set services. ip \<notin> set (service_ips svc)))"
proof -
  let ?r4 = "v4_ranges al" and ?r6 = "v6_ranges al"
  have wf: "pool_wf api V4 ?r4" "pool_wf api V6 ?r6" using assms by (simp_all add: alloc_wf_def)
  obtain a4 a6 where a: "allocated_ips api services ?r4 ?r6 = (a4, a6)"
    by (cases "allocated_ips api services ?r4 ?r6")
  have "pass_inv api ?r4 ?r6 (set a4 \<union> set a6) a4 a6 (snd (s, []))"
    using pass_inv_init [OF a] by simp
  from reconcile_loop_spec [OF assms refl refl wf this, of f services 0]
  obtain res al' sl' a4' a6' where
    run: "reconcile_loop api (logged f) services a4 a6 0 al (s, []) = Some (res, al', sl')"
    and al': "alloc_wf api al'"
    and inv: "pass_inv api ?r4 ?r6 (set a4 \<union> set a6) a4' a6' (snd sl')"
    by blast
  have "(ranges_contains api ?r4 ip \<or> ranges_contains api ?r6 ip)
      \<and> (\<forall>svc \<in> set services. ip \<notin> set (service_ips svc))" if ip: "ip \<in> set (assigned (snd sl'))" for ip
  proof -
    have c: "ranges_contains api ?r4 ip \<or> ranges_contains api ?r6 ip" and n: "ip \<notin> set a4 \<union> set a6"
      using inv ip unfolding pass_inv_def by blast+
    show ?thesis using c n allocated_ips_complete [OF wf a _ _ c] by blast
  qed
  moreover have "distinct (assigned (snd sl'))" using inv by (simp add: pass_inv_def)
  ultimately show ?thesis using run al' a
    by (intro exI [of _ res] exI [of _ al'] exI [of _ "fst sl'"] exI [of _ "snd sl'"])
       (simp add: lb_reconcile_def)
qed

end

section \<open>Properties\<close>

text \<open>C9: the byte-wise increment of an address is addition of one at the width of its family; it
  wraps from the last address to the first.\<close>

theorem inc_ip_is_successor:
  "inc_ip (AddrV4 a) = AddrV4 (a + 1) \<and> inc_ip (AddrV6 b) = AddrV6 (b + 1)"
  by (simp add: inc_ip_V4 inc_ip_V6)

text \<open>C4: for every cursor that satisfies its invariant, when no range is the whole address space,
  \<^verbatim>\<open>next_free_ip\<close> returns. An address it returns is not allocated, lies in a configured range and is
  where the cursor now stands; when the ranges do not overlap, it reports exhaustion only if every
  address of every range is allocated. The invariant and the ranges are kept.\<close>

theorem next_free_ip_correct:
  assumes "ipnet api" "ranges_wf api r" "no_wrap api (ranges r)"
  shows "\<exists>res r'. next_free_ip api allocated r = Some (res, r')
      \<and> ranges_wf api r' \<and> ranges r' = ranges r
      \<and> (case res of
           Some a \<Rightarrow> a \<notin> set allocated \<and> ranges_contains api r a \<and> current_ip r' = Some a
         | None \<Rightarrow> pool_disjoint api (ranges r) \<longrightarrow> (\<forall>a. ranges_contains api r a \<longrightarrow> a \<in> set allocated))"
  using assms by (rule ipnet.next_free_ip_spec)

definition demo_pool :: "cidr ip_ranges" where
  "demo_pool = ranges_new cidr_api [Cidr4 0x0A000000 31, Cidr4 0x0A000100 31]"

lemma demo_pool_wf: "pool_wf cidr_api V4 demo_pool"
  by code_simp

theorem next_free_ip_correct_witness:
  "\<exists>res r'. next_free_ip cidr_api [AddrV4 0x0A000000, AddrV4 0x0A000001] demo_pool = Some (res, r')
      \<and> ranges_wf cidr_api r' \<and> res = Some (AddrV4 0x0A000100)"
proof -
  have "ranges_wf cidr_api demo_pool" "no_wrap cidr_api (ranges demo_pool)"
    using demo_pool_wf by (simp_all add: pool_wf_def)
  note next_free_ip_correct [OF cidr.ipnet_axioms this, of "[AddrV4 0x0A000000, AddrV4 0x0A000001]"]
  moreover have "map_option fst (next_free_ip cidr_api [AddrV4 0x0A000000, AddrV4 0x0A000001] demo_pool)
      = Some (Some (AddrV4 0x0A000100))"
    by code_simp
  ultimately show ?thesis by auto
qed

text \<open>when two ranges overlap, the search may report exhaustion although an address is free: the
  scan stops when it meets its start address again in the other range.\<close>

theorem next_free_ip_overlap_gives_up:
  "map_option fst (next_free_ip cidr_api [AddrV4 0x0A000000, AddrV4 0x0A000001]
      (ranges_new cidr_api [Cidr4 0x0A000000 31, Cidr4 0x0A000000 30])) = Some None
   \<and> ranges_contains cidr_api (ranges_new cidr_api [Cidr4 0x0A000000 31, Cidr4 0x0A000000 30])
       (AddrV4 0x0A000002)"
  by code_simp

text \<open>C2: one pass over the services, with any status updater that may fail at any call, ends, keeps
  the invariant of the pools, and the addresses it hands out are pairwise distinct, lie in the
  configured ranges and are used by no service of the snapshot, neither as an external nor as an
  ingress address.\<close>

theorem lb_reconcile_never_double_assigns:
  assumes "ipnet api" "alloc_wf api al"
  shows "\<exists>res al' s' log. lb_reconcile api (logged f) services al (s, []) = Some (res, al', s', log)
     \<and> lb_reconcile api f services al s = Some (res, al', s')
     \<and> alloc_wf api al' \<and> distinct (assigned log)
     \<and> (\<forall>ip \<in> set (assigned log).
          (ranges_contains api (v4_ranges al) ip \<or> ranges_contains api (v6_ranges al) ip)
          \<and> (\<forall>svc \<in> set services. ip \<notin> set (service_ips svc)))"
proof -
  from ipnet.lb_reconcile_spec [OF assms, of f services s]
  obtain res al' s' log where
    "lb_reconcile api (logged f) services al (s, []) = Some (res, al', s', log)"
    "alloc_wf api al'" "distinct (assigned log)"
    "\<forall>ip \<in> set (assigned log).
        (ranges_contains api (v4_ranges al) ip \<or> ranges_contains api (v6_ranges al) ip)
        \<and> (\<forall>svc \<in> set services. ip \<notin> set (service_ips svc))"
    by blast
  then show ?thesis using logged_drop [of api f services al s] by auto
qed

definition demo_service :: "string \<Rightarrow> ip_addr list \<Rightarrow> lb_service" where
  "demo_service name ing =
     \<lparr> lb_namespace = ''default'', lb_name = name, is_loadbalancer = True, loadbalancer_class = None,
       want_v4 = True, want_v6 = False, require_dual = False, lb_external_ips = [], ingress_ips = ing \<rparr>"

definition demo_allocator :: "cidr lb_allocator" where
  "demo_allocator = \<lparr> v4_ranges = demo_pool, v6_ranges = ranges_new cidr_api [], is_default_class = True \<rparr>"

definition demo_updater :: "(unit, string) status_updater" where
  "demo_updater ns name ips s = (Inr (), s)"

lemma demo_allocator_wf: "alloc_wf cidr_api demo_allocator"
  by code_simp

theorem lb_reconcile_never_double_assigns_witness:
  "\<exists>res al' s' log.
     lb_reconcile cidr_api (logged demo_updater)
       [demo_service ''a'' [], demo_service ''b'' [AddrV4 0x0A000000], demo_service ''c'' []]
       demo_allocator ((), []) = Some (res, al', s', log)
     \<and> distinct (assigned log) \<and> assigned log = [AddrV4 0x0A000001, AddrV4 0x0A000100]"
proof -
  let ?svcs = "[demo_service ''a'' [], demo_service ''b'' [AddrV4 0x0A000000], demo_service ''c'' []]"
  have "map_option (\<lambda>(_, _, _, log). assigned log)
      (lb_reconcile cidr_api (logged demo_updater) ?svcs demo_allocator ((), []))
      = Some [AddrV4 0x0A000001, AddrV4 0x0A000100]"
    by code_simp
  with lb_reconcile_never_double_assigns [OF cidr.ipnet_axioms demo_allocator_wf, of demo_updater ?svcs "()"]
  show ?thesis by auto
qed



text \<open>a service that requires both families and already has one address never gets the other:
  whatever the pools hold, the plan is an error, although a free address of the missing family may
  exist.\<close>

theorem require_dual_half_satisfied_is_refused:
  assumes "require_dual svc" "want_v4 svc" "want_v6 svc" "have_families svc = (True, False)"
    and "plan_allocation api svc r4 r6 a4 a6 = Some (res, r4', r6')"
  shows "\<exists>e. res = Inl e"
  using assms
  by (auto simp: plan_allocation_def Let_def try_family_def plan_is_empty_def
      split: if_splits option.splits)

definition demo_dual_service :: lb_service where
  "demo_dual_service = (demo_service ''d'' [AddrV4 0x0A000000]) \<lparr> want_v6 := True, require_dual := True \<rparr>"

theorem require_dual_half_satisfied_is_refused_witness:
  "\<exists>res r4' r6' e. plan_allocation cidr_api demo_dual_service demo_pool (ranges_new cidr_api [Cidr6 0xfd00 126])
       [AddrV4 0x0A000000] [] = Some (res, r4', r6') \<and> res = Inl e"
proof -
  have "plan_allocation cidr_api demo_dual_service demo_pool (ranges_new cidr_api [Cidr6 0xfd00 126])
       [AddrV4 0x0A000000] [] \<noteq> None"
    by code_simp
  then obtain res r4' r6' where "plan_allocation cidr_api demo_dual_service demo_pool
       (ranges_new cidr_api [Cidr6 0xfd00 126]) [AddrV4 0x0A000000] [] = Some (res, r4', r6')"
    by auto
  moreover from require_dual_half_satisfied_is_refused [OF _ _ _ _ this]
  have "\<exists>e. res = Inl e"
    by (simp add: demo_dual_service_def demo_service_def have_families_def)
  ultimately show ?thesis by blast
qed

end
