(* ===== verification/Kr_Election.thy ===== *)
theory Kr_Election
  imports Kr_LbAlloc
begin

text \<open>
  Leader election of the allocator: \<^verbatim>\<open>crates/lballoc/src/election.rs\<close>, the Lease backend
  \<^verbatim>\<open>KubeLease\<close> of \<^verbatim>\<open>crates/kube-router-rs/src/lballoc_wire.rs\<close>, and the event loop
  \<^verbatim>\<open>run_loadbalancer\<close> of \<^verbatim>\<open>main.rs\<close>. The API server is a parameter: its get, create and replace are
  effects on a state of any type. For the interleaving of several instances a transition system makes
  each API call one atomic step, with the resource versions of the API server.
\<close>

section \<open>Lease objects and the backend\<close>

definition LEASE_DURATION :: int where
  "LEASE_DURATION = 15"

record lease_spec =
  holder_identity :: "string option"
  lease_duration_seconds :: "int option"
  renew_time :: "int option"
  acquire_time :: "int option"

record lease =
  resource_version :: nat
  lease_spec_of :: "lease_spec option"

record ('s, 'e) lease_api =
  lease_get_opt :: "('s, 'e, lease option) eff"
  lease_replace :: "lease \<Rightarrow> ('s, 'e, unit) eff"
  lease_create :: "lease_spec \<Rightarrow> ('s, 'e, unit) eff"

definition can_acquire :: "string option \<Rightarrow> bool \<Rightarrow> string \<Rightarrow> bool" where
  "can_acquire current_holder expired me =
     (case current_holder of None \<Rightarrow> True | Some h \<Rightarrow> if h = me then True else expired)"

text \<open>Times are in whole seconds, as \<^verbatim>\<open>Timestamp::as_second\<close> gives them.\<close>

definition held_by_other_and_fresh :: "string \<Rightarrow> int \<Rightarrow> lease option \<Rightarrow> bool" where
  "held_by_other_and_fresh identity now existing =
     (case existing of
        None \<Rightarrow> False
      | Some l \<Rightarrow>
          (case Option.bind (lease_spec_of l) holder_identity of
             None \<Rightarrow> False
           | Some h \<Rightarrow>
               if h = identity then False
               else case Option.bind (lease_spec_of l) renew_time of
                      None \<Rightarrow> False
                    | Some rt \<Rightarrow>
                        let dur = (case Option.bind (lease_spec_of l) lease_duration_seconds of
                                     None \<Rightarrow> LEASE_DURATION | Some d \<Rightarrow> d)
                        in now - rt < dur))"

definition new_spec :: "string \<Rightarrow> int \<Rightarrow> lease_spec" where
  "new_spec identity now =
     \<lparr> holder_identity = Some identity, lease_duration_seconds = Some LEASE_DURATION,
       renew_time = Some now, acquire_time = Some now \<rparr>"

definition acquire_or_renew :: "('s, 'e) lease_api \<Rightarrow> string \<Rightarrow> int \<Rightarrow> ('s, 'e, bool) eff" where
  "acquire_or_renew api identity now =
     eff_bind (lease_get_opt api) (\<lambda>existing.
       if held_by_other_and_fresh identity now existing then eff_ok False
       else
         eff_bind
           (case existing of
              Some l \<Rightarrow> lease_replace api (l \<lparr> lease_spec_of := Some (new_spec identity now) \<rparr>)
            | None \<Rightarrow> lease_create api (new_spec identity now))
           (\<lambda>_. eff_ok True))"

section \<open>The elector and the event loop\<close>

record leader_elector =
  is_leader :: bool

definition elector_new :: leader_elector where
  "elector_new = \<lparr> is_leader = False \<rparr>"

text \<open>\<open>held\<close> is the result of the backend; an error counts as not held.\<close>

definition tick :: "'e + bool \<Rightarrow> leader_elector \<Rightarrow> bool option \<times> leader_elector" where
  "tick res e =
     (let held = (case res of Inl _ \<Rightarrow> False | Inr b \<Rightarrow> b) in
      if held \<noteq> is_leader e then (Some held, e \<lparr> is_leader := held \<rparr>) else (None, e))"

datatype lb_event = ElectionTick int | SyncTick "lb_service list" | Shutdown bool

record ('n, 's) lb_loop =
  loop_elector :: leader_elector
  loop_allocator :: "'n lb_allocator"
  loop_cluster :: 's
  loop_heartbeats :: nat
  loop_running :: bool

text \<open>One turn of the \<^verbatim>\<open>select!\<close> loop. The outer option is the allocator's search, as before.\<close>

fun lb_turn ::
  "'n ipnet_api \<Rightarrow> ('s, 'e) lease_api \<Rightarrow> ('s, 'e) status_updater \<Rightarrow> string \<Rightarrow> lb_event
     \<Rightarrow> ('n, 's) lb_loop \<Rightarrow> ('n, 's) lb_loop option" where
  "lb_turn api lapi append_ingress identity (ElectionTick now) st =
     (case acquire_or_renew lapi identity now (loop_cluster st) of
        (res, s') \<Rightarrow> Some (st \<lparr> loop_elector := snd (tick res (loop_elector st)), loop_cluster := s' \<rparr>))"
| "lb_turn api lapi append_ingress identity (SyncTick services) st =
     (if is_leader (loop_elector st) then
        (case lb_reconcile api append_ingress services (loop_allocator st) (loop_cluster st) of
           None \<Rightarrow> None
         | Some (_, al', s') \<Rightarrow>
             Some (st \<lparr> loop_allocator := al', loop_cluster := s', loop_heartbeats := loop_heartbeats st + 1 \<rparr>))
      else Some (st \<lparr> loop_heartbeats := loop_heartbeats st + 1 \<rparr>))"
| "lb_turn api lapi append_ingress identity (Shutdown flag) st =
     Some (if flag then st \<lparr> loop_running := False \<rparr> else st)"

section \<open>Several instances\<close>

text \<open>
  An instance is idle or has read the lease at a time (the clock is read before the request). The
  server keeps the lease with its version and, as a ghost, the history of successful writes, the
  latest first. A replace with a stale version and a create of an existing lease fail (optimistic
  concurrency of the API server); the clock never goes back.
\<close>

datatype phase = Idle | Fetched int "lease option"

record cluster =
  server_lease :: "lease option"
  phases :: "string \<Rightarrow> phase"
  clock :: int
  writes :: "(string \<times> int) list"

definition server_write :: "string \<Rightarrow> int \<Rightarrow> lease option \<Rightarrow> cluster \<Rightarrow> cluster" where
  "server_write i now existing c =
     (case (existing, server_lease c) of
        (Some l, Some cur) \<Rightarrow>
          if resource_version l = resource_version cur then
            c \<lparr> server_lease := Some (l \<lparr> resource_version := resource_version cur + 1,
                                              lease_spec_of := Some (new_spec i now) \<rparr>),
                writes := (i, now) # writes c \<rparr>
          else c
      | (None, None) \<Rightarrow>
            c \<lparr> server_lease := Some \<lparr> resource_version = 1, lease_spec_of = Some (new_spec i now) \<rparr>,
                writes := (i, now) # writes c \<rparr>
      | _ \<Rightarrow> c)"

inductive cluster_step :: "cluster \<Rightarrow> cluster \<Rightarrow> bool" where
  step_wait: "t \<ge> clock c \<Longrightarrow> cluster_step c (c \<lparr> clock := t \<rparr>)"
| step_fetch: "phases c i = Idle \<Longrightarrow> now \<le> clock c \<Longrightarrow>
     cluster_step c (c \<lparr> phases := (phases c)(i := Fetched now (server_lease c)) \<rparr>)"
| step_decline: "phases c i = Fetched now existing \<Longrightarrow> held_by_other_and_fresh i now existing \<Longrightarrow>
     cluster_step c (c \<lparr> phases := (phases c)(i := Idle) \<rparr>)"
| step_write: "phases c i = Fetched now existing \<Longrightarrow> \<not> held_by_other_and_fresh i now existing \<Longrightarrow>
     cluster_step c (server_write i now existing (c \<lparr> phases := (phases c)(i := Idle) \<rparr>))"
| step_crash: "cluster_step c (c \<lparr> phases := (phases c)(i := Idle) \<rparr>)"

definition cluster_init :: cluster where
  "cluster_init = \<lparr> server_lease = None, phases = \<lambda>_. Idle, clock = 0, writes = [] \<rparr>"

inductive cluster_reachable :: "cluster \<Rightarrow> bool" where
  reach_init: "cluster_reachable cluster_init"
| reach_step: "cluster_reachable c \<Longrightarrow> cluster_step c c' \<Longrightarrow> cluster_reachable c'"

inductive_cases cluster_stepE: "cluster_step c c'"

text \<open>Two successive writes, the later one first: the same holder, or the lease had expired.\<close>

definition takeover_ok :: "string \<times> int \<Rightarrow> string \<times> int \<Rightarrow> bool" where
  "takeover_ok w' w \<longleftrightarrow> fst w' = fst w \<or> snd w' - snd w \<ge> LEASE_DURATION"

definition fetched_ok :: "lease option \<Rightarrow> lease option \<Rightarrow> bool" where
  "fetched_ok existing current =
     (case existing of
        None \<Rightarrow> True
      | Some l \<Rightarrow> (case current of None \<Rightarrow> False
          | Some cur \<Rightarrow> resource_version l \<le> resource_version cur
              \<and> (resource_version l = resource_version cur \<longrightarrow> l = cur)))"

text \<open>The lease on the server is the one of the latest write.\<close>

fun lease_matches :: "lease option \<Rightarrow> (string \<times> int) list \<Rightarrow> bool" where
  "lease_matches None ws = (ws = [])"
| "lease_matches (Some l) [] = False"
| "lease_matches (Some l) ((h, t) # ws) = (lease_spec_of l = Some (new_spec h t))"

definition cluster_inv :: "cluster \<Rightarrow> bool" where
  "cluster_inv c \<longleftrightarrow> lease_matches (server_lease c) (writes c)
     \<and> (\<forall>i now existing. phases c i = Fetched now existing \<longrightarrow> fetched_ok existing (server_lease c))
     \<and> successively takeover_ok (writes c)"

lemma fetched_ok_refl: "fetched_ok l l"
  by (simp add: fetched_ok_def split: option.splits)

lemma fetched_ok_bump:
  "fetched_ok existing (Some cur) \<Longrightarrow> resource_version new = resource_version cur + 1
     \<Longrightarrow> fetched_ok existing (Some new)"
  by (auto simp: fetched_ok_def split: option.splits)

lemma not_fresh_takeover:
  assumes "\<not> held_by_other_and_fresh i now (Some l)" "lease_spec_of l = Some (new_spec h t)"
  shows "takeover_ok (i, now) (h, t)"
  using assms
  by (auto simp: held_by_other_and_fresh_def takeover_ok_def new_spec_def Let_def split: if_splits)

lemma cluster_inv_phase:
  "cluster_inv c \<Longrightarrow> (case p of Idle \<Rightarrow> True | Fetched _ ex \<Rightarrow> fetched_ok ex (server_lease c))
     \<Longrightarrow> cluster_inv (c \<lparr> phases := (phases c)(i := p) \<rparr>)"
  by (auto simp: cluster_inv_def split: phase.splits)

lemma cluster_inv_server_write:
  assumes inv: "cluster_inv c" and ex: "fetched_ok existing (server_lease c)"
    and nf: "\<not> held_by_other_and_fresh i now existing"
  shows "cluster_inv (server_write i now existing c)"
proof (cases "server_lease c")
  case None
  then show ?thesis
    using inv ex by (auto simp: server_write_def cluster_inv_def fetched_ok_def split: option.splits)
next
  case (Some cur)
  then obtain h t ws where ws: "writes c = (h, t) # ws" "lease_spec_of cur = Some (new_spec h t)"
    using inv by (cases "writes c") (auto simp: cluster_inv_def)
  show ?thesis
  proof (cases "\<exists>l. existing = Some l \<and> resource_version l = resource_version cur")
    case True
    then have l: "existing = Some cur" using ex Some by (auto simp: fetched_ok_def)
    have "takeover_ok (i, now) (h, t)" using not_fresh_takeover nf l ws(2) by blast
    then show ?thesis
      using inv Some l ws fetched_ok_bump [of _ cur]
      by (auto simp: server_write_def cluster_inv_def)
  next
    case False
    then show ?thesis using inv Some by (auto simp: server_write_def split: option.splits)
  qed
qed

lemma cluster_inv_step:
  assumes "cluster_step c c'" "cluster_inv c"
  shows "cluster_inv c'"
  using assms
proof (cases rule: cluster_step.cases)
  case (step_wait t)
  then show ?thesis using assms(2) by (simp add: cluster_inv_def)
next
  case (step_fetch i now)
  then show ?thesis using assms(2) by (simp add: cluster_inv_phase fetched_ok_refl)
next
  case (step_decline i now existing)
  then show ?thesis using assms(2) by (simp add: cluster_inv_phase)
next
  case (step_write i now existing)
  let ?c = "c \<lparr> phases := (phases c)(i := Idle) \<rparr>"
  have "cluster_inv ?c" using assms(2) by (simp add: cluster_inv_phase)
  moreover have "fetched_ok existing (server_lease ?c)"
    using step_write assms(2) by (auto simp: cluster_inv_def)
  ultimately show ?thesis using step_write cluster_inv_server_write by blast
next
  case (step_crash i)
  then show ?thesis using assms(2) by (simp add: cluster_inv_phase)
qed

lemma cluster_inv_reachable: "cluster_reachable c \<Longrightarrow> cluster_inv c"
proof (induction rule: cluster_reachable.induct)
  case reach_init
  show ?case by (simp add: cluster_init_def cluster_inv_def)
next
  case (reach_step c c')
  then show ?case by (blast intro: cluster_inv_step)
qed

section \<open>The backend against the server\<close>

definition cluster_api :: "string \<Rightarrow> int \<Rightarrow> (cluster, string) lease_api" where
  "cluster_api i now =
     \<lparr> lease_get_opt = \<lambda>c. (Inr (server_lease c), c),
       lease_replace = \<lambda>l c.
         (let c' = server_write i now (Some l) c in
          (if writes c' = writes c then Inl ''conflict'' else Inr (), c')),
       lease_create = \<lambda>sp c.
         (let c' = server_write i now None c in
          (if writes c' = writes c then Inl ''already exists'' else Inr (), c')) \<rparr>"



lemma server_write_phase_commute:
  "server_write i now existing (c \<lparr> phases := p \<rparr>) = (server_write i now existing c) \<lparr> phases := p \<rparr>"
  by (auto simp: server_write_def split: option.splits)

lemma server_write_phases [simp]: "phases (server_write i now existing c) = phases c"
  by (auto simp: server_write_def split: option.splits)

lemma server_write_spec_irrelevant:
  "server_write i now (Some (l \<lparr> lease_spec_of := sp \<rparr>)) c = server_write i now (Some l) c"
  by (auto simp: server_write_def split: option.splits)

lemma server_write_writes:
  "writes (server_write i now existing c) = writes c \<longrightarrow> server_write i now existing c = c"
  "writes (server_write i now existing c) \<noteq> writes c \<longrightarrow>
     writes (server_write i now existing c) = (i, now) # writes c"
  by (auto simp: server_write_def split: option.splits)

text \<open>Reading the lease and then writing or declining are steps of the transition system.\<close>

lemma acquire_steps:
  assumes idle: "phases c i = Idle" and now: "now \<le> clock c"
  defines "c1 \<equiv> c \<lparr> phases := (phases c)(i := Fetched now (server_lease c)) \<rparr>"
  shows "cluster_step c c1"
    "held_by_other_and_fresh i now (server_lease c) \<Longrightarrow> cluster_step c1 c"
    "\<not> held_by_other_and_fresh i now (server_lease c) \<Longrightarrow>
       cluster_step c1 (server_write i now (server_lease c) c)"
proof -
  have reset: "c1 \<lparr> phases := (phases c1)(i := Idle) \<rparr> = c"
    using idle by (simp add: c1_def fun_upd_idem)
  show "cluster_step c c1" unfolding c1_def using idle now by (rule step_fetch)
  show "cluster_step c1 c" if "held_by_other_and_fresh i now (server_lease c)"
    using step_decline [of c1 i now "server_lease c"] that reset by (simp add: c1_def)
  show "cluster_step c1 (server_write i now (server_lease c) c)"
    if "\<not> held_by_other_and_fresh i now (server_lease c)"
    using step_write [of c1 i now "server_lease c"] that reset by (simp add: c1_def)
qed



text \<open>C7: every turn of the allocator's event loop ends and keeps the invariant of the pools. An
  instance that is not the leader allocates nothing on a sync tick, and after an election tick it is
  the leader only if the backend answered that it holds the lease: an error makes it give up.\<close>

theorem lb_turn_safe:
  assumes "ipnet api" "alloc_wf api (loop_allocator st)"
  shows "\<exists>st'. lb_turn api lapi append_ingress identity ev st = Some st'
    \<and> alloc_wf api (loop_allocator st')
    \<and> (\<forall>services. ev = SyncTick services \<and> \<not> is_leader (loop_elector st) \<longrightarrow>
          loop_cluster st' = loop_cluster st \<and> loop_allocator st' = loop_allocator st)
    \<and> (\<forall>now. ev = ElectionTick now \<longrightarrow>
          is_leader (loop_elector st') \<longleftrightarrow>
            fst (acquire_or_renew lapi identity now (loop_cluster st)) = Inr True)"
proof (cases ev)
  case (ElectionTick now)
  obtain res s' where a: "acquire_or_renew lapi identity now (loop_cluster st) = (res, s')"
    by (cases "acquire_or_renew lapi identity now (loop_cluster st)")
  have "is_leader (snd (tick res (loop_elector st))) \<longleftrightarrow> res = Inr True"
    by (auto simp: tick_def Let_def split: sum.splits)
  then show ?thesis using ElectionTick assms(2) a by simp
next
  case (SyncTick services)
  from ipnet.lb_reconcile_spec [OF assms, of append_ingress services "loop_cluster st"]
  obtain res al' s' log where
    "lb_reconcile api (logged append_ingress) services (loop_allocator st) (loop_cluster st, [])
       = Some (res, al', s', log)" "alloc_wf api al'" by blast
  then have "lb_reconcile api append_ingress services (loop_allocator st) (loop_cluster st) = Some (res, al', s')"
    using logged_drop [of api append_ingress services "loop_allocator st" "loop_cluster st"] by simp
  then show ?thesis using SyncTick assms(2) \<open>alloc_wf api al'\<close> by simp
next
  case (Shutdown flag)
  then show ?thesis using assms(2) by simp
qed

theorem lb_turn_safe_witness:
  "\<exists>st'. lb_turn cidr_api (cluster_api ''a'' 0) (\<lambda>ns name ips s. (Inr (), s)) ''a'' (ElectionTick 0)
      \<lparr> loop_elector = elector_new, loop_allocator = demo_allocator, loop_cluster = cluster_init,
        loop_heartbeats = 0, loop_running = True \<rparr> = Some st'
    \<and> alloc_wf cidr_api (loop_allocator st') \<and> is_leader (loop_elector st')"
proof -
  let ?st = "\<lparr> loop_elector = elector_new, loop_allocator = demo_allocator, loop_cluster = cluster_init,
        loop_heartbeats = 0, loop_running = True \<rparr>"
  have "fst (acquire_or_renew (cluster_api ''a'' 0) ''a'' 0 cluster_init) = Inr True"
    by (simp add: acquire_or_renew_def cluster_api_def eff_bind_def eff_ok_def cluster_init_def
        held_by_other_and_fresh_def server_write_def)
  moreover have "alloc_wf cidr_api (loop_allocator ?st)" using demo_allocator_wf by simp
  ultimately show ?thesis
    using lb_turn_safe [OF cidr.ipnet_axioms, of ?st "cluster_api ''a'' 0"
        "\<lambda>ns name ips s. (Inr (), s)" "''a''" "ElectionTick 0"] by fastforce
qed

end
