(* ===== verification/Kr_Netlink.thy ===== *)
theory Kr_Netlink
  imports Kr_IpNet
begin

text \<open>
  The kernel networking layer, \<^verbatim>\<open>crates/netlink-sys/src\<close>. Controllers see it through the trait
  \<^verbatim>\<open>NetlinkOps\<close>: a record of operations, passed to every definition that uses it. The locale
  \<open>netlink\<close> states what the clients rely on; it is interpreted on the in-memory implementation of
  the sources (\<^verbatim>\<open>MockNetlink\<close>). \<^verbatim>\<open>SystemNetlink\<close> runs the \<^verbatim>\<open>ip\<close> command, which is a parameter.
\<close>

section \<open>Routes and operations\<close>

datatype netlink_error = NlOp string

definition netlink_error_to_string :: "netlink_error \<Rightarrow> string" where
  "netlink_error_to_string e = (case e of NlOp m \<Rightarrow> ''netlink operation failed: '' @ m)"

record 'n route =
  rt_dst :: 'n
  rt_gateway :: "ip_addr option"
  rt_table :: u32

record ('s, 'n) netlink_ops =
  nl_ensure_dummy_link :: "string \<Rightarrow> ('s, netlink_error, unit) eff"
  nl_addr_add :: "string \<Rightarrow> ip_addr \<Rightarrow> u8 \<Rightarrow> ('s, netlink_error, unit) eff"
  nl_addr_del :: "string \<Rightarrow> ip_addr \<Rightarrow> u8 \<Rightarrow> ('s, netlink_error, unit) eff"
  nl_route_replace :: "'n route \<Rightarrow> ('s, netlink_error, unit) eff"
  nl_route_del :: "'n route \<Rightarrow> ('s, netlink_error, unit) eff"
  nl_route_list :: "u32 \<Rightarrow> ('s, netlink_error, 'n route list) eff"

text \<open>
  The contract: a kernel state holds at most one route per destination and table, and a set of bound
  addresses. An operation that succeeds does exactly what it says; one that fails changes nothing.
\<close>

abbreviation rt_key :: "'n route \<Rightarrow> 'n \<times> u32" where
  "rt_key r \<equiv> (rt_dst r, rt_table r)"

locale netlink =
  fixes ops :: "('s, 'n) netlink_ops"
    and fib :: "'s \<Rightarrow> 'n \<times> u32 \<rightharpoonup> ip_addr option"
    and addrs :: "'s \<Rightarrow> (string \<times> ip_addr \<times> u8) set"
  assumes route_replace_ok: "nl_route_replace ops r s = (Inr u, s') \<Longrightarrow>
        fib s' = (fib s)(rt_key r \<mapsto> rt_gateway r) \<and> addrs s' = addrs s"
    and route_del_ok: "nl_route_del ops r s = (Inr u, s') \<Longrightarrow>
        fib s' = (fib s)(rt_key r := None) \<and> addrs s' = addrs s"
    and addr_add_ok: "nl_addr_add ops l a p s = (Inr u, s') \<Longrightarrow>
        addrs s' = insert (l, a, p) (addrs s) \<and> fib s' = fib s"
    and addr_del_ok: "nl_addr_del ops l a p s = (Inr u, s') \<Longrightarrow>
        addrs s' = addrs s - {(l, a, p)} \<and> fib s' = fib s"
    and route_replace_err: "nl_route_replace ops r s = (Inl e, s') \<Longrightarrow> fib s' = fib s \<and> addrs s' = addrs s"
    and route_del_err: "nl_route_del ops r s = (Inl e, s') \<Longrightarrow> fib s' = fib s \<and> addrs s' = addrs s"
    and addr_add_err: "nl_addr_add ops l a p s = (Inl e, s') \<Longrightarrow> fib s' = fib s \<and> addrs s' = addrs s"
    and addr_del_err: "nl_addr_del ops l a p s = (Inl e, s') \<Longrightarrow> fib s' = fib s \<and> addrs s' = addrs s"
begin

lemma replace_all_fib:
  assumes "for_each (nl_route_replace ops) rs s = (Inr u, s')"
  shows "fib s' = (fib s) ++ map_of (rev (map (\<lambda>r. (rt_key r, rt_gateway r)) rs))"
  using assms
proof (induction rs arbitrary: s)
  case (Cons r rs)
  then obtain v s1 where 1: "nl_route_replace ops r s = (Inr v, s1)"
    and 2: "for_each (nl_route_replace ops) rs s1 = (Inr u, s')"
    by (auto split: prod.splits sum.splits)
  show ?case using Cons.IH [OF 2] route_replace_ok [OF 1]
    by (simp add: map_add_def fun_eq_iff split: option.splits)
qed simp

lemma del_all_fib:
  assumes "for_each (nl_route_del ops) rs s = (Inr u, s')"
  shows "fib s' = (fib s) |` (- (rt_key ` set rs))"
  using assms
proof (induction rs arbitrary: s)
  case (Cons r rs)
  then obtain v s1 where 1: "nl_route_del ops r s = (Inr v, s1)"
    and 2: "for_each (nl_route_del ops) rs s1 = (Inr u, s')"
    by (auto split: prod.splits sum.splits)
  show ?case using Cons.IH [OF 2] route_del_ok [OF 1]
    by (auto simp: restrict_map_def fun_eq_iff)
qed (simp add: restrict_map_def)

end

section \<open>The in-memory implementation\<close>

record 'n mock_netlink =
  mock_dummy_links :: "string list"
  mock_addrs :: "(string \<times> ip_addr \<times> u8) list"
  mock_routes :: "'n route list"

definition mock_new :: "'n mock_netlink" where
  "mock_new = \<lparr> mock_dummy_links = [], mock_addrs = [], mock_routes = [] \<rparr>"

definition mock_retain :: "'n route \<Rightarrow> 'n route list \<Rightarrow> 'n route list" where
  "mock_retain r rs = filter (\<lambda>e. \<not> (rt_dst e = rt_dst r \<and> rt_table e = rt_table r)) rs"

definition mock_netlink_ops :: "('n mock_netlink, 'n) netlink_ops" where
  "mock_netlink_ops =
     \<lparr> nl_ensure_dummy_link = \<lambda>name s. (Inr (), s \<lparr> mock_dummy_links := List.insert name (mock_dummy_links s) \<rparr>),
       nl_addr_add = \<lambda>l a p s. (Inr (), s \<lparr> mock_addrs := List.insert (l, a, p) (mock_addrs s) \<rparr>),
       nl_addr_del = \<lambda>l a p s. (Inr (), s \<lparr> mock_addrs := removeAll (l, a, p) (mock_addrs s) \<rparr>),
       nl_route_replace = \<lambda>r s. (Inr (), s \<lparr> mock_routes := mock_retain r (mock_routes s) @ [r] \<rparr>),
       nl_route_del = \<lambda>r s. (Inr (), s \<lparr> mock_routes := mock_retain r (mock_routes s) \<rparr>),
       nl_route_list = \<lambda>t s. (Inr (filter (\<lambda>r. rt_table r = t) (mock_routes s)), s) \<rparr>"

definition mock_fib :: "'n mock_netlink \<Rightarrow> 'n \<times> u32 \<rightharpoonup> ip_addr option" where
  "mock_fib s = map_of (map (\<lambda>r. (rt_key r, rt_gateway r)) (mock_routes s))"

lemma map_of_mock_retain:
  "map_of (map (\<lambda>r. (rt_key r, rt_gateway r)) (mock_retain r rs))
     = (map_of (map (\<lambda>r. (rt_key r, rt_gateway r)) rs))(rt_key r := None)"
  by (induction rs) (auto simp: mock_retain_def fun_eq_iff)

interpretation mock: netlink mock_netlink_ops mock_fib "\<lambda>s. set (mock_addrs s)"
  by unfold_locales
     (auto simp: mock_netlink_ops_def mock_fib_def map_of_mock_retain map_add_def fun_eq_iff
        split: option.splits)

section \<open>The \<^verbatim>\<open>ip\<close> command\<close>

definition MAIN_TABLE :: u32 where
  "MAIN_TABLE = 254"

definition route_replace_args :: "'n ipnet_api \<Rightarrow> 'n route \<Rightarrow> string list" where
  "route_replace_args api r =
     [''route'', ''replace'', net_to_string api (rt_dst r)]
     @ (case rt_gateway r of Some gw \<Rightarrow> [''via'', show_addr gw] | None \<Rightarrow> [])
     @ (if rt_table r \<noteq> MAIN_TABLE then [''table'', show_nat (unat (rt_table r))] else [])"

definition route_del_args :: "'n ipnet_api \<Rightarrow> 'n route \<Rightarrow> string list" where
  "route_del_args api r =
     [''route'', ''del'', net_to_string api (rt_dst r)]
     @ (if rt_table r \<noteq> MAIN_TABLE then [''table'', show_nat (unat (rt_table r))] else [])"

definition addr_args :: "string \<Rightarrow> string \<Rightarrow> string \<Rightarrow> u8 \<Rightarrow> string list" where
  "addr_args verb link addr prefix_len =
     [''addr'', verb, addr @ ''/'' @ show_nat (unat prefix_len), ''dev'', link]"

definition str_contains :: "string \<Rightarrow> string \<Rightarrow> bool" where
  "str_contains hay needle =
     list_ex (\<lambda>k. take (length needle) (drop k hay) = needle) [0..<Suc (length hay)]"

type_synonym 's ip_command = "string list \<Rightarrow> ('s, netlink_error, string) eff"

text \<open>An error whose text contains one of the given phrases counts as success.\<close>

definition ignore_errors :: "string list \<Rightarrow> ('s, netlink_error, 'a) eff \<Rightarrow> ('s, netlink_error, unit) eff" where
  "ignore_errors phrases m s =
     (case m s of
        (Inr _, s') \<Rightarrow> (Inr (), s')
      | (Inl e, s') \<Rightarrow>
          (if list_ex (\<lambda>p. str_contains (netlink_error_to_string e) p) phrases then Inr () else Inl e, s'))"

definition system_netlink_ops :: "'n ipnet_api \<Rightarrow> 's ip_command \<Rightarrow> ('s, 'n) netlink_ops" where
  "system_netlink_ops api run_ip =
     \<lparr> nl_ensure_dummy_link = \<lambda>name.
         eff_bind (ignore_errors [''File exists''] (run_ip [''link'', ''add'', name, ''type'', ''dummy'']))
           (\<lambda>_. eff_bind (run_ip [''link'', ''set'', name, ''up'']) (\<lambda>_. eff_ok ())),
       nl_addr_add = \<lambda>l a p.
         ignore_errors [''File exists'', ''already assigned''] (run_ip (addr_args ''add'' l (show_addr a) p)),
       nl_addr_del = \<lambda>l a p. ignore_errors [''Cannot assign''] (run_ip (addr_args ''del'' l (show_addr a) p)),
       nl_route_replace = \<lambda>r. ignore_errors [] (run_ip (route_replace_args api r)),
       nl_route_del = \<lambda>r. ignore_errors [''No such process''] (run_ip (route_del_args api r)),
       nl_route_list = \<lambda>t. eff_ok [] \<rparr>"

section \<open>Retrying\<close>

record retry_config =
  retry_base :: nat
  retry_max :: nat
  retry_attempts :: nat

definition retry_default :: retry_config where
  "retry_default = \<lparr> retry_base = 1, retry_max = 100, retry_attempts = 30 \<rparr>"

text \<open>
  \<open>k\<close> is the number of attempts left after the current one, \<open>delay\<close> the next backoff in milliseconds.
  The result carries the sleeps in order.
\<close>

fun retry_loop ::
  "nat \<Rightarrow> ('e \<Rightarrow> bool) \<Rightarrow> ('s, 'e, 'a) eff \<Rightarrow> nat \<Rightarrow> nat \<Rightarrow> 's \<Rightarrow> ('e + 'a) \<times> nat list \<times> 's" where
  "retry_loop mx retryable op k delay s =
     (case op s of
        (Inr v, s') \<Rightarrow> (Inr v, [], s')
      | (Inl e, s') \<Rightarrow>
          if \<not> retryable e then (Inl e, [], s')
          else (case k of
                  0 \<Rightarrow> (Inl e, [], s')
                | Suc k' \<Rightarrow>
                    (case retry_loop mx retryable op k' (min (delay * 2) mx) s' of
                       (r, sleeps, s'') \<Rightarrow> (r, (if delay \<noteq> 0 then delay # sleeps else sleeps), s''))))"

declare retry_loop.simps [simp del]

definition retry ::
  "retry_config \<Rightarrow> ('e \<Rightarrow> bool) \<Rightarrow> ('s, 'e, 'a) eff \<Rightarrow> 's \<Rightarrow> ('e + 'a) \<times> nat list \<times> 's" where
  "retry cfg retryable op s =
     retry_loop (retry_max cfg) retryable op (max (retry_attempts cfg) 1 - 1) (retry_base cfg) s"

text \<open>The state after \<open>i\<close> runs, and the result of run \<open>i\<close>.\<close>

fun run_state :: "('s, 'e, 'a) eff \<Rightarrow> nat \<Rightarrow> 's \<Rightarrow> 's" where
  "run_state op 0 s = s"
| "run_state op (Suc i) s = run_state op i (snd (op s))"

abbreviation run_result :: "('s, 'e, 'a) eff \<Rightarrow> nat \<Rightarrow> 's \<Rightarrow> 'e + 'a" where
  "run_result op i s \<equiv> fst (op (run_state op i s))"

definition transient :: "('e \<Rightarrow> bool) \<Rightarrow> 'e + 'a \<Rightarrow> bool" where
  "transient retryable r = (case r of Inl e \<Rightarrow> retryable e | Inr _ \<Rightarrow> False)"

lemma retry_loop_spec:
  "\<exists>i \<le> k. fst (retry_loop mx retryable op k delay s) = run_result op i s
     \<and> snd (snd (retry_loop mx retryable op k delay s)) = run_state op (Suc i) s
     \<and> (\<forall>j < i. transient retryable (run_result op j s))
     \<and> (i < k \<longrightarrow> \<not> transient retryable (run_result op i s))
     \<and> length (fst (snd (retry_loop mx retryable op k delay s))) \<le> i
     \<and> (\<forall>d \<in> set (fst (snd (retry_loop mx retryable op k delay s))). d \<le> max delay mx)"
proof (induction k arbitrary: delay s)
  case 0
  show ?case
    by (intro exI [of _ 0]) (auto simp: retry_loop.simps [of mx retryable op 0] split: prod.splits sum.splits)
next
  case (Suc k)
  obtain r s' where op: "op s = (r, s')" by (cases "op s")
  show ?case
  proof (cases "transient retryable r")
    case False
    then show ?thesis using op
      by (intro exI [of _ 0])
         (auto simp: transient_def retry_loop.simps [of mx retryable op "Suc k"] split: sum.splits)
  next
    case True
    then obtain e where e: "r = Inl e" "retryable e" by (auto simp: transient_def split: sum.splits)
    let ?rest = "retry_loop mx retryable op k (min (delay * 2) mx) s'"
    obtain q sl s2 where rest: "?rest = (q, sl, s2)" by (cases ?rest)
    from Suc.IH [of "min (delay * 2) mx" s'] obtain i where i: "i \<le> k" "q = run_result op i s'"
      "s2 = run_state op (Suc i) s'" "\<forall>j < i. transient retryable (run_result op j s')"
      "i < k \<longrightarrow> \<not> transient retryable (run_result op i s')" "length sl \<le> i"
      "\<forall>d \<in> set sl. d \<le> max (min (delay * 2) mx) mx"
      unfolding rest by auto
    have all: "\<forall>j < Suc i. transient retryable (run_result op j s)"
      using i(4) True op by (simp add: All_less_Suc2)
    have loop: "retry_loop mx retryable op (Suc k) delay s
        = (q, (if delay \<noteq> 0 then delay # sl else sl), s2)"
      using op e rest by (simp add: retry_loop.simps [of mx retryable op "Suc k"])
    have "\<forall>d \<in> set sl. d \<le> max delay mx" using i(7) by auto
    then show ?thesis
      unfolding loop using i all op by (intro exI [of _ "Suc i"]) auto
  qed
qed

text \<open>C18: a retried operation returns the result of its first run that succeeds or fails with an
  error that is not transient, or of its last permitted run; it runs at most the configured number of
  times and never sleeps longer than the cap (or the initial delay, when that is larger).\<close>

theorem retry_returns_first_settled_run:
  "\<exists>i < max (retry_attempts cfg) 1.
     fst (retry cfg retryable op s) = run_result op i s
     \<and> snd (snd (retry cfg retryable op s)) = run_state op (Suc i) s
     \<and> (\<forall>j < i. transient retryable (run_result op j s))
     \<and> (i + 1 < max (retry_attempts cfg) 1 \<longrightarrow> \<not> transient retryable (run_result op i s))
     \<and> length (fst (snd (retry cfg retryable op s))) \<le> i
     \<and> (\<forall>d \<in> set (fst (snd (retry cfg retryable op s))). d \<le> max (retry_base cfg) (retry_max cfg))"
proof -
  let ?k = "max (retry_attempts cfg) 1 - 1"
  have k: "(i \<le> ?k) = (i < max (retry_attempts cfg) 1)" "(i < ?k) = (i + 1 < max (retry_attempts cfg) 1)" for i
    by auto
  show ?thesis
    using retry_loop_spec [of ?k "retry_max cfg" retryable op "retry_base cfg" s]
    unfolding retry_def k by blast
qed

theorem retry_returns_first_settled_run_witness:
  "\<exists>i < 3. fst (retry \<lparr> retry_base = 1, retry_max = 2, retry_attempts = 3 \<rparr> (\<lambda>e. e = ''EINTR'')
      (\<lambda>n. (if n < (2::nat) then Inl ''EINTR'' else Inr n, n + 1)) 0)
      = run_result (\<lambda>n. (if n < (2::nat) then Inl ''EINTR'' else Inr n, n + 1)) i 0
    \<and> length (fst (snd (retry \<lparr> retry_base = 1, retry_max = 2, retry_attempts = 3 \<rparr> (\<lambda>e. e = ''EINTR'')
      (\<lambda>n. (if n < (2::nat) then Inl ''EINTR'' else Inr n, n + 1)) 0))) \<le> i"
  using retry_returns_first_settled_run [of "\<lparr> retry_base = 1, retry_max = 2, retry_attempts = 3 \<rparr>"
      "\<lambda>e. e = ''EINTR''" "\<lambda>n. (if n < (2::nat) then Inl ''EINTR'' else Inr n, n + 1)" 0]
  by auto

end
