(* ===== verification/Kr_Bgp.thy ===== *)
theory Kr_Bgp
  imports Kr_AddrText
begin

text \<open>
  The BGP layer, \<^verbatim>\<open>crates/bgp/src\<close>: paths and their builder (\<^verbatim>\<open>path.rs\<close>), the engine trait
  (\<^verbatim>\<open>engine.rs\<close>) as a record of operations with the contract \<open>bgp_engine\<close>, and the gRPC engine
  (\<^verbatim>\<open>grpc.rs\<close>), which translates every call to a message for the gobgp service. The service is a
  parameter; the contract is interpreted on the gRPC engine over a table of peers and paths.
\<close>

section \<open>Paths\<close>

datatype afi = Ip | Ip6

datatype safi = Unicast

datatype 'n attr =
    Origin u8
  | NextHop ip_addr
  | MpReachNlri ip_addr 'n
  | Communities "u32 list"
  | AsPathPrepend u32 u8

record 'n bgp_path =
  path_afi :: afi
  path_safi :: safi
  path_prefix :: 'n
  path_next_hop :: ip_addr
  path_attrs :: "'n attr list"
  path_withdrawal :: bool

record 'n path_builder =
  pb_prefix :: 'n
  pb_next_hop :: ip_addr
  pb_is_withdrawal :: bool
  pb_comms :: "u32 list"
  pb_as_prepend :: "(u32 \<times> u8) option"

definition pb_new :: "'n \<Rightarrow> ip_addr \<Rightarrow> 'n path_builder" where
  "pb_new prefix next_hop =
     \<lparr> pb_prefix = prefix, pb_next_hop = next_hop, pb_is_withdrawal = False, pb_comms = [], pb_as_prepend = None \<rparr>"

definition pb_withdrawal :: "bool \<Rightarrow> 'n path_builder \<Rightarrow> 'n path_builder" where
  "pb_withdrawal w b = b \<lparr> pb_is_withdrawal := w \<rparr>"

definition pb_communities :: "u32 list \<Rightarrow> 'n path_builder \<Rightarrow> 'n path_builder" where
  "pb_communities cs b = b \<lparr> pb_comms := cs \<rparr>"

definition pb_as_path_prepend :: "u32 \<Rightarrow> u8 \<Rightarrow> 'n path_builder \<Rightarrow> 'n path_builder" where
  "pb_as_path_prepend asn repeat b = (if repeat > 0 then b \<lparr> pb_as_prepend := Some (asn, repeat) \<rparr> else b)"

definition pb_build :: "'n ipnet_api \<Rightarrow> 'n path_builder \<Rightarrow> 'n bgp_path" where
  "pb_build api b =
     (let (afi, attrs) =
        (case net_family api (pb_prefix b) of
           V4 \<Rightarrow> (Ip, [Origin 0, NextHop (pb_next_hop b)])
         | V6 \<Rightarrow> (Ip6, [Origin 0, MpReachNlri (pb_next_hop b) (pb_prefix b)]))
      in \<lparr> path_afi = afi, path_safi = Unicast, path_prefix = pb_prefix b, path_next_hop = pb_next_hop b,
           path_attrs = attrs
             @ (if pb_comms b \<noteq> [] then [Communities (pb_comms b)] else [])
             @ (case pb_as_prepend b of Some (asn, repeat) \<Rightarrow> [AsPathPrepend asn repeat] | None \<Rightarrow> []),
           path_withdrawal = pb_is_withdrawal b \<rparr>)"

section \<open>The engine trait\<close>

record global_config =
  gc_asn :: u32
  gc_router_id :: "string option"
  gc_listen_port :: u32
  gc_listen_addresses :: "ip_addr list"

record graceful_restart =
  restart_time_secs :: u32
  deferral_time_secs :: u32

record peer_config =
  pc_neighbor :: ip_addr
  pc_peer_asn :: u32
  pc_is_external :: bool
  pc_rr_client :: bool
  pc_rr_cluster_id :: "string option"
  pc_local_address :: "ip_addr option"
  pc_password :: "string option"
  pc_port :: "u16 option"
  pc_multihop_ttl :: "u8 option"
  pc_graceful_restart :: "graceful_restart option"

datatype bgp_error = Engine string

record ('s, 'n) bgp_ops =
  bgp_start :: "global_config \<Rightarrow> ('s, bgp_error, unit) eff"
  bgp_stop :: "('s, bgp_error, unit) eff"
  bgp_add_peer :: "peer_config \<Rightarrow> ('s, bgp_error, unit) eff"
  bgp_delete_peer :: "ip_addr \<Rightarrow> ('s, bgp_error, unit) eff"
  bgp_add_path :: "'n bgp_path \<Rightarrow> ('s, bgp_error, unit) eff"
  bgp_delete_path :: "'n bgp_path \<Rightarrow> ('s, bgp_error, unit) eff"

text \<open>
  The contract: the engine keeps a table of peers by neighbour address and a table of advertised paths
  by prefix. Adding inserts or updates, deleting removes, a failed call changes nothing.
\<close>

locale bgp_engine =
  fixes ops :: "('s, 'n) bgp_ops"
    and peers :: "'s \<Rightarrow> ip_addr \<rightharpoonup> 'p"
    and rib :: "'s \<Rightarrow> 'n \<rightharpoonup> 'q"
    and peer_of :: "peer_config \<Rightarrow> 'p"
    and path_of :: "'n bgp_path \<Rightarrow> 'q"
  assumes add_peer_ok: "bgp_add_peer ops p s = (Inr u, s') \<Longrightarrow>
        peers s' = (peers s)(pc_neighbor p \<mapsto> peer_of p) \<and> rib s' = rib s"
    and delete_peer_ok: "bgp_delete_peer ops a s = (Inr u, s') \<Longrightarrow>
        peers s' = (peers s)(a := None) \<and> rib s' = rib s"
    and add_path_ok: "bgp_add_path ops q s = (Inr u, s') \<Longrightarrow>
        rib s' = (rib s)(path_prefix q \<mapsto> path_of q) \<and> peers s' = peers s"
    and delete_path_ok: "bgp_delete_path ops q s = (Inr u, s') \<Longrightarrow>
        rib s' = (rib s)(path_prefix q := None) \<and> peers s' = peers s"
    and add_peer_err: "bgp_add_peer ops p s = (Inl e, s') \<Longrightarrow> peers s' = peers s \<and> rib s' = rib s"
    and delete_peer_err: "bgp_delete_peer ops a s = (Inl e, s') \<Longrightarrow> peers s' = peers s \<and> rib s' = rib s"
    and add_path_err: "bgp_add_path ops q s = (Inl e, s') \<Longrightarrow> peers s' = peers s \<and> rib s' = rib s"
    and delete_path_err: "bgp_delete_path ops q s = (Inl e, s') \<Longrightarrow> peers s' = peers s \<and> rib s' = rib s"
begin

lemma add_peers_all:
  assumes "for_each (\<lambda>x. bgp_add_peer ops (f x)) xs s = (Inr u, s')"
  shows "peers s' = (peers s) ++ map_of (rev (map (\<lambda>x. (pc_neighbor (f x), peer_of (f x))) xs)) \<and> rib s' = rib s"
  using assms
proof (induction xs arbitrary: s)
  case (Cons x xs)
  then obtain v s1 where 1: "bgp_add_peer ops (f x) s = (Inr v, s1)"
    and 2: "for_each (\<lambda>x. bgp_add_peer ops (f x)) xs s1 = (Inr u, s')"
    by (auto split: prod.splits sum.splits)
  show ?case using Cons.IH [OF 2] add_peer_ok [OF 1]
    by (auto simp: map_add_def fun_eq_iff split: option.splits)
qed simp

lemma delete_peers_all:
  assumes "for_each (bgp_delete_peer ops) xs s = (Inr u, s')"
  shows "peers s' = (peers s) |` (- set xs) \<and> rib s' = rib s"
  using assms
proof (induction xs arbitrary: s)
  case (Cons x xs)
  then obtain v s1 where 1: "bgp_delete_peer ops x s = (Inr v, s1)"
    and 2: "for_each (bgp_delete_peer ops) xs s1 = (Inr u, s')"
    by (auto split: prod.splits sum.splits)
  show ?case using Cons.IH [OF 2] delete_peer_ok [OF 1]
    by (auto simp: restrict_map_def fun_eq_iff)
qed (simp add: restrict_map_def)

lemma add_paths_all:
  assumes "for_each (\<lambda>x. bgp_add_path ops (f x)) xs s = (Inr u, s')" "\<And>x. path_prefix (f x) = x"
  shows "rib s' = (\<lambda>x. if x \<in> set xs then Some (path_of (f x)) else rib s x) \<and> peers s' = peers s"
  using assms(1)
proof (induction xs arbitrary: s)
  case (Cons x xs)
  then obtain v s1 where 1: "bgp_add_path ops (f x) s = (Inr v, s1)"
    and 2: "for_each (\<lambda>x. bgp_add_path ops (f x)) xs s1 = (Inr u, s')"
    by (auto split: prod.splits sum.splits)
  show ?case using Cons.IH [OF 2] add_path_ok [OF 1] assms(2) by auto
qed auto

lemma delete_paths_all:
  assumes "for_each (\<lambda>x. bgp_delete_path ops (f x)) xs s = (Inr u, s')" "\<And>x. path_prefix (f x) = x"
  shows "rib s' = (rib s) |` (- set xs) \<and> peers s' = peers s"
  using assms(1)
proof (induction xs arbitrary: s)
  case (Cons x xs)
  then obtain v s1 where 1: "bgp_delete_path ops (f x) s = (Inr v, s1)"
    and 2: "for_each (\<lambda>x. bgp_delete_path ops (f x)) xs s1 = (Inr u, s')"
    by (auto split: prod.splits sum.splits)
  show ?case using Cons.IH [OF 2] delete_path_ok [OF 1] assms(2)
    by (auto simp: restrict_map_def fun_eq_iff)
qed (simp add: restrict_map_def)

end

section \<open>Messages of the gobgp service\<close>

record api_family =
  fam_afi :: int
  fam_safi :: int

record api_nlri =
  nlri_prefix_len :: nat
  nlri_prefix :: string

datatype api_attr =
    ApiOrigin nat
  | ApiNextHop string
  | ApiMpReach api_family "string list" "api_nlri list"
  | ApiCommunities "u32 list"
  | ApiAsPath "(int \<times> u32 list) list"

record api_path =
  ap_nlri :: "api_nlri option"
  ap_pattrs :: "api_attr list"
  ap_is_withdraw :: bool
  ap_family :: api_family

record api_peer =
  peer_neighbor_address :: string
  peer_asn_conf :: u32
  peer_auth_password :: string
  peer_local_address :: string
  peer_remote_port :: nat
  peer_multihop_ttl :: "nat option"
  peer_reflector_cluster :: "string option"
  peer_graceful_restart :: "graceful_restart option"
  peer_afi_safis :: "(api_family \<times> bool) list"

definition AFI_IP :: int where "AFI_IP = 1"
definition AFI_IP6 :: int where "AFI_IP6 = 2"
definition SAFI_UNICAST :: int where "SAFI_UNICAST = 1"
definition DEFAULT_BGP_PORT :: nat where "DEFAULT_BGP_PORT = 179"
definition AS_SEQUENCE :: int where "AS_SEQUENCE = 2"

definition api_family_of :: "int \<Rightarrow> api_family" where
  "api_family_of afi = \<lparr> fam_afi = afi, fam_safi = SAFI_UNICAST \<rparr>"

definition prefix_nlri :: "'n ipnet_api \<Rightarrow> 'n bgp_path \<Rightarrow> api_nlri" where
  "prefix_nlri api p =
     \<lparr> nlri_prefix_len = net_prefix_len api (path_prefix p),
       nlri_prefix = show_addr (net_addr api (path_prefix p)) \<rparr>"

text \<open>The extra attributes; others are already covered by the family and are skipped.\<close>

fun api_extra_attr :: "'n attr \<Rightarrow> api_attr list" where
  "api_extra_attr (Communities cs) = (if cs \<noteq> [] then [ApiCommunities cs] else [])"
| "api_extra_attr (AsPathPrepend asn repeat) =
     (if repeat > 0 then [ApiAsPath [(AS_SEQUENCE, replicate (unat repeat) asn)]] else [])"
| "api_extra_attr _ = []"

definition build_path :: "'n ipnet_api \<Rightarrow> 'n bgp_path \<Rightarrow> api_path" where
  "build_path api p =
     (let (afi, pattrs) =
        (case path_afi p of
           Ip \<Rightarrow> (AFI_IP, [ApiOrigin 0, ApiNextHop (show_addr (path_next_hop p))])
         | Ip6 \<Rightarrow> (AFI_IP6, [ApiOrigin 0,
             ApiMpReach (api_family_of AFI_IP6) [show_addr (path_next_hop p)] [prefix_nlri api p]]))
      in \<lparr> ap_nlri = Some (prefix_nlri api p),
           ap_pattrs = pattrs @ concat (map api_extra_attr (path_attrs p)),
           ap_is_withdraw = path_withdrawal p,
           ap_family = api_family_of afi \<rparr>)"

record 'n path_event =
  pe_prefix :: 'n
  pe_next_hop :: ip_addr
  pe_withdrawal :: bool

text \<open>The next hop is the one of the last attribute that carries one; an unreadable one clears it.\<close>

fun attr_next_hop :: "ip_addr option \<Rightarrow> api_attr \<Rightarrow> ip_addr option" where
  "attr_next_hop nh (ApiNextHop t) = parse_addr t"
| "attr_next_hop nh (ApiMpReach _ hops _) = (case hops of [] \<Rightarrow> None | h # _ \<Rightarrow> parse_addr h)"
| "attr_next_hop nh _ = nh"

definition parse_path_event :: "(string \<Rightarrow> 'n option) \<Rightarrow> api_path \<Rightarrow> 'n path_event option" where
  "parse_path_event parse_net p =
     (case ap_nlri p of
        None \<Rightarrow> None
      | Some pfx \<Rightarrow>
          (case parse_net (nlri_prefix pfx @ ''/'' @ show_nat (nlri_prefix_len pfx)) of
             None \<Rightarrow> None
           | Some prefix \<Rightarrow>
               (case foldl attr_next_hop None (ap_pattrs p) of
                  None \<Rightarrow> None
                | Some nh \<Rightarrow> Some \<lparr> pe_prefix = prefix, pe_next_hop = nh, pe_withdrawal = ap_is_withdraw p \<rparr>)))"

definition dual_afi_safis :: "bool \<Rightarrow> (api_family \<times> bool) list" where
  "dual_afi_safis gr = map (\<lambda>afi. (api_family_of afi, gr)) [AFI_IP, AFI_IP6]"

definition api_peer_of :: "peer_config \<Rightarrow> api_peer" where
  "api_peer_of p =
     \<lparr> peer_neighbor_address = show_addr (pc_neighbor p),
       peer_asn_conf = pc_peer_asn p,
       peer_auth_password = (case pc_password p of Some w \<Rightarrow> w | None \<Rightarrow> ''''),
       peer_local_address = (case pc_local_address p of Some a \<Rightarrow> show_addr a | None \<Rightarrow> ''''),
       peer_remote_port = (case pc_port p of Some n \<Rightarrow> unat n | None \<Rightarrow> DEFAULT_BGP_PORT),
       peer_multihop_ttl = map_option unat (pc_multihop_ttl p),
       peer_reflector_cluster =
         (if pc_rr_client p then Some (case pc_rr_cluster_id p of Some c \<Rightarrow> c | None \<Rightarrow> '''') else None),
       peer_graceful_restart = pc_graceful_restart p,
       peer_afi_safis = dual_afi_safis (pc_graceful_restart p \<noteq> None) \<rparr>"

section \<open>The gRPC engine\<close>

record 's gobgp_service =
  gb_start :: "u32 \<Rightarrow> string \<Rightarrow> int \<Rightarrow> string list \<Rightarrow> ('s, string, unit) eff"
  gb_stop :: "bool \<Rightarrow> ('s, string, unit) eff"
  gb_add_peer :: "api_peer \<Rightarrow> ('s, string, unit) eff"
  gb_delete_peer :: "string \<Rightarrow> ('s, string, unit) eff"
  gb_add_path :: "api_path \<Rightarrow> ('s, string, unit) eff"
  gb_delete_path :: "api_family \<Rightarrow> api_path \<Rightarrow> ('s, string, unit) eff"

definition map_err :: "('s, string, unit) eff \<Rightarrow> ('s, bgp_error, unit) eff" where
  "map_err m s = (case m s of (Inl e, s') \<Rightarrow> (Inl (Engine e), s') | (Inr u, s') \<Rightarrow> (Inr u, s'))"

definition grpc_ops :: "'n ipnet_api \<Rightarrow> 's gobgp_service \<Rightarrow> ('s, 'n) bgp_ops" where
  "grpc_ops api svc =
     \<lparr> bgp_start = \<lambda>g. map_err (gb_start svc (gc_asn g) (case gc_router_id g of Some r \<Rightarrow> r | None \<Rightarrow> '''')
         (sint (gc_listen_port g)) (map show_addr (gc_listen_addresses g))),
       bgp_stop = map_err (gb_stop svc False),
       bgp_add_peer = \<lambda>p. map_err (gb_add_peer svc (api_peer_of p)),
       bgp_delete_peer = \<lambda>a. map_err (gb_delete_peer svc (show_addr a)),
       bgp_add_path = \<lambda>p. map_err (gb_add_path svc (build_path api p)),
       bgp_delete_path = \<lambda>p. (let q = (build_path api p) \<lparr> ap_is_withdraw := True \<rparr>
                              in map_err (gb_delete_path svc (ap_family q) q)) \<rparr>"

text \<open>
  A gobgp service as two tables: peers by their address text, paths by their prefix text and length.
  It refuses while it is not started.
\<close>

record gobgp_table =
  gt_started :: bool
  gt_peers :: "string \<rightharpoonup> api_peer"
  gt_paths :: "string \<times> nat \<rightharpoonup> api_path"

definition gt_guard :: "(gobgp_table \<Rightarrow> gobgp_table) \<Rightarrow> (gobgp_table, string, unit) eff" where
  "gt_guard f s = (if gt_started s then (Inr (), f s) else (Inl ''bgp server has not started yet'', s))"

definition nlri_key :: "api_path \<Rightarrow> string \<times> nat" where
  "nlri_key p = (case ap_nlri p of None \<Rightarrow> ('''', 0) | Some n \<Rightarrow> (nlri_prefix n, nlri_prefix_len n))"

definition table_service :: "gobgp_table gobgp_service" where
  "table_service =
     \<lparr> gb_start = \<lambda>asn rid port as s. (Inr (), s \<lparr> gt_started := True \<rparr>),
       gb_stop = \<lambda>gr s. (Inr (), s \<lparr> gt_started := False, gt_peers := Map.empty, gt_paths := Map.empty \<rparr>),
       gb_add_peer = \<lambda>p. gt_guard (\<lambda>s. s \<lparr> gt_peers := (gt_peers s)(peer_neighbor_address p \<mapsto> p) \<rparr>),
       gb_delete_peer = \<lambda>a. gt_guard (\<lambda>s. s \<lparr> gt_peers := (gt_peers s)(a := None) \<rparr>),
       gb_add_path = \<lambda>p. gt_guard (\<lambda>s. s \<lparr> gt_paths := (gt_paths s)(nlri_key p \<mapsto> p) \<rparr>),
       gb_delete_path = \<lambda>f p. gt_guard (\<lambda>s. s \<lparr> gt_paths := (gt_paths s)(nlri_key p := None) \<rparr>) \<rparr>"

definition table_peers :: "gobgp_table \<Rightarrow> ip_addr \<rightharpoonup> api_peer" where
  "table_peers s a = gt_peers s (show_addr a)"

definition table_rib :: "'n ipnet_api \<Rightarrow> gobgp_table \<Rightarrow> 'n \<rightharpoonup> api_path" where
  "table_rib api s n = gt_paths s (show_addr (net_addr api n), net_prefix_len api n)"

lemma nlri_key_build_path:
  "nlri_key ((build_path api p) \<lparr> ap_is_withdraw := w \<rparr>)
     = (show_addr (net_addr api (path_prefix p)), net_prefix_len api (path_prefix p))"
  "nlri_key (build_path api p) = (show_addr (net_addr api (path_prefix p)), net_prefix_len api (path_prefix p))"
  by (simp_all add: nlri_key_def build_path_def prefix_nlri_def split: afi.split)

lemma next_hop_extra: "foldl attr_next_hop nh (concat (map api_extra_attr as)) = nh"
proof (induction as)
  case (Cons a as)
  then show ?case by (cases a) simp_all
qed simp

context ipnet_text
begin

lemma table_rib_update:
  "table_rib api (s \<lparr> gt_paths := (gt_paths s)((show_addr (net_addr api n), net_prefix_len api n) := v) \<rparr>)
     = (table_rib api s)(n := v)"
  by (auto simp: table_rib_def fun_eq_iff show_addr_inj intro: net_eqI)

lemma table_peers_update:
  "table_peers (s \<lparr> gt_peers := (gt_peers s)(show_addr a := v) \<rparr>) = (table_peers s)(a := v)"
  by (auto simp: table_peers_def fun_eq_iff show_addr_inj)

lemma table_frame:
  "table_peers (s \<lparr> gt_paths := p \<rparr>) = table_peers s" "table_rib api (s \<lparr> gt_peers := q \<rparr>) = table_rib api s"
  by (simp_all add: table_peers_def table_rib_def fun_eq_iff)

lemma grpc_engine:
  "bgp_engine (grpc_ops api table_service) table_peers (table_rib api) api_peer_of (build_path api)"
  by unfold_locales
     (auto simp: grpc_ops_def table_service_def map_err_def gt_guard_def Let_def nlri_key_build_path
        table_rib_update table_peers_update table_frame api_peer_of_def
        split: if_splits)

lemma parse_build_path:
  "parse_path_event parse_net (build_path api p)
    = Some \<lparr> pe_prefix = path_prefix p, pe_next_hop = path_next_hop p, pe_withdrawal = path_withdrawal p \<rparr>"
  using parse_to_string [of "path_prefix p"] to_string [of "path_prefix p"]
  by (simp add: parse_path_event_def build_path_def prefix_nlri_def next_hop_extra split: afi.split)

end

interpretation grpc: bgp_engine "grpc_ops cidr_api table_service" table_peers "table_rib cidr_api"
  api_peer_of "build_path cidr_api"
  by (rule cidr_text.grpc_engine)

section \<open>Properties\<close>

text \<open>C17: a path that the gRPC engine sends is read back from its message as the event with the same
  prefix, next hop and withdrawal flag, for both families and whatever communities and prepending it
  carries.\<close>

theorem path_event_round_trip:
  assumes "ipnet_text api parse_net"
  shows "parse_path_event parse_net (build_path api p)
    = Some \<lparr> pe_prefix = path_prefix p, pe_next_hop = path_next_hop p, pe_withdrawal = path_withdrawal p \<rparr>"
  using assms by (rule ipnet_text.parse_build_path)

theorem path_event_round_trip_witness:
  "parse_path_event cidr_parse
     (build_path cidr_api (pb_build cidr_api (pb_communities [65001] (pb_new (Cidr4 0x0A010000 16) (AddrV4 0x0A000001)))))
   = Some \<lparr> pe_prefix = Cidr4 0x0A010000 16, pe_next_hop = AddrV4 0x0A000001, pe_withdrawal = False \<rparr>"
  using path_event_round_trip [OF cidr_text.ipnet_text_axioms,
      of "pb_build cidr_api (pb_communities [65001] (pb_new (Cidr4 0x0A010000 16) (AddrV4 0x0A000001)))"]
  by (simp add: pb_build_def pb_communities_def pb_new_def split: ip_family.splits)

end
