(* ===== verification/Kr_Routing.thy ===== *)
theory Kr_Routing
  imports Kr_Netlink Kr_Bgp
begin

text \<open>
  The routing controller, \<^verbatim>\<open>crates/routing/src\<close>: overlay decisions, iBGP peer derivation and the
  peering reconciler, pod-network routes, injection of learned routes, advertisement of prefixes and of
  service addresses, external peers, BGP policy values, pod-egress rules.
\<close>

section \<open>Overlay (\<^verbatim>\<open>overlay.rs\<close>)\<close>

datatype overlay_type = Subnet | Full

datatype encap = Ipip | Fou

definition CUSTOM_TABLE_ID :: nat where
  "CUSTOM_TABLE_ID = 77"

definition link_type :: "bool \<Rightarrow> string" where
  "link_type ipv6 = (if ipv6 then ''ip6tnl'' else ''ipip'')"

definition fou_add_args :: "u16 \<Rightarrow> string list" where
  "fou_add_args port = [''fou'', ''add'', ''port'', show_nat (unat port), ''gue'']"

definition tunnel_add_args :: "string \<Rightarrow> ip_addr \<Rightarrow> ip_addr \<Rightarrow> encap \<Rightarrow> u16 \<Rightarrow> string list" where
  "tunnel_add_args name next_hop local enc encap_port =
     [''link'', ''add'', ''name'', name, ''type'', link_type (is_ipv6 next_hop),
      ''remote'', show_addr next_hop, ''local'', show_addr local]
     @ (if enc = Fou then
          [''ttl'', ''225'', ''encap'', ''gue'', ''encap-sport'', ''auto'', ''encap-dport'',
           show_nat (unat encap_port), ''mode'', if is_ipv6 next_hop then ''ip6ip6'' else ''ipip'']
        else [])"

definition tunnel_up_args :: "string \<Rightarrow> string list" where
  "tunnel_up_args name = [''link'', ''set'', name, ''up'']"

definition tunnel_route_args :: "ip_addr \<Rightarrow> string \<Rightarrow> string list" where
  "tunnel_route_args next_hop name =
     [''route'', ''replace'', show_addr next_hop @ (if is_ipv6 next_hop then ''/128'' else ''/32''),
      ''dev'', name, ''table'', show_nat CUSTOM_TABLE_ID]"

definition tunnel_name :: "(string \<Rightarrow> string) \<Rightarrow> ip_addr \<Rightarrow> string" where
  "tunnel_name enc next_hop = ''kube-tun-'' @ take 6 (hash16 enc (show_addr next_hop))"

definition needs_tunnel :: "'n ipnet_api \<Rightarrow> ip_addr \<Rightarrow> 'n list \<Rightarrow> overlay_type \<Rightarrow> bool" where
  "needs_tunnel api next_hop local_subnets overlay =
     (case overlay of Full \<Rightarrow> True | Subnet \<Rightarrow> \<not> list_ex (\<lambda>n. net_contains api n next_hop) local_subnets)"

section \<open>Peers (\<^verbatim>\<open>peers.rs\<close>, \<^verbatim>\<open>controller.rs\<close>)\<close>

record node_bgp =
  nb_name :: string
  nb_ip :: ip_addr
  nb_asn :: u32
  nb_rr_server :: "u32 option"
  nb_rr_client :: "u32 option"

record bgp_peer =
  bp_neighbor :: ip_addr
  bp_peer_asn :: u32
  bp_is_external :: bool
  bp_rr_client :: bool
  bp_rr_cluster_id :: "u32 option"

text \<open>One neighbour: whether to peer, the client flag and the cluster id.\<close>

definition peer_with :: "node_bgp \<Rightarrow> bool \<Rightarrow> node_bgp \<Rightarrow> bgp_peer option" where
  "peer_with local full_mesh other =
     (let local_is_rr_server = (nb_rr_server local \<noteq> None);
          local_is_rr_client = (nb_rr_client local \<noteq> None);
          client = (local_is_rr_server \<and> nb_rr_server other = None);
          should_peer =
            (if local_is_rr_server then True
             else if local_is_rr_client then nb_rr_server other \<noteq> None
             else if full_mesh then True
             else nb_asn other = nb_asn local)
      in if should_peer then
           Some \<lparr> bp_neighbor = nb_ip other, bp_peer_asn = nb_asn other, bp_is_external = False,
                  bp_rr_client = client, bp_rr_cluster_id = (if client then nb_rr_server local else None) \<rparr>
         else None)"

definition derive_ibgp_peers :: "node_bgp \<Rightarrow> node_bgp list \<Rightarrow> bool \<Rightarrow> bool \<Rightarrow> bgp_peer list" where
  "derive_ibgp_peers local others full_mesh enable_ibgp =
     (if \<not> enable_ibgp then []
      else List.map_filter (\<lambda>o'. if nb_name o' = nb_name local then None else peer_with local full_mesh o') others)"

definition peer_diff :: "bgp_peer list \<Rightarrow> bgp_peer list \<Rightarrow> bgp_peer list \<times> ip_addr list" where
  "peer_diff current desired =
     (filter (\<lambda>d. d \<notin> set current) desired,
      map bp_neighbor (filter (\<lambda>c. \<not> list_ex (\<lambda>d. bp_neighbor d = bp_neighbor c) desired) current))"

definition to_peer_config :: "graceful_restart option \<Rightarrow> bgp_peer \<Rightarrow> peer_config" where
  "to_peer_config gr p =
     \<lparr> pc_neighbor = bp_neighbor p, pc_peer_asn = bp_peer_asn p, pc_is_external = bp_is_external p,
       pc_rr_client = bp_rr_client p,
       pc_rr_cluster_id = map_option (\<lambda>c. show_nat (unat c)) (bp_rr_cluster_id p),
       pc_local_address = None, pc_password = None, pc_port = None, pc_multihop_ttl = None,
       pc_graceful_restart = gr \<rparr>"

record routes_config =
  rc_local :: node_bgp
  rc_full_mesh :: bool
  rc_enable_ibgp :: bool
  rc_graceful_restart :: "graceful_restart option"

record routes_controller =
  nrc_cfg :: routes_config
  nrc_current_peers :: "bgp_peer list"
  nrc_external_peers :: "peer_config list"
  nrc_external_applied :: bool

definition nrc_new :: "routes_config \<Rightarrow> routes_controller" where
  "nrc_new cfg =
     \<lparr> nrc_cfg = cfg, nrc_current_peers = [], nrc_external_peers = [], nrc_external_applied = False \<rparr>"

definition with_external_peers :: "peer_config list \<Rightarrow> routes_controller \<Rightarrow> routes_controller" where
  "with_external_peers ps c = c \<lparr> nrc_external_peers := ps \<rparr>"

definition apply_external_peers ::
  "('s, 'n) bgp_ops \<Rightarrow> routes_controller \<Rightarrow> 's \<Rightarrow> (bgp_error + nat) \<times> routes_controller \<times> 's" where
  "apply_external_peers ops c s =
     (if nrc_external_applied c then (Inr 0, c, s)
      else case for_each (bgp_add_peer ops) (nrc_external_peers c) s of
             (Inl e, s') \<Rightarrow> (Inl e, c, s')
           | (Inr _, s') \<Rightarrow> (Inr (length (nrc_external_peers c)), c \<lparr> nrc_external_applied := True \<rparr>, s'))"

definition nrc_reconcile ::
  "node_bgp list \<Rightarrow> routes_controller \<Rightarrow> (bgp_peer list \<times> ip_addr list) \<times> routes_controller" where
  "nrc_reconcile nodes c =
     (let desired = derive_ibgp_peers (rc_local (nrc_cfg c)) nodes (rc_full_mesh (nrc_cfg c)) (rc_enable_ibgp (nrc_cfg c))
      in (peer_diff (nrc_current_peers c) desired, c \<lparr> nrc_current_peers := desired \<rparr>))"

definition nrc_reconcile_and_apply ::
  "('s, 'n) bgp_ops \<Rightarrow> node_bgp list \<Rightarrow> routes_controller \<Rightarrow> 's
     \<Rightarrow> (bgp_error + nat \<times> nat) \<times> routes_controller \<times> 's" where
  "nrc_reconcile_and_apply ops nodes c s =
     (case nrc_reconcile nodes c of ((add, remove), c') \<Rightarrow>
        (case for_each (\<lambda>p. bgp_add_peer ops (to_peer_config (rc_graceful_restart (nrc_cfg c')) p)) add s of
           (Inl e, s1) \<Rightarrow> (Inl e, c', s1)
         | (Inr _, s1) \<Rightarrow>
             (case for_each (bgp_delete_peer ops) remove s1 of
                (Inl e, s2) \<Rightarrow> (Inl e, c', s2)
              | (Inr _, s2) \<Rightarrow> (Inr (length add, length remove), c', s2))))"

section \<open>Pod network (\<^verbatim>\<open>podnet.rs\<close>)\<close>

record 'n node_route =
  nr_name :: string
  nr_ip :: ip_addr
  nr_pod_cidrs :: "'n list"

definition desired_pod_routes :: "string \<Rightarrow> 'n node_route list \<Rightarrow> 'n route list" where
  "desired_pod_routes local nodes =
     concat (map (\<lambda>n. if nr_name n = local then []
                      else map (\<lambda>cidr. \<lparr> rt_dst = cidr, rt_gateway = Some (nr_ip n), rt_table = MAIN_TABLE \<rparr>)
                             (nr_pod_cidrs n)) nodes)"

record 'n pod_net =
  pn_local_name :: string
  pn_applied :: "'n route list"

definition podnet_reconcile ::
  "('s, 'n) netlink_ops \<Rightarrow> 'n node_route list \<Rightarrow> 'n pod_net \<Rightarrow> 's
     \<Rightarrow> (netlink_error + nat \<times> nat) \<times> 'n pod_net \<times> 's" where
  "podnet_reconcile ops nodes c s =
     (let desired = desired_pod_routes (pn_local_name c) nodes;
          to_add = filter (\<lambda>r. r \<notin> set (pn_applied c)) desired;
          to_del = filter (\<lambda>r. r \<notin> set desired) (pn_applied c)
      in case for_each (nl_route_replace ops) to_add s of
           (Inl e, s1) \<Rightarrow> (Inl e, c, s1)
         | (Inr _, s1) \<Rightarrow>
             (case for_each (nl_route_del ops) to_del s1 of
                (Inl e, s2) \<Rightarrow> (Inl e, c, s2)
              | (Inr _, s2) \<Rightarrow> (Inr (length to_add, length to_del), c \<lparr> pn_applied := desired \<rparr>, s2)))"

section \<open>Injection of learned routes (\<^verbatim>\<open>inject.rs\<close>)\<close>

record 'n injected_route =
  ir_route :: "'n route"
  ir_via_tunnel :: bool

record 'n route_injector =
  inj_local_subnets :: "'n list"
  inj_overlay :: overlay_type
  inj_table :: u32
  inj_import_reject :: "'n list"
  inj_routes :: "('n \<times> 'n injected_route) list"

definition injector_new :: "'n list \<Rightarrow> overlay_type \<Rightarrow> u32 \<Rightarrow> 'n route_injector" where
  "injector_new subnets overlay table =
     \<lparr> inj_local_subnets = subnets, inj_overlay = overlay, inj_table = table, inj_import_reject = [], inj_routes = [] \<rparr>"

definition with_import_reject :: "'n list \<Rightarrow> 'n route_injector \<Rightarrow> 'n route_injector" where
  "with_import_reject rej i = i \<lparr> inj_import_reject := rej \<rparr>"

definition is_rejected :: "'n ipnet_api \<Rightarrow> 'n route_injector \<Rightarrow> 'n \<Rightarrow> bool" where
  "is_rejected api i prefix =
     list_ex (\<lambda>r. net_contains api r (net_network api prefix)
                  \<and> net_prefix_len api prefix \<ge> net_prefix_len api r) (inj_import_reject i)"

definition route_count :: "'n route_injector \<Rightarrow> nat" where
  "route_count i = length (inj_routes i)"

definition via_tunnel :: "'n route_injector \<Rightarrow> 'n \<Rightarrow> bool option" where
  "via_tunnel i prefix = map_option ir_via_tunnel (map_of (inj_routes i) prefix)"

text \<open>Removing a prefix: the entry leaves the map first, then the kernel route is deleted.\<close>

definition drop_route ::
  "('s, 'n) netlink_ops \<Rightarrow> 'n \<Rightarrow> 'n route_injector \<Rightarrow> 's
     \<Rightarrow> (netlink_error + unit) \<times> 'n route_injector \<times> 's" where
  "drop_route ops prefix i s =
     (case map_of (inj_routes i) prefix of
        None \<Rightarrow> (Inr (), i, s)
      | Some ir \<Rightarrow>
          let i' = i \<lparr> inj_routes := bmap_remove prefix (inj_routes i) \<rparr> in
          (case nl_route_del ops (ir_route ir) s of (r, s') \<Rightarrow> (r, i', s')))"

definition on_event ::
  "'n::linorder ipnet_api \<Rightarrow> ('s, 'n) netlink_ops \<Rightarrow> 'n path_event \<Rightarrow> 'n route_injector \<Rightarrow> 's
     \<Rightarrow> (netlink_error + unit) \<times> 'n route_injector \<times> 's" where
  "on_event api ops ev i s =
     (if pe_withdrawal ev then drop_route ops (pe_prefix ev) i s
      else if is_rejected api i (pe_prefix ev) then drop_route ops (pe_prefix ev) i s
      else
        let tun = needs_tunnel api (pe_next_hop ev) (inj_local_subnets i) (inj_overlay i);
            r = \<lparr> rt_dst = pe_prefix ev, rt_gateway = Some (pe_next_hop ev), rt_table = inj_table i \<rparr>
        in case nl_route_replace ops r s of
             (Inl e, s') \<Rightarrow> (Inl e, i, s')
           | (Inr _, s') \<Rightarrow>
               (Inr (), i \<lparr> inj_routes := bmap_insert (pe_prefix ev) \<lparr> ir_route = r, ir_via_tunnel = tun \<rparr> (inj_routes i) \<rparr>, s'))"

definition injector_sync :: "('s, 'n) netlink_ops \<Rightarrow> 'n route_injector \<Rightarrow> ('s, netlink_error, unit) eff" where
  "injector_sync ops i s = for_each (\<lambda>(_, ir). nl_route_replace ops (ir_route ir)) (inj_routes i) s"

section \<open>Advertisement (\<^verbatim>\<open>advertise.rs\<close>, \<^verbatim>\<open>service_vips.rs\<close>)\<close>

record 'n advertiser =
  adv_advertised :: "'n list"
  adv_communities :: "u32 list"
  adv_as_prepend :: "(u32 \<times> u8) option"

definition advertiser_new :: "'n advertiser" where
  "advertiser_new = \<lparr> adv_advertised = [], adv_communities = [], adv_as_prepend = None \<rparr>"

definition with_attributes :: "u32 list \<Rightarrow> (u32 \<times> u8) option \<Rightarrow> 'n advertiser \<Rightarrow> 'n advertiser" where
  "with_attributes cs pre a = a \<lparr> adv_communities := cs, adv_as_prepend := pre \<rparr>"

definition adv_path :: "'n ipnet_api \<Rightarrow> 'n advertiser \<Rightarrow> ip_addr \<Rightarrow> 'n \<Rightarrow> 'n bgp_path" where
  "adv_path api a next_hop prefix =
     (let b = pb_communities (adv_communities a) (pb_new prefix next_hop)
      in pb_build api (case adv_as_prepend a of
           Some (asn, repeat) \<Rightarrow> pb_as_path_prepend asn repeat b | None \<Rightarrow> b))"

definition withdraw_path :: "'n ipnet_api \<Rightarrow> ip_addr \<Rightarrow> 'n \<Rightarrow> 'n bgp_path" where
  "withdraw_path api next_hop prefix = pb_build api (pb_withdrawal True (pb_new prefix next_hop))"

definition adv_sync ::
  "'n::linorder ipnet_api \<Rightarrow> ('s, 'n) bgp_ops \<Rightarrow> 'n list \<Rightarrow> ip_addr \<Rightarrow> bool \<Rightarrow> 'n advertiser \<Rightarrow> 's
     \<Rightarrow> (bgp_error + nat \<times> nat) \<times> 'n advertiser \<times> 's" where
  "adv_sync api ops desired next_hop enabled a s =
     (let desired_set = (if enabled then btree_set desired else []);
          to_add = filter (\<lambda>p. p \<notin> set (adv_advertised a)) desired_set;
          to_withdraw = filter (\<lambda>p. p \<notin> set desired_set) (adv_advertised a)
      in case for_each (\<lambda>p. bgp_add_path ops (adv_path api a next_hop p)) to_add s of
           (Inl e, s1) \<Rightarrow> (Inl e, a, s1)
         | (Inr _, s1) \<Rightarrow>
             (case for_each (\<lambda>p. bgp_delete_path ops (withdraw_path api next_hop p)) to_withdraw s1 of
                (Inl e, s2) \<Rightarrow> (Inl e, a, s2)
              | (Inr _, s2) \<Rightarrow> (Inr (length to_add, length to_withdraw), a \<lparr> adv_advertised := desired_set \<rparr>, s2)))"

record advertise_defaults =
  ad_cluster :: bool
  ad_external :: bool
  ad_loadbalancer :: bool

record svc_vip =
  sv_cluster_ips :: "ip_addr list"
  sv_external_ips :: "ip_addr list"
  sv_lb_ips :: "ip_addr list"
  sv_internal_traffic_local :: bool
  sv_external_traffic_local :: bool
  sv_has_local_endpoints :: bool
  sv_adv_cluster :: "bool option"
  sv_adv_external :: "bool option"
  sv_adv_lb :: "bool option"
  sv_skip_lb_ips :: bool

definition should_advertise :: "bool \<Rightarrow> bool option \<Rightarrow> bool \<Rightarrow> svc_vip \<Rightarrow> bool" where
  "should_advertise default_on annotation is_cluster_ip svc =
     (if \<not> (case annotation of Some b \<Rightarrow> b | None \<Rightarrow> default_on) then False
      else if is_cluster_ip \<and> sv_internal_traffic_local svc \<and> \<not> sv_has_local_endpoints svc then False
      else if \<not> is_cluster_ip \<and> sv_external_traffic_local svc \<and> \<not> sv_has_local_endpoints svc then False
      else True)"

definition service_vips :: "advertise_defaults \<Rightarrow> svc_vip \<Rightarrow> ip_addr list" where
  "service_vips d svc =
     (if should_advertise (ad_cluster d) (sv_adv_cluster svc) True svc then sv_cluster_ips svc else [])
     @ (if should_advertise (ad_external d) (sv_adv_external svc) False svc then sv_external_ips svc else [])
     @ (if \<not> sv_skip_lb_ips svc \<and> should_advertise (ad_loadbalancer d) (sv_adv_lb svc) False svc
        then sv_lb_ips svc else [])"

definition advertised_service_vips ::
  "'n::linorder ipnet_api \<Rightarrow> svc_vip list \<Rightarrow> advertise_defaults \<Rightarrow> 'n list" where
  "advertised_service_vips api services d =
     btree_set (concat (map (\<lambda>svc. map (net_host api) (service_vips d svc)) services))"

section \<open>External peers (\<^verbatim>\<open>external_peers.rs\<close>)\<close>

datatype peer_parse_error =
    CountMismatch nat nat
  | OptionalCountMismatch string nat nat
  | PeersYaml string

definition list_get :: "'a list \<Rightarrow> nat \<Rightarrow> 'a option" where
  "list_get xs i = (if i < length xs then Some (xs ! i) else None)"

definition opt_filter :: "('a \<Rightarrow> bool) \<Rightarrow> 'a option \<Rightarrow> 'a option" where
  "opt_filter P x = (case x of Some a \<Rightarrow> if P a then Some a else None | None \<Rightarrow> None)"

definition zip_peers ::
  "ip_addr list \<Rightarrow> u32 list \<Rightarrow> u16 list \<Rightarrow> string list \<Rightarrow> u8 option \<Rightarrow> ip_addr option \<Rightarrow> graceful_restart option
     \<Rightarrow> peer_parse_error + peer_config list" where
  "zip_peers ips asns ports passwords ttl local gr =
     (if length ips \<noteq> length asns then Inl (CountMismatch (length ips) (length asns))
      else if ports \<noteq> [] \<and> length ports \<noteq> length ips then
        Inl (OptionalCountMismatch ''ports'' (length ports) (length ips))
      else if passwords \<noteq> [] \<and> length passwords \<noteq> length ips then
        Inl (OptionalCountMismatch ''passwords'' (length passwords) (length ips))
      else Inr (map (\<lambda>i. \<lparr> pc_neighbor = ips ! i, pc_peer_asn = asns ! i, pc_is_external = True,
                          pc_rr_client = False, pc_rr_cluster_id = None, pc_local_address = local,
                          pc_password = opt_filter (\<lambda>p. p \<noteq> []) (list_get passwords i),
                          pc_port = opt_filter (\<lambda>p. p \<noteq> 0) (list_get ports i),
                          pc_multihop_ttl = ttl, pc_graceful_restart = gr \<rparr>) [0..<length ips]))"

section \<open>Pod egress (\<^verbatim>\<open>pod_egress.rs\<close>)\<close>

definition POD_SUBNETS_V4 :: string where "POD_SUBNETS_V4 = ''kube-router-pod-subnets''"
definition NODE_IPS_V4 :: string where "NODE_IPS_V4 = ''kube-router-node-ips''"

fun egress_set_names :: "ip_family \<Rightarrow> string \<times> string" where
  "egress_set_names V4 = (POD_SUBNETS_V4, NODE_IPS_V4)"
| "egress_set_names V6 = (''inet6:'' @ POD_SUBNETS_V4, ''inet6:'' @ NODE_IPS_V4)"

definition ipset_restore_payload :: "'n ipnet_api \<Rightarrow> 'n list \<Rightarrow> ip_addr list \<Rightarrow> ip_family \<Rightarrow> string" where
  "ipset_restore_payload api pod_subnets node_ips family =
     (let (subnets_set, nodes_set) = egress_set_names family;
          fam = (case family of V4 \<Rightarrow> ''inet'' | V6 \<Rightarrow> ''inet6'');
          want_v6 = (family = V6)
      in ''create '' @ subnets_set @ '' hash:net family '' @ fam @ '' -exist'' @ nl @ ''flush '' @ subnets_set @ nl
         @ ''create '' @ nodes_set @ '' hash:ip family '' @ fam @ '' -exist'' @ nl @ ''flush '' @ nodes_set @ nl
         @ concat (map (\<lambda>n. ''add '' @ subnets_set @ '' '' @ net_to_string api n @ nl)
             (filter (\<lambda>n. is_ipv6 (net_addr api n) = want_v6) pod_subnets))
         @ concat (map (\<lambda>i. ''add '' @ nodes_set @ '' '' @ show_addr i @ nl)
             (filter (\<lambda>i. is_ipv6 i = want_v6) node_ips)))"

definition snat_rule :: "ip_family \<Rightarrow> bool \<Rightarrow> string list" where
  "snat_rule family random_fully =
     (let (pod_subnets, node_ips) = egress_set_names family
      in [''-m'', ''set'', ''--match-set'', pod_subnets, ''src'',
          ''-m'', ''set'', ''!'', ''--match-set'', pod_subnets, ''dst'',
          ''-m'', ''set'', ''!'', ''--match-set'', node_ips, ''dst'', ''-j'', ''MASQUERADE'']
         @ (if random_fully then [''--random-fully''] else []))"

section \<open>Pod routes follow the nodes\<close>

lemma desired_table: "r \<in> set (desired_pod_routes local nodes) \<Longrightarrow> rt_table r = MAIN_TABLE"
  by (auto simp: desired_pod_routes_def split: if_splits)

lemma podnet_reconcileE:
  assumes "podnet_reconcile ops nodes c s = (Inr n, c', s')"
  obtains s1 where
    "for_each (nl_route_replace ops)
       (filter (\<lambda>r. r \<notin> set (pn_applied c)) (desired_pod_routes (pn_local_name c) nodes)) s = (Inr (), s1)"
    "for_each (nl_route_del ops)
       (filter (\<lambda>r. r \<notin> set (desired_pod_routes (pn_local_name c) nodes)) (pn_applied c)) s1 = (Inr (), s')"
    "c' = c \<lparr> pn_applied := desired_pod_routes (pn_local_name c) nodes \<rparr>"
  using assms by (auto simp: podnet_reconcile_def Let_def split: prod.splits sum.splits)

lemma map_of_route_keys:
  assumes "distinct (map rt_key rs)" "r \<in> set rs"
  shows "map_of (rev (map (\<lambda>r. (rt_key r, rt_gateway r)) rs)) (rt_key r) = Some (rt_gateway r)"
proof (rule map_of_is_SomeI)
  show "distinct (map fst (rev (map (\<lambda>r. (rt_key r, rt_gateway r)) rs)))"
    using assms(1) by (simp add: comp_def flip: rev_map)
  show "(rt_key r, rt_gateway r) \<in> set (rev (map (\<lambda>r. (rt_key r, rt_gateway r)) rs))"
    using assms(2) by auto
qed

lemma map_of_route_none:
  "k \<notin> rt_key ` set rs \<Longrightarrow> map_of (rev (map (\<lambda>r. (rt_key r, rt_gateway r)) rs)) k = None"
  by (auto simp: map_of_eq_None_iff)

context netlink
begin

lemma podnet_fib:
  assumes "podnet_reconcile ops nodes c s = (Inr n, c', s')"
  defines "desired \<equiv> desired_pod_routes (pn_local_name c) nodes"
  shows "fib s' = (fib s ++ map_of (rev (map (\<lambda>r. (rt_key r, rt_gateway r))
                      (filter (\<lambda>r. r \<notin> set (pn_applied c)) desired))))
             |` (- (rt_key ` (set (pn_applied c) - set desired)))"
    and "pn_applied c' = desired"
proof -
  obtain s1 where 1: "for_each (nl_route_replace ops) (filter (\<lambda>r. r \<notin> set (pn_applied c)) desired) s = (Inr (), s1)"
    and 2: "for_each (nl_route_del ops) (filter (\<lambda>r. r \<notin> set desired) (pn_applied c)) s1 = (Inr (), s')"
    and 3: "c' = c \<lparr> pn_applied := desired \<rparr>"
    using podnet_reconcileE [OF assms(1)] unfolding desired_def by blast
  have "set (filter (\<lambda>r. r \<notin> set desired) (pn_applied c)) = set (pn_applied c) - set desired" by auto
  then show "fib s' = (fib s ++ map_of (rev (map (\<lambda>r. (rt_key r, rt_gateway r))
                      (filter (\<lambda>r. r \<notin> set (pn_applied c)) desired))))
             |` (- (rt_key ` (set (pn_applied c) - set desired)))"
    using replace_all_fib [OF 1] del_all_fib [OF 2] by simp
  show "pn_applied c' = desired" using 3 by simp
qed

lemma podnet_converges:
  assumes run: "podnet_reconcile ops nodes c s = (Inr n, c', s')"
    and sync: "\<forall>r \<in> set (pn_applied c). fib s (rt_key r) = Some (rt_gateway r)"
    and dist: "distinct (map rt_key (desired_pod_routes (pn_local_name c) nodes))"
    and same: "\<forall>r \<in> set (pn_applied c). \<forall>r' \<in> set (desired_pod_routes (pn_local_name c) nodes).
                 rt_key r = rt_key r' \<longrightarrow> r = r'"
  shows "pn_applied c' = desired_pod_routes (pn_local_name c) nodes"
    and "\<forall>r \<in> set (pn_applied c'). fib s' (rt_key r) = Some (rt_gateway r)"
    and "\<forall>k. k \<notin> rt_key ` set (pn_applied c') \<longrightarrow>
           fib s' k = (if k \<in> rt_key ` set (pn_applied c) then None else fib s k)"
proof -
  let ?d = "desired_pod_routes (pn_local_name c) nodes"
  let ?add = "filter (\<lambda>r. r \<notin> set (pn_applied c)) ?d"
  note F = podnet_fib(1) [OF run]
  show d: "pn_applied c' = ?d" by (rule podnet_fib(2) [OF run])
  have dadd: "distinct (map rt_key ?add)" using dist by (rule distinct_map_filter)
  show "\<forall>r \<in> set (pn_applied c'). fib s' (rt_key r) = Some (rt_gateway r)"
  proof
    fix r assume "r \<in> set (pn_applied c')"
    then have r: "r \<in> set ?d" using d by simp
    have keep: "rt_key r \<notin> rt_key ` (set (pn_applied c) - set ?d)"
    proof
      assume "rt_key r \<in> rt_key ` (set (pn_applied c) - set ?d)"
      then obtain ra where ra: "ra \<in> set (pn_applied c)" "ra \<notin> set ?d" "rt_key ra = rt_key r" by force
      then have "ra = r" using same r by blast
      then show False using ra(2) r by simp
    qed
    show "fib s' (rt_key r) = Some (rt_gateway r)"
    proof (cases "r \<in> set (pn_applied c)")
      case False
      then have "map_of (rev (map (\<lambda>r. (rt_key r, rt_gateway r)) ?add)) (rt_key r) = Some (rt_gateway r)"
        using map_of_route_keys [OF dadd] r by simp
      then show ?thesis using F keep by (simp add: restrict_map_def map_add_def)
    next
      case True
      have "rt_key r \<notin> rt_key ` set ?add"
        using True same by force
      then show ?thesis using F keep sync True map_of_route_none [of "rt_key r" ?add]
        by (simp add: restrict_map_def map_add_def)
    qed
  qed
  show "\<forall>k. k \<notin> rt_key ` set (pn_applied c') \<longrightarrow>
           fib s' k = (if k \<in> rt_key ` set (pn_applied c) then None else fib s k)"
  proof (intro allI impI)
    fix k assume k: "k \<notin> rt_key ` set (pn_applied c')"
    then have "map_of (rev (map (\<lambda>r. (rt_key r, rt_gateway r)) ?add)) k = None"
      using d by (intro map_of_route_none) auto
    moreover have "k \<in> rt_key ` (set (pn_applied c) - set ?d) \<longleftrightarrow> k \<in> rt_key ` set (pn_applied c)"
      using k d by auto
    ultimately show "fib s' k = (if k \<in> rt_key ` set (pn_applied c) then None else fib s k)"
      using F by (simp add: restrict_map_def map_add_def)
  qed
qed

lemma podnet_stale_gateway:
  assumes run: "podnet_reconcile ops nodes c s = (Inr n, c', s')"
    and "r \<in> set (pn_applied c)" "r' \<in> set (desired_pod_routes (pn_local_name c) nodes)"
    and "rt_key r = rt_key r'" "r \<notin> set (desired_pod_routes (pn_local_name c) nodes)"
  shows "r' \<in> set (pn_applied c') \<and> fib s' (rt_key r') = None"
proof -
  have "rt_key r' \<in> rt_key ` (set (pn_applied c) - set (desired_pod_routes (pn_local_name c) nodes))"
    using assms(2,4,5) by (intro image_eqI [of _ _ r]) simp_all
  then show ?thesis using podnet_fib [OF run] assms(3) by (simp add: restrict_map_def)
qed

end

lemma podnet_idle:
  assumes "pn_applied c = desired_pod_routes (pn_local_name c) nodes"
  shows "podnet_reconcile ops nodes c s = (Inr (0, 0), c, s)"
  using assms by (simp add: podnet_reconcile_def Let_def filter_empty_conv)


definition demo_node :: "string \<Rightarrow> u32 \<Rightarrow> u32 \<Rightarrow> cidr node_route" where
  "demo_node name ip net = \<lparr> nr_name = name, nr_ip = AddrV4 ip, nr_pod_cidrs = [Cidr4 net 24] \<rparr>"

definition demo_podnet :: "cidr pod_net" where
  "demo_podnet = \<lparr> pn_local_name = ''n1'', pn_applied = [] \<rparr>"


text \<open>when a node keeps its pod CIDR but changes its address, the pass that notices it installs the
  new route and then deletes it again, because deletion goes by destination and table: the kernel is
  left without a route while the controller records it as applied, and no later pass over the same
  nodes repairs it, whatever the kernel state.\<close>

theorem podnet_gateway_change_loses_route:
  assumes "netlink ops fib addrs"
    and "podnet_reconcile ops nodes c s = (Inr n, c', s')"
    and "r \<in> set (pn_applied c)" "r' \<in> set (desired_pod_routes (pn_local_name c) nodes)"
    and "rt_key r = rt_key r'" "r \<notin> set (desired_pod_routes (pn_local_name c) nodes)"
  shows "r' \<in> set (pn_applied c') \<and> fib s' (rt_key r') = None
    \<and> podnet_reconcile ops nodes c' t = (Inr (0, 0), c', t)"
proof -
  obtain s1 where c': "c' = c \<lparr> pn_applied := desired_pod_routes (pn_local_name c) nodes \<rparr>"
    using podnet_reconcileE [OF assms(2)] by blast
  have "podnet_reconcile ops nodes c' t = (Inr (0, 0), c', t)"
    by (rule podnet_idle) (simp add: c')
  then show ?thesis using netlink.podnet_stale_gateway [OF assms] by blast
qed

theorem podnet_gateway_change_loses_route_witness:
  "\<exists>c' s'. podnet_reconcile mock_netlink_ops [demo_node ''n2'' 3 512]
       \<lparr> pn_local_name = ''n1'', pn_applied = desired_pod_routes ''n1'' [demo_node ''n2'' 2 512] \<rparr> mock_new
       = (Inr (1, 1), c', s')
     \<and> mock_fib s' (Cidr4 512 24, MAIN_TABLE) = None"
proof -
  let ?c = "\<lparr> pn_local_name = ''n1'', pn_applied = desired_pod_routes ''n1'' [demo_node ''n2'' 2 512] \<rparr>"
  obtain c' s' where run: "podnet_reconcile mock_netlink_ops [demo_node ''n2'' 3 512] ?c mock_new = (Inr (1, 1), c', s')"
    by (auto simp: podnet_reconcile_def desired_pod_routes_def demo_node_def mock_netlink_ops_def Let_def)
  have "mock_fib s' (rt_key \<lparr> rt_dst = Cidr4 512 24, rt_gateway = Some (AddrV4 3), rt_table = MAIN_TABLE \<rparr>) = None"
    using podnet_gateway_change_loses_route [OF mock.netlink_axioms run,
        of "\<lparr> rt_dst = Cidr4 512 24, rt_gateway = Some (AddrV4 2), rt_table = MAIN_TABLE \<rparr>"
           "\<lparr> rt_dst = Cidr4 512 24, rt_gateway = Some (AddrV4 3), rt_table = MAIN_TABLE \<rparr>"]
    by (simp add: desired_pod_routes_def demo_node_def)
  then show ?thesis using run by auto
qed

end
