(* ===== verification/Kr_RoutingSync.thy ===== *)
theory Kr_RoutingSync
  imports Kr_Routing
begin

text \<open>
  What the reconcilers of the routing controller achieve: learned routes and the kernel table, iBGP
  peering against the engine, the advertised prefixes. Each result holds for every implementation of
  the netlink and engine contracts.
\<close>

section \<open>Learned routes\<close>

text \<open>The abstract routing table: what the sequence of best-path events means.\<close>

definition rib_step :: "('n \<Rightarrow> bool) \<Rightarrow> ('n \<rightharpoonup> ip_addr) \<Rightarrow> 'n path_event \<Rightarrow> 'n \<rightharpoonup> ip_addr" where
  "rib_step rejected m ev =
     (if pe_withdrawal ev \<or> rejected (pe_prefix ev) then m(pe_prefix ev := None)
      else m(pe_prefix ev \<mapsto> pe_next_hop ev))"

definition inj_view :: "'n route_injector \<Rightarrow> 'n \<rightharpoonup> ip_addr" where
  "inj_view i p = Option.bind (map_of (inj_routes i) p) (\<lambda>ir. rt_gateway (ir_route ir))"

definition inj_ok :: "'n::linorder route_injector \<Rightarrow> bool" where
  "inj_ok i \<longleftrightarrow> bmap_ok (inj_routes i)
     \<and> (\<forall>(p, ir) \<in> set (inj_routes i). rt_key (ir_route ir) = (p, inj_table i) \<and> rt_gateway (ir_route ir) \<noteq> None)"

text \<open>The kernel's table of the injector is exactly its view.\<close>

definition table_matches :: "('n \<times> u32 \<rightharpoonup> ip_addr option) \<Rightarrow> 'n route_injector \<Rightarrow> bool" where
  "table_matches f i \<longleftrightarrow> (\<forall>p. f (p, inj_table i) = map_option Some (inj_view i p))"

lemma inj_ok_lookup:
  assumes "inj_ok i" "map_of (inj_routes i) p = Some ir"
  shows "rt_key (ir_route ir) = (p, inj_table i) \<and> (\<exists>nh. rt_gateway (ir_route ir) = Some nh)"
  using assms by (auto simp: inj_ok_def dest!: map_of_SomeD)

lemma is_rejected_inj_routes [simp]: "is_rejected api (i \<lparr> inj_routes := m \<rparr>) = is_rejected api i"
  by (simp add: is_rejected_def fun_eq_iff)

lemma inj_ok_remove: "inj_ok i \<Longrightarrow> inj_ok (i \<lparr> inj_routes := bmap_remove p (inj_routes i) \<rparr>)"
  using bmap_ok_remove [of "inj_routes i" p] by (auto simp: inj_ok_def bmap_remove_def)

lemma set_bmap_insert: "set (bmap_insert k v m) \<subseteq> insert (k, v) (set m)"
  by (induction k v m rule: bmap_insert.induct) auto

lemma inj_ok_insert:
  assumes "inj_ok i" "rt_key (ir_route ir) = (p, inj_table i)" "rt_gateway (ir_route ir) \<noteq> None"
  shows "inj_ok (i \<lparr> inj_routes := bmap_insert p ir (inj_routes i) \<rparr>)"
  using assms set_bmap_insert [of p ir "inj_routes i"] by (auto simp: inj_ok_def bmap_ok_insert)

lemma inj_view_remove: "inj_view (i \<lparr> inj_routes := bmap_remove p (inj_routes i) \<rparr>) = (inj_view i)(p := None)"
  by (auto simp: inj_view_def fun_eq_iff map_of_bmap_remove)

lemma inj_view_insert:
  "rt_gateway (ir_route ir) = Some nh \<Longrightarrow>
     inj_view (i \<lparr> inj_routes := bmap_insert p ir (inj_routes i) \<rparr>) = (inj_view i)(p \<mapsto> nh)"
  by (auto simp: inj_view_def fun_eq_iff map_of_bmap_insert)

lemma inj_view_absent: "map_of (inj_routes i) p = None \<Longrightarrow> (inj_view i)(p := None) = inj_view i"
  by (auto simp: inj_view_def fun_eq_iff)

text \<open>The netlink contract for an ordered type of prefixes, as the map of the injector needs it.\<close>

locale netlink_ordered = netlink ops fib addrs
  for ops :: "('s, 'n::linorder) netlink_ops"
    and fib :: "'s \<Rightarrow> 'n \<times> u32 \<rightharpoonup> ip_addr option"
    and addrs :: "'s \<Rightarrow> (string \<times> ip_addr \<times> u8) set"
begin

lemma drop_route_ok:
  assumes "drop_route ops p i s = (Inr u, i', s')" "inj_ok i" "table_matches (fib s) i"
  shows "inj_ok i' \<and> inj_table i' = inj_table i \<and> is_rejected api i' = is_rejected api i
    \<and> inj_view i' = (inj_view i)(p := None) \<and> table_matches (fib s') i'
    \<and> (\<forall>k. snd k \<noteq> inj_table i \<longrightarrow> fib s' k = fib s k)"
proof (cases "map_of (inj_routes i) p")
  case None
  then show ?thesis using assms by (auto simp: drop_route_def inj_view_absent)
next
  case (Some ir)
  let ?i = "i \<lparr> inj_routes := bmap_remove p (inj_routes i) \<rparr>"
  have del: "nl_route_del ops (ir_route ir) s = (Inr u, s')" and i': "i' = ?i"
    using assms(1) Some by (auto simp: drop_route_def Let_def split: prod.splits)
  have key: "rt_key (ir_route ir) = (p, inj_table i)" using inj_ok_lookup [OF assms(2) Some] by blast
  have fib': "fib s' = (fib s)((p, inj_table i) := None)" using route_del_ok [OF del] key by simp
  have "table_matches (fib s') ?i"
    using assms(3) by (auto simp: table_matches_def inj_view_remove fib')
  then show ?thesis using inj_ok_remove [OF assms(2)] i' inj_view_remove [of p i] fib' by auto
qed

lemma on_event_ok:
  assumes "on_event api ops ev i s = (Inr u, i', s')" "inj_ok i" "table_matches (fib s) i"
  shows "inj_ok i' \<and> inj_table i' = inj_table i \<and> is_rejected api i' = is_rejected api i
    \<and> inj_view i' = rib_step (is_rejected api i) (inj_view i) ev \<and> table_matches (fib s') i'
    \<and> (\<forall>k. snd k \<noteq> inj_table i \<longrightarrow> fib s' k = fib s k)"
proof (cases "pe_withdrawal ev \<or> is_rejected api i (pe_prefix ev)")
  case True
  then have "drop_route ops (pe_prefix ev) i s = (Inr u, i', s')"
    using assms(1) by (auto simp: on_event_def split: if_splits)
  from drop_route_ok [OF this assms(2,3), of api] show ?thesis using True by (auto simp: rib_step_def)
next
  case False
  let ?r = "\<lparr> rt_dst = pe_prefix ev, rt_gateway = Some (pe_next_hop ev), rt_table = inj_table i \<rparr>"
  let ?ir = "\<lparr> ir_route = ?r, ir_via_tunnel = needs_tunnel api (pe_next_hop ev) (inj_local_subnets i) (inj_overlay i) \<rparr>"
  let ?i = "i \<lparr> inj_routes := bmap_insert (pe_prefix ev) ?ir (inj_routes i) \<rparr>"
  obtain v where rep: "nl_route_replace ops ?r s = (Inr v, s')" and i': "i' = ?i"
    using assms(1) False by (auto simp: on_event_def Let_def split: prod.splits sum.splits)
  have fib': "fib s' = (fib s)((pe_prefix ev, inj_table i) \<mapsto> Some (pe_next_hop ev))"
    using route_replace_ok [OF rep] by simp
  have view: "inj_view ?i = (inj_view i)(pe_prefix ev \<mapsto> pe_next_hop ev)"
    by (rule inj_view_insert) simp
  have "table_matches (fib s') ?i"
    using assms(3) by (auto simp: table_matches_def view fib')
  moreover have "inj_ok ?i" by (rule inj_ok_insert [OF assms(2)]) simp_all
  ultimately show ?thesis using i' view False fib' by (auto simp: rib_step_def)
qed

end

text \<open>Processing a list of events, stopping at the first error.\<close>

fun run_events ::
  "'n::linorder ipnet_api \<Rightarrow> ('s, 'n) netlink_ops \<Rightarrow> 'n path_event list \<Rightarrow> 'n route_injector \<Rightarrow> 's
     \<Rightarrow> (netlink_error + unit) \<times> 'n route_injector \<times> 's" where
  "run_events api ops [] i s = (Inr (), i, s)"
| "run_events api ops (ev # evs) i s =
     (case on_event api ops ev i s of
        (Inl e, i', s') \<Rightarrow> (Inl e, i', s')
      | (Inr _, i', s') \<Rightarrow> run_events api ops evs i' s')"

lemma map_of_dom_matches: "table_matches f (injector_new sub ov t) \<longleftrightarrow> (\<forall>p. f (p, t) = None)"
  by (simp add: table_matches_def injector_new_def inj_view_def)

interpretation mock_ordered: netlink_ordered mock_netlink_ops mock_fib "\<lambda>s. set (mock_addrs s)"
  by unfold_locales

context netlink_ordered
begin

lemma run_events_ok:
  assumes "run_events api ops evs i s = (Inr u, i', s')" "inj_ok i" "table_matches (fib s) i"
  shows "inj_ok i' \<and> inj_view i' = foldl (rib_step (is_rejected api i)) (inj_view i) evs
    \<and> table_matches (fib s') i' \<and> inj_table i' = inj_table i
    \<and> (\<forall>k. snd k \<noteq> inj_table i \<longrightarrow> fib s' k = fib s k)"
  using assms
proof (induction evs arbitrary: i s)
  case (Cons ev evs)
  then obtain v i1 s1 where 1: "on_event api ops ev i s = (Inr v, i1, s1)"
    and 2: "run_events api ops evs i1 s1 = (Inr u, i', s')"
    by (auto split: prod.splits sum.splits)
  from on_event_ok [OF 1 Cons.prems(2,3)] Cons.IH [OF 2] show ?case by auto
qed auto

text \<open>A failed replacement leaves injector and kernel as they were.\<close>

lemma on_event_replace_err:
  assumes "on_event api ops ev i s = (Inl e, i', s')" "\<not> pe_withdrawal ev" "\<not> is_rejected api i (pe_prefix ev)"
  shows "i' = i \<and> fib s' = fib s"
  using assms route_replace_err by (auto simp: on_event_def Let_def split: prod.splits sum.splits)

lemma failed_withdrawal:
  assumes "on_event api ops ev i s = (Inl e, i', s')" "pe_withdrawal ev" "inj_ok i" "table_matches (fib s) i"
  shows "\<exists>nh. fib s' (pe_prefix ev, inj_table i) = Some (Some nh) \<and> inj_view i' (pe_prefix ev) = None
     \<and> on_event api ops ev i' t = (Inr (), i', t)"
proof -
  have d: "drop_route ops (pe_prefix ev) i s = (Inl e, i', s')"
    using assms(1,2) by (simp add: on_event_def)
  then obtain ir where ir: "map_of (inj_routes i) (pe_prefix ev) = Some ir"
    and del: "nl_route_del ops (ir_route ir) s = (Inl e, s')"
    and i': "i' = i \<lparr> inj_routes := bmap_remove (pe_prefix ev) (inj_routes i) \<rparr>"
    by (auto simp: drop_route_def Let_def split: option.splits prod.splits)
  obtain nh where nh: "rt_gateway (ir_route ir) = Some nh" using inj_ok_lookup [OF assms(3) ir] by blast
  have "fib s' (pe_prefix ev, inj_table i) = Some (Some nh)"
    using route_del_err [OF del] assms(4) ir nh by (simp add: table_matches_def inj_view_def)
  moreover have "map_of (inj_routes i') (pe_prefix ev) = None" by (simp add: i' map_of_bmap_remove)
  ultimately show ?thesis using assms(2) by (simp add: inj_view_def on_event_def drop_route_def)
qed

end

lemma injector_new_ok: "inj_ok (with_import_reject rej (injector_new sub ov t))"
  by (simp add: inj_ok_def injector_new_def with_import_reject_def bmap_ok_def)


definition demo_event :: "u32 \<Rightarrow> u32 \<Rightarrow> bool \<Rightarrow> cidr path_event" where
  "demo_event net nh w = \<lparr> pe_prefix = Cidr4 net 24, pe_next_hop = AddrV4 nh, pe_withdrawal = w \<rparr>"


text \<open>a withdrawal whose kernel deletion fails is forgotten: the stale route stays in the kernel,
  the injector no longer knows it, and the same withdrawal processed again does nothing.\<close>

theorem failed_withdrawal_leaks_route:
  fixes ops :: "('s, 'n::linorder) netlink_ops"
  assumes "netlink_ordered ops fib addrs"
    and "on_event api ops ev i s = (Inl e, i', s')" "pe_withdrawal ev" "inj_ok i" "table_matches (fib s) i"
  shows "\<exists>nh. fib s' (pe_prefix ev, inj_table i) = Some (Some nh) \<and> inj_view i' (pe_prefix ev) = None
     \<and> on_event api ops ev i' t = (Inr (), i', t)"
  using assms by (rule netlink_ordered.failed_withdrawal)

text \<open>A kernel that refuses every route deletion still keeps the contract.\<close>

definition busy_netlink_ops :: "('n mock_netlink, 'n) netlink_ops" where
  "busy_netlink_ops = mock_netlink_ops \<lparr> nl_route_del := \<lambda>r s. (Inl (NlOp ''device busy''), s) \<rparr>"

interpretation busy: netlink_ordered busy_netlink_ops mock_fib "\<lambda>s. set (mock_addrs s)"
  by unfold_locales
     (auto simp: busy_netlink_ops_def mock_netlink_ops_def mock_fib_def map_of_mock_retain map_add_def
        fun_eq_iff split: option.splits)

definition demo_injector :: "cidr route_injector" where
  "demo_injector = (injector_new [] Full 77)
     \<lparr> inj_routes := [(Cidr4 256 24, \<lparr> ir_route = \<lparr> rt_dst = Cidr4 256 24, rt_gateway = Some (AddrV4 7), rt_table = 77 \<rparr>,
                                       ir_via_tunnel = True \<rparr>)] \<rparr>"

definition demo_kernel :: "cidr mock_netlink" where
  "demo_kernel = mock_new
     \<lparr> mock_routes := [\<lparr> rt_dst = Cidr4 256 24, rt_gateway = Some (AddrV4 7), rt_table = 77 \<rparr>] \<rparr>"

theorem failed_withdrawal_leaks_route_witness:
  "\<exists>e i' s' nh. on_event cidr_api busy_netlink_ops (demo_event 256 7 True) demo_injector demo_kernel = (Inl e, i', s')
     \<and> mock_fib s' (Cidr4 256 24, 77) = Some (Some nh) \<and> inj_view i' (Cidr4 256 24) = None"
proof -
  obtain e i' s' where run: "on_event cidr_api busy_netlink_ops (demo_event 256 7 True) demo_injector demo_kernel = (Inl e, i', s')"
    by (auto simp: on_event_def drop_route_def demo_event_def demo_injector_def injector_new_def busy_netlink_ops_def)
  have "inj_ok demo_injector" "table_matches (mock_fib demo_kernel) demo_injector" "pe_withdrawal (demo_event 256 7 True)"
    by (auto simp: inj_ok_def demo_injector_def injector_new_def bmap_ok_def table_matches_def mock_fib_def
        demo_kernel_def inj_view_def demo_event_def)
  from failed_withdrawal_leaks_route [OF busy.netlink_ordered_axioms run this(3,1,2)]
  have "\<exists>nh. mock_fib s' (Cidr4 256 24, 77) = Some (Some nh) \<and> inj_view i' (Cidr4 256 24) = None"
    by (simp add: demo_event_def demo_injector_def injector_new_def)
  then show ?thesis using run by blast
qed

section \<open>Peering\<close>

lemma nrc_current: "nrc_reconcile nodes c = ((add, remove), c') \<Longrightarrow>
   c' = c \<lparr> nrc_current_peers := derive_ibgp_peers (rc_local (nrc_cfg c)) nodes (rc_full_mesh (nrc_cfg c)) (rc_enable_ibgp (nrc_cfg c)) \<rparr>
   \<and> (add, remove) = peer_diff (nrc_current_peers c) (nrc_current_peers c')"
  by (auto simp: nrc_reconcile_def Let_def)

lemma peer_diff_same: "peer_diff ps ps = ([], [])"
  by (auto simp: peer_diff_def filter_empty_conv list_ex_iff)

lemma map_of_peers:
  assumes "distinct (map g xs)" "x \<in> set xs"
  shows "map_of (rev (map (\<lambda>x. (g x, h x)) xs)) (g x) = Some (h x)"
proof (rule map_of_is_SomeI)
  show "distinct (map fst (rev (map (\<lambda>x. (g x, h x)) xs)))"
    using assms(1) by (simp add: comp_def flip: rev_map)
  show "(g x, h x) \<in> set (rev (map (\<lambda>x. (g x, h x)) xs))" using assms(2) by auto
qed

context bgp_engine
begin

lemma nrc_apply_converges:
  assumes run: "nrc_reconcile_and_apply ops nodes c s = (Inr n, c', s')"
    and sync: "\<forall>p \<in> set (nrc_current_peers c).
        peers s (bp_neighbor p) = Some (peer_of (to_peer_config (rc_graceful_restart (nrc_cfg c)) p))"
    and dist: "distinct (map bp_neighbor (nrc_current_peers c'))"
  shows "\<forall>p \<in> set (nrc_current_peers c').
        peers s' (bp_neighbor p) = Some (peer_of (to_peer_config (rc_graceful_restart (nrc_cfg c')) p))"
    and "\<forall>a. a \<notin> bp_neighbor ` set (nrc_current_peers c') \<longrightarrow>
        peers s' a = (if a \<in> bp_neighbor ` set (nrc_current_peers c) then None else peers s a)"
proof -
  let ?gr = "rc_graceful_restart (nrc_cfg c)"
  obtain add remove s1 where rec: "nrc_reconcile nodes c = ((add, remove), c')"
    and a: "for_each (\<lambda>p. bgp_add_peer ops (to_peer_config (rc_graceful_restart (nrc_cfg c')) p)) add s = (Inr (), s1)"
    and d: "for_each (bgp_delete_peer ops) remove s1 = (Inr (), s')"
    using run by (auto simp: nrc_reconcile_and_apply_def split: prod.splits sum.splits)
  have c': "nrc_cfg c' = nrc_cfg c" and diff: "(add, remove) = peer_diff (nrc_current_peers c) (nrc_current_peers c')"
    using nrc_current [OF rec] by auto
  let ?m = "map_of (rev (map (\<lambda>p. (bp_neighbor p, peer_of (to_peer_config ?gr p))) add))"
  have nb: "pc_neighbor (to_peer_config gr p) = bp_neighbor p" for gr p by (simp add: to_peer_config_def)
  have peers': "peers s' = (peers s ++ ?m) |` (- set remove)"
    using add_peers_all [OF a] delete_peers_all [OF d] c' by (simp add: nb)
  have add: "set add = set (nrc_current_peers c') - set (nrc_current_peers c)" "distinct (map bp_neighbor add)"
    using diff dist by (auto simp: peer_diff_def intro: distinct_map_filter)
  have rem: "set remove = bp_neighbor ` set (nrc_current_peers c) - bp_neighbor ` set (nrc_current_peers c')"
    using diff by (fastforce simp: peer_diff_def list_ex_iff image_iff)
  show "\<forall>p \<in> set (nrc_current_peers c').
        peers s' (bp_neighbor p) = Some (peer_of (to_peer_config (rc_graceful_restart (nrc_cfg c')) p))"
  proof
    fix p assume p: "p \<in> set (nrc_current_peers c')"
    have keep: "bp_neighbor p \<notin> set remove" using p rem by auto
    show "peers s' (bp_neighbor p) = Some (peer_of (to_peer_config (rc_graceful_restart (nrc_cfg c')) p))"
    proof (cases "p \<in> set add")
      case True
      then have "?m (bp_neighbor p) = Some (peer_of (to_peer_config ?gr p))"
        by (rule map_of_peers [OF add(2)])
      then show ?thesis using peers' keep c' by (simp add: restrict_map_def map_add_def)
    next
      case False
      then have "p \<in> set (nrc_current_peers c)" using p add(1) by simp
      moreover have "bp_neighbor p \<notin> bp_neighbor ` set add"
        using False p add(1) dist by (auto simp: distinct_map inj_on_def)
      then have "?m (bp_neighbor p) = None" by (auto simp: map_of_eq_None_iff)
      ultimately show ?thesis using peers' keep c' sync by (simp add: restrict_map_def map_add_def)
    qed
  qed
  show "\<forall>a. a \<notin> bp_neighbor ` set (nrc_current_peers c') \<longrightarrow>
        peers s' a = (if a \<in> bp_neighbor ` set (nrc_current_peers c) then None else peers s a)"
  proof (intro allI impI)
    fix a assume a: "a \<notin> bp_neighbor ` set (nrc_current_peers c')"
    then have "?m a = None" using add(1) by (auto simp: map_of_eq_None_iff)
    then show "peers s' a = (if a \<in> bp_neighbor ` set (nrc_current_peers c) then None else peers s a)"
      using peers' rem a by (simp add: restrict_map_def map_add_def)
  qed
qed

end


definition demo_bgp_node :: "string \<Rightarrow> u32 \<Rightarrow> node_bgp" where
  "demo_bgp_node name ip = \<lparr> nb_name = name, nb_ip = AddrV4 ip, nb_asn = 64512, nb_rr_server = None, nb_rr_client = None \<rparr>"

definition demo_nrc :: routes_controller where
  "demo_nrc = nrc_new \<lparr> rc_local = demo_bgp_node ''n1'' 1, rc_full_mesh = True, rc_enable_ibgp = True,
                        rc_graceful_restart = None \<rparr>"

definition demo_gobgp :: gobgp_table where
  "demo_gobgp = \<lparr> gt_started = True, gt_peers = Map.empty, gt_paths = Map.empty \<rparr>"


text \<open>a peering pass that fails is not repeated: the controller has already recorded the derived
  peers, so a later pass over the same nodes reports that nothing is to do, whatever the engine
  holds.\<close>

theorem failed_peering_is_not_retried:
  assumes "nrc_reconcile_and_apply ops nodes c s = (Inl e, c', s')"
  shows "nrc_reconcile_and_apply ops' nodes c' t = (Inr (0, 0), c', t)"
proof -
  obtain add remove where "nrc_reconcile nodes c = ((add, remove), c')"
    using assms by (auto simp: nrc_reconcile_and_apply_def split: prod.splits sum.splits)
  then have c': "c' = c \<lparr> nrc_current_peers := derive_ibgp_peers (rc_local (nrc_cfg c)) nodes (rc_full_mesh (nrc_cfg c)) (rc_enable_ibgp (nrc_cfg c)) \<rparr>"
    using nrc_current by blast
  then have "nrc_reconcile nodes c' = (([], []), c')"
    by (simp add: nrc_reconcile_def peer_diff_same)
  then show ?thesis by (simp add: nrc_reconcile_and_apply_def)
qed

theorem failed_peering_is_not_retried_witness:
  "\<exists>e c' s'. nrc_reconcile_and_apply (grpc_ops cidr_api table_service) [demo_bgp_node ''n2'' 2]
       demo_nrc (demo_gobgp \<lparr> gt_started := False \<rparr>) = (Inl e, c', s')
     \<and> nrc_reconcile_and_apply (grpc_ops cidr_api table_service) [demo_bgp_node ''n2'' 2] c' demo_gobgp
         = (Inr (0, 0), c', demo_gobgp)
     \<and> table_peers demo_gobgp (AddrV4 2) = None"
proof -
  obtain e c' s' where run: "nrc_reconcile_and_apply (grpc_ops cidr_api table_service) [demo_bgp_node ''n2'' 2]
       demo_nrc (demo_gobgp \<lparr> gt_started := False \<rparr>) = (Inl e, c', s')"
    by (auto simp: nrc_reconcile_and_apply_def nrc_reconcile_def Let_def demo_nrc_def nrc_new_def
        derive_ibgp_peers_def peer_with_def demo_bgp_node_def List.map_filter_def peer_diff_def
        grpc_ops_def table_service_def map_err_def gt_guard_def demo_gobgp_def)
  from failed_peering_is_not_retried [OF run, of "grpc_ops cidr_api table_service" demo_gobgp] run
  show ?thesis by (auto simp: table_peers_def demo_gobgp_def)
qed

section \<open>Topology\<close>

definition peers_with :: "bool \<Rightarrow> node_bgp \<Rightarrow> node_bgp \<Rightarrow> bool" where
  "peers_with full_mesh a b \<longleftrightarrow> nb_name b \<noteq> nb_name a \<and> peer_with a full_mesh b \<noteq> None"

text \<open>No node takes part in route reflection, or every node does.\<close>

definition uniform_reflection :: "node_bgp list \<Rightarrow> bool" where
  "uniform_reflection nodes \<longleftrightarrow>
     (\<forall>n \<in> set nodes. nb_rr_server n = None \<and> nb_rr_client n = None)
     \<or> (\<forall>n \<in> set nodes. nb_rr_server n \<noteq> None \<or> nb_rr_client n \<noteq> None)"

lemma set_derive_ibgp_peers:
  "set (derive_ibgp_peers local others full_mesh True)
     = {p. \<exists>b \<in> set others. nb_name b \<noteq> nb_name local \<and> peer_with local full_mesh b = Some p}"
  by (auto simp: derive_ibgp_peers_def set_map_filter split: if_splits)

lemma peers_with_iff:
  "peers_with full_mesh x y \<longleftrightarrow> nb_name y \<noteq> nb_name x
     \<and> (if nb_rr_server x \<noteq> None then True
        else if nb_rr_client x \<noteq> None then nb_rr_server y \<noteq> None
        else full_mesh \<or> nb_asn y = nb_asn x)"
  by (simp add: peers_with_def peer_with_def Let_def)



section \<open>Advertised prefixes\<close>

lemma path_prefix_adv [simp]: "path_prefix (adv_path api a nh p) = p"
  by (auto simp: adv_path_def pb_build_def pb_new_def pb_communities_def pb_as_path_prepend_def Let_def
      split: option.split ip_family.split prod.split)

lemma path_prefix_withdraw [simp]: "path_prefix (withdraw_path api nh p) = p"
  by (auto simp: withdraw_path_def pb_build_def pb_new_def pb_withdrawal_def split: ip_family.split)



lemma in_service_vips:
  "ip \<in> set (service_vips d svc) \<longleftrightarrow>
      (ip \<in> set (sv_cluster_ips svc) \<and> (case sv_adv_cluster svc of Some b \<Rightarrow> b | None \<Rightarrow> ad_cluster d)
          \<and> (sv_internal_traffic_local svc \<longrightarrow> sv_has_local_endpoints svc))
     \<or> (ip \<in> set (sv_external_ips svc) \<and> (case sv_adv_external svc of Some b \<Rightarrow> b | None \<Rightarrow> ad_external d)
          \<and> (sv_external_traffic_local svc \<longrightarrow> sv_has_local_endpoints svc))
     \<or> (ip \<in> set (sv_lb_ips svc) \<and> \<not> sv_skip_lb_ips svc
          \<and> (case sv_adv_lb svc of Some b \<Rightarrow> b | None \<Rightarrow> ad_loadbalancer d)
          \<and> (sv_external_traffic_local svc \<longrightarrow> sv_has_local_endpoints svc))"
proof -
  have pick: "ip \<in> set (if c then xs else []) \<longleftrightarrow> ip \<in> set xs \<and> c" for c xs by auto
  show ?thesis
    unfolding service_vips_def set_append Un_iff pick should_advertise_def by auto
qed

text \<open>C16: the node advertises the host route of an address exactly when a service has it in a category
  that is enabled for the service (its annotation, or else the default), and never a cluster address of
  an internally local service, nor an external or load-balancer address of an externally local service,
  when the service has no ready endpoint on the node.\<close>

theorem advertised_service_vips_iff:
  fixes api :: "'n::linorder ipnet_api"
  assumes "ipnet api"
  shows "net_host api ip \<in> set (advertised_service_vips api services d) \<longleftrightarrow>
    (\<exists>svc \<in> set services.
       (ip \<in> set (sv_cluster_ips svc) \<and> (case sv_adv_cluster svc of Some b \<Rightarrow> b | None \<Rightarrow> ad_cluster d)
          \<and> (sv_internal_traffic_local svc \<longrightarrow> sv_has_local_endpoints svc))
     \<or> (ip \<in> set (sv_external_ips svc) \<and> (case sv_adv_external svc of Some b \<Rightarrow> b | None \<Rightarrow> ad_external d)
          \<and> (sv_external_traffic_local svc \<longrightarrow> sv_has_local_endpoints svc))
     \<or> (ip \<in> set (sv_lb_ips svc) \<and> \<not> sv_skip_lb_ips svc
          \<and> (case sv_adv_lb svc of Some b \<Rightarrow> b | None \<Rightarrow> ad_loadbalancer d)
          \<and> (sv_external_traffic_local svc \<longrightarrow> sv_has_local_endpoints svc)))"
proof -
  have "net_host api ip \<in> net_host api ` A \<longleftrightarrow> ip \<in> A" for A
    using ipnet.host_inj [OF assms] by auto
  then have "net_host api ip \<in> set (advertised_service_vips api services d)
      \<longleftrightarrow> (\<exists>svc \<in> set services. ip \<in> set (service_vips d svc))"
    by (simp add: advertised_service_vips_def)
  then show ?thesis by (simp only: in_service_vips)
qed

theorem advertised_service_vips_iff_witness:
  "Cidr4 9 32 \<in> set (advertised_service_vips cidr_api
      [\<lparr> sv_cluster_ips = [AddrV4 9], sv_external_ips = [], sv_lb_ips = [], sv_internal_traffic_local = False,
         sv_external_traffic_local = False, sv_has_local_endpoints = False, sv_adv_cluster = None,
         sv_adv_external = None, sv_adv_lb = None, sv_skip_lb_ips = False \<rparr>]
      \<lparr> ad_cluster = True, ad_external = False, ad_loadbalancer = False \<rparr>)"
  using advertised_service_vips_iff [OF cidr.ipnet_axioms, of "AddrV4 9"
      "[\<lparr> sv_cluster_ips = [AddrV4 9], sv_external_ips = [], sv_lb_ips = [], sv_internal_traffic_local = False,
         sv_external_traffic_local = False, sv_has_local_endpoints = False, sv_adv_cluster = None,
         sv_adv_external = None, sv_adv_lb = None, sv_skip_lb_ips = False \<rparr>]"
      "\<lparr> ad_cluster = True, ad_external = False, ad_loadbalancer = False \<rparr>"]
  by (simp add: cidr_api_def)

end
