(* ===== verification/Kr_NetpolModel.thy ===== *)
theory Kr_NetpolModel
  imports Kr_Text
begin

text \<open>
  Inputs of the network-policy controller, \<^verbatim>\<open>crates/netpol/src\<close>: selectors, pods, policies
  (\<^verbatim>\<open>model.rs\<close>), chain and set names (\<^verbatim>\<open>naming.rs\<close>, \<^verbatim>\<open>crates/common/src/naming.rs\<close>), resolution of peers to
  set entries (\<^verbatim>\<open>translate.rs\<close>). Labels are association lists; the name hash takes the digest and
  encoding as the parameter \<open>enc\<close>.
\<close>

section \<open>Selectors\<close>

datatype selector_op = OpIn | OpNotIn | OpExists | OpDoesNotExist

type_synonym labels = "(string \<times> string) list"

record selector_requirement =
  req_key :: string
  req_operator :: "selector_op option"
  req_values :: "string list"

record label_selector =
  match_labels :: labels
  match_expressions :: "selector_requirement list"

definition from_labels :: "labels \<Rightarrow> label_selector" where
  "from_labels ls = \<lparr> match_labels = ls, match_expressions = [] \<rparr>"

definition requirement_holds :: "selector_requirement \<Rightarrow> labels \<Rightarrow> bool" where
  "requirement_holds req labels =
     (let value = map_of labels (req_key req) in
      case req_operator req of
        Some OpIn \<Rightarrow> (case value of Some v \<Rightarrow> v \<in> set (req_values req) | None \<Rightarrow> False)
      | Some OpNotIn \<Rightarrow> (case value of Some v \<Rightarrow> v \<notin> set (req_values req) | None \<Rightarrow> True)
      | Some OpExists \<Rightarrow> value \<noteq> None
      | Some OpDoesNotExist \<Rightarrow> value = None
      | None \<Rightarrow> False)"

definition selector_matches :: "label_selector \<Rightarrow> labels \<Rightarrow> bool" where
  "selector_matches sel labels =
     (if \<not> list_all (\<lambda>(k, v). map_of labels k = Some v) (match_labels sel) then False
      else list_all (\<lambda>req. requirement_holds req labels) (match_expressions sel))"

section \<open>Pods and policies\<close>

datatype port_ref = AllPorts | PortNumber u16 | PortName string

record port_spec =
  ps_protocol :: string
  ps_port :: port_ref

record container_port =
  cp_name :: "string option"
  cp_protocol :: string
  cp_port :: u16

record pod =
  pod_namespace :: string
  pod_name :: string
  pod_labels :: labels
  pod_ips :: "ip_addr list"
  pod_node_name :: string
  pod_host_network :: bool
  pod_container_ports :: "container_port list"

record namespace =
  ns_name :: string
  ns_labels :: labels

datatype 'n peer =
    Selector "label_selector option" "label_selector option"
  | IpBlock 'n "'n list"

record 'n rule =
  rule_peers :: "'n peer list"
  rule_ports :: "port_spec list"

record policy_types =
  pt_ingress :: bool
  pt_egress :: bool

record 'n network_policy =
  pol_namespace :: string
  pol_name :: string
  pol_pod_selector :: label_selector
  pol_types :: policy_types
  pol_ingress :: "'n rule list"
  pol_egress :: "'n rule list"

definition selected_local_pods :: "'n network_policy \<Rightarrow> pod list \<Rightarrow> string \<Rightarrow> pod list" where
  "selected_local_pods pol pods node_name =
     filter (\<lambda>p. pod_namespace p = pol_namespace pol \<and> pod_node_name p = node_name
               \<and> \<not> pod_host_network p \<and> pod_ips p \<noteq> []
               \<and> selector_matches (pol_pod_selector pol) (pod_labels p)) pods"

section \<open>Names\<close>

definition ROUTER_INPUT :: string where "ROUTER_INPUT = ''KUBE-ROUTER-INPUT''"
definition ROUTER_FORWARD :: string where "ROUTER_FORWARD = ''KUBE-ROUTER-FORWARD''"
definition ROUTER_OUTPUT :: string where "ROUTER_OUTPUT = ''KUBE-ROUTER-OUTPUT''"
definition NWPLCY_COMMON :: string where "NWPLCY_COMMON = ''KUBE-NWPLCY-COMMON''"
definition NWPLCY_DEFAULT :: string where "NWPLCY_DEFAULT = ''KUBE-NWPLCY-DEFAULT''"
definition NWPLCY_TAIL :: string where "NWPLCY_TAIL = ''KUBE-NWPLCY-TAIL''"
definition MARK_MATCHED :: string where "MARK_MATCHED = ''0x10000/0x10000''"
definition MARK_ACCEPTED :: string where "MARK_ACCEPTED = ''0x20000/0x20000''"
definition LOCAL_PODS_SET :: string where "LOCAL_PODS_SET = ''kube-router-local-pods''"
definition POD_FW_PREFIX :: string where "POD_FW_PREFIX = ''KUBE-POD-FW-''"
definition NWPLCY_PREFIX :: string where "NWPLCY_PREFIX = ''KUBE-NWPLCY-''"
definition SRC_PREFIX :: string where "SRC_PREFIX = ''KUBE-SRC-''"
definition DST_PREFIX :: string where "DST_PREFIX = ''KUBE-DST-''"

fun fam :: "ip_family \<Rightarrow> string" where
  "fam V4 = ''IPv4''"
| "fam V6 = ''IPv6''"

fun local_pods_set :: "ip_family \<Rightarrow> string" where
  "local_pods_set V4 = LOCAL_PODS_SET"
| "local_pods_set V6 = LOCAL_PODS_SET @ ''-inet6''"

type_synonym encoder = "string \<Rightarrow> string"

definition pod_firewall_chain :: "encoder \<Rightarrow> string \<Rightarrow> string \<Rightarrow> string \<Rightarrow> string" where
  "pod_firewall_chain enc ns pod sync_version = POD_FW_PREFIX @ hash16 enc (ns @ pod @ sync_version)"

definition network_policy_chain :: "encoder \<Rightarrow> string \<Rightarrow> string \<Rightarrow> string \<Rightarrow> ip_family \<Rightarrow> string" where
  "network_policy_chain enc ns policy sync_version family =
     NWPLCY_PREFIX @ hash16 enc (ns @ policy @ sync_version @ fam family)"

definition src_set :: "encoder \<Rightarrow> string \<Rightarrow> string \<Rightarrow> ip_family \<Rightarrow> string" where
  "src_set enc ns policy family = SRC_PREFIX @ hash16 enc (ns @ policy @ fam family)"

definition dst_set :: "encoder \<Rightarrow> string \<Rightarrow> string \<Rightarrow> ip_family \<Rightarrow> string" where
  "dst_set enc ns policy family = DST_PREFIX @ hash16 enc (ns @ policy @ fam family)"

definition indexed_src_set :: "encoder \<Rightarrow> string \<Rightarrow> string \<Rightarrow> nat \<Rightarrow> ip_family \<Rightarrow> string" where
  "indexed_src_set enc ns policy i family = SRC_PREFIX @ hash16 enc (ns @ policy @ ''ingress'' @ show_nat i @ fam family)"

definition indexed_dst_set :: "encoder \<Rightarrow> string \<Rightarrow> string \<Rightarrow> nat \<Rightarrow> ip_family \<Rightarrow> string" where
  "indexed_dst_set enc ns policy i family = DST_PREFIX @ hash16 enc (ns @ policy @ ''egress'' @ show_nat i @ fam family)"

definition indexed_src_pod_set :: "encoder \<Rightarrow> string \<Rightarrow> string \<Rightarrow> nat \<Rightarrow> ip_family \<Rightarrow> string" where
  "indexed_src_pod_set enc ns policy i family =
     SRC_PREFIX @ hash16 enc (ns @ policy @ ''ingressrule'' @ show_nat i @ fam family @ ''pod'')"

definition indexed_src_ipblock_set :: "encoder \<Rightarrow> string \<Rightarrow> string \<Rightarrow> nat \<Rightarrow> ip_family \<Rightarrow> string" where
  "indexed_src_ipblock_set enc ns policy i family =
     SRC_PREFIX @ hash16 enc (ns @ policy @ ''ingressrule'' @ show_nat i @ fam family @ ''ipblock'')"

definition indexed_dst_pod_set :: "encoder \<Rightarrow> string \<Rightarrow> string \<Rightarrow> nat \<Rightarrow> ip_family \<Rightarrow> string" where
  "indexed_dst_pod_set enc ns policy i family =
     DST_PREFIX @ hash16 enc (ns @ policy @ ''egressrule'' @ show_nat i @ fam family @ ''pod'')"

definition indexed_dst_ipblock_set :: "encoder \<Rightarrow> string \<Rightarrow> string \<Rightarrow> nat \<Rightarrow> ip_family \<Rightarrow> string" where
  "indexed_dst_ipblock_set enc ns policy i family =
     DST_PREFIX @ hash16 enc (ns @ policy @ ''egressrule'' @ show_nat i @ fam family @ ''ipblock'')"

definition indexed_ingress_named_port_set ::
  "encoder \<Rightarrow> string \<Rightarrow> string \<Rightarrow> nat \<Rightarrow> nat \<Rightarrow> ip_family \<Rightarrow> string" where
  "indexed_ingress_named_port_set enc ns policy i ep family =
     DST_PREFIX @ hash16 enc (ns @ policy @ ''ingressrule'' @ show_nat i @ show_nat ep @ fam family @ ''namedport'')"

definition indexed_egress_named_port_set ::
  "encoder \<Rightarrow> string \<Rightarrow> string \<Rightarrow> nat \<Rightarrow> nat \<Rightarrow> ip_family \<Rightarrow> string" where
  "indexed_egress_named_port_set enc ns policy i ep family =
     DST_PREFIX @ hash16 enc (ns @ policy @ ''egressrule'' @ show_nat i @ show_nat ep @ fam family @ ''namedport'')"

section \<open>Peers\<close>

record resolved_peers =
  ip_entries :: "string list"
  net_entries :: "string list"
  match_all :: bool

definition ip_in_family :: "ip_addr \<Rightarrow> ip_family \<Rightarrow> bool" where
  "ip_in_family ip family = (of_addr ip = family)"

definition matched_namespaces :: "label_selector option \<Rightarrow> namespace list \<Rightarrow> string \<Rightarrow> string list" where
  "matched_namespaces selector namespaces default_ns =
     (case selector of
        None \<Rightarrow> [default_ns]
      | Some sel \<Rightarrow> btree_set (map ns_name (filter (\<lambda>n. selector_matches sel (ns_labels n)) namespaces)))"

definition peer_pods :: "label_selector option \<Rightarrow> label_selector option \<Rightarrow> pod list \<Rightarrow> namespace list \<Rightarrow> string \<Rightarrow> pod list" where
  "peer_pods ns_sel pod_sel pods namespaces policy_ns =
     (let nss = matched_namespaces ns_sel namespaces policy_ns in
      filter (\<lambda>p. pod_namespace p \<in> set nss \<and> \<not> pod_host_network p
                \<and> (case pod_sel of None \<Rightarrow> True | Some s \<Rightarrow> selector_matches s (pod_labels p))) pods)"

fun peer_ip_texts :: "'n peer \<Rightarrow> pod list \<Rightarrow> namespace list \<Rightarrow> string \<Rightarrow> ip_family \<Rightarrow> string list" where
  "peer_ip_texts (Selector ns_sel pod_sel) pods namespaces policy_ns family =
     concat (map (\<lambda>p. map show_addr (filter (\<lambda>ip. ip_in_family ip family) (pod_ips p)))
       (peer_pods ns_sel pod_sel pods namespaces policy_ns))"
| "peer_ip_texts (IpBlock _ _) pods namespaces policy_ns family = []"

fun peer_net_texts :: "'n ipnet_api \<Rightarrow> 'n peer \<Rightarrow> ip_family \<Rightarrow> string list" where
  "peer_net_texts api (Selector _ _) family = []"
| "peer_net_texts api (IpBlock cidr except) family =
     (if net_family api cidr \<noteq> family then []
      else net_to_string api cidr # map (\<lambda>ex. net_to_string api ex @ '' nomatch'') except)"

definition resolve_peers ::
  "'n ipnet_api \<Rightarrow> 'n peer list \<Rightarrow> pod list \<Rightarrow> namespace list \<Rightarrow> string \<Rightarrow> ip_family \<Rightarrow> resolved_peers" where
  "resolve_peers api peers pods namespaces policy_ns family =
     (if peers = [] then \<lparr> ip_entries = [], net_entries = [], match_all = True \<rparr>
      else \<lparr> ip_entries = btree_set (concat (map (\<lambda>p. peer_ip_texts p pods namespaces policy_ns family) peers)),
             net_entries = concat (map (\<lambda>p. peer_net_texts api p family) peers),
             match_all = False \<rparr>)"

end
