(* ===== verification/Kr_NetpolSynth.thy ===== *)
theory Kr_NetpolSynth
  imports Kr_NetpolModel
begin

text \<open>
  Firewall synthesis, \<^verbatim>\<open>crates/netpol/src/synth.rs\<close>, with the set payload (\<^verbatim>\<open>ipset.rs\<close>), the table
  document (\<^verbatim>\<open>iptables.rs\<close>) and the sync pass (\<^verbatim>\<open>controller.rs\<close>). The sources build rule lines as text; here a
  rule is a chain, a list of matches and a target, and \<open>show_rule\<close> prints it as the line of the sources.
\<close>

section \<open>Rules and their text\<close>

datatype side = Src | Dst

datatype rmatch =
    MSet bool string side
  | MProto string
  | MDport u16
  | MDports string
  | MIcmpType string string
  | MCtState string
  | MLocal side
  | MAddr side string
  | MMark bool string
  | MBridged

datatype target =
    Jump string
  | Accept
  | Drop
  | Return
  | Reject string
  | SetXmark string
  | SetMark string
  | Nflog

record fw_rule =
  r_chain :: string
  r_matches :: "rmatch list"
  r_target :: target

fun show_side :: "side \<Rightarrow> string" where
  "show_side Src = ''src''"
| "show_side Dst = ''dst''"

fun show_match :: "rmatch \<Rightarrow> string" where
  "show_match (MSet neg name side) =
     '' -m set '' @ (if neg then ''! '' else '''') @ ''--match-set '' @ name @ '' '' @ show_side side"
| "show_match (MProto p) = '' -p '' @ p"
| "show_match (MDport n) = '' --dport '' @ show_nat (unat n)"
| "show_match (MDports ports) = '' -m multiport --dports '' @ ports"
| "show_match (MIcmpType flag kind) = '' '' @ flag @ '' '' @ kind"
| "show_match (MCtState st) = '' -m conntrack --ctstate '' @ st"
| "show_match (MLocal side) = '' -m addrtype --'' @ show_side side @ ''-type LOCAL''"
| "show_match (MAddr Src t) = '' -s '' @ t"
| "show_match (MAddr Dst t) = '' -d '' @ t"
| "show_match (MMark neg m) = '' -m mark '' @ (if neg then ''! '' else '''') @ ''--mark '' @ m"
| "show_match MBridged = '' -m physdev --physdev-is-bridged''"

fun show_target :: "target \<Rightarrow> string" where
  "show_target (Jump c) = c"
| "show_target Accept = ''ACCEPT''"
| "show_target Drop = ''DROP''"
| "show_target Return = ''RETURN''"
| "show_target (Reject w) = ''REJECT --reject-with '' @ w"
| "show_target (SetXmark m) = ''MARK --set-xmark '' @ m"
| "show_target (SetMark m) = ''MARK --set-mark '' @ m"
| "show_target Nflog = ''NFLOG --nflog-group 100 -m limit --limit 10/minute --limit-burst 10''"

definition show_rule :: "fw_rule \<Rightarrow> string" where
  "show_rule r = ''-A '' @ r_chain r @ concat (map show_match (r_matches r)) @ '' -j '' @ show_target (r_target r)"

abbreviation mk :: "string \<Rightarrow> rmatch list \<Rightarrow> target \<Rightarrow> fw_rule" where
  "mk c ms t \<equiv> \<lparr> r_chain = c, r_matches = ms, r_target = t \<rparr>"

section \<open>Plans\<close>

datatype set_type = HashIp | HashNet

record ipset_plan =
  is_name :: string
  is_type :: set_type
  is_family :: ip_family
  is_entries :: "string list"

record firewall_plan =
  fp_ipsets :: "ipset_plan list"
  fp_chain_decls :: "string list"
  fp_rules :: "fw_rule list"

fun reject_target :: "ip_family \<Rightarrow> target" where
  "reject_target V4 = Reject ''icmp-port-unreachable''"
| "reject_target V6 = Reject ''icmp6-port-unreachable''"

fun common_icmp_rules :: "ip_family \<Rightarrow> (string \<times> string \<times> string) list" where
  "common_icmp_rules V4 =
     [(''icmp'', ''--icmp-type'', ''echo-request''),
      (''icmp'', ''--icmp-type'', ''destination-unreachable''),
      (''icmp'', ''--icmp-type'', ''time-exceeded'')]"
| "common_icmp_rules V6 =
     [(''icmpv6'', ''--icmpv6-type'', ''echo-request''),
      (''icmpv6'', ''--icmpv6-type'', ''destination-unreachable''),
      (''icmpv6'', ''--icmpv6-type'', ''time-exceeded''),
      (''icmpv6'', ''--icmpv6-type'', ''neighbor-solicitation''),
      (''icmpv6'', ''--icmpv6-type'', ''neighbor-advertisement''),
      (''icmpv6'', ''--icmpv6-type'', ''echo-reply'')]"

datatype direction = Ingress | Egress

definition policy_selects :: "'n network_policy \<Rightarrow> pod \<Rightarrow> bool" where
  "policy_selects pol p =
     (pod_namespace p = pol_namespace pol \<and> selector_matches (pol_pod_selector pol) (pod_labels p))"

definition pod_family_ips :: "pod \<Rightarrow> ip_family \<Rightarrow> string list" where
  "pod_family_ips p family = map show_addr (filter (\<lambda>ip. of_addr ip = family) (pod_ips p))"

section \<open>The rules of a policy\<close>

definition push_policy_verdict :: "string \<Rightarrow> rmatch list \<Rightarrow> rmatch list \<Rightarrow> rmatch list \<Rightarrow> fw_rule list" where
  "push_policy_verdict pchain src_match target_match port_match =
     [mk pchain (src_match @ target_match @ port_match) (SetXmark MARK_MATCHED),
      mk pchain (src_match @ target_match @ port_match @ [MMark False MARK_MATCHED]) Return]"

text \<open>The receivers of a rule's traffic, against which a named port is resolved.\<close>

definition receivers :: "direction \<Rightarrow> 'n network_policy \<Rightarrow> resolved_peers \<Rightarrow> pod list \<Rightarrow> ip_family \<Rightarrow> pod list" where
  "receivers dir pol resolved pods family =
     (case dir of
        Ingress \<Rightarrow> filter (policy_selects pol) pods
      | Egress \<Rightarrow>
          if match_all resolved then filter (\<lambda>p. pod_namespace p = pol_namespace pol) pods
          else filter (\<lambda>p. list_ex (\<lambda>ip. ip \<in> set (ip_entries resolved)) (pod_family_ips p family)) pods)"

text \<open>Receiver addresses grouped by the number the name resolves to, in increasing order.\<close>

definition named_port_groups :: "pod list \<Rightarrow> string \<Rightarrow> string \<Rightarrow> ip_family \<Rightarrow> (u16 \<times> string list) list" where
  "named_port_groups recv name protocol family =
     fold (\<lambda>(port, ips) g.
             bmap_insert port ((case map_of g port of Some xs \<Rightarrow> xs | None \<Rightarrow> []) @ ips) g)
       (concat (map (\<lambda>p. List.map_filter (\<lambda>cp.
            if cp_name cp = Some name \<and> cp_protocol cp = protocol
            then Some (cp_port cp, pod_family_ips p family) else None) (pod_container_ports p)) recv)) []"

definition named_port_set :: "encoder \<Rightarrow> direction \<Rightarrow> 'n network_policy \<Rightarrow> nat \<Rightarrow> nat \<Rightarrow> ip_family \<Rightarrow> string" where
  "named_port_set enc dir pol idx ep family =
     (case dir of
        Ingress \<Rightarrow> indexed_ingress_named_port_set enc (pol_namespace pol) (pol_name pol) idx ep family
      | Egress \<Rightarrow> indexed_egress_named_port_set enc (pol_namespace pol) (pol_name pol) idx ep family)"

definition named_port_rules ::
  "encoder \<Rightarrow> string \<Rightarrow> direction \<Rightarrow> 'n network_policy \<Rightarrow> nat \<Rightarrow> ip_family \<Rightarrow> rmatch list \<Rightarrow> rmatch list
     \<Rightarrow> string \<Rightarrow> (u16 \<times> string list) list \<Rightarrow> ipset_plan list \<times> fw_rule list" where
  "named_port_rules enc pchain dir pol idx family peer_match target_match protocol groups =
     (let eps = zip [0..<length groups] groups in
      (map (\<lambda>(ep, (port, ips)).
         \<lparr> is_name = named_port_set enc dir pol idx ep family, is_type = HashIp, is_family = family,
           is_entries = btree_set ips \<rparr>) eps,
       concat (map (\<lambda>(ep, (port, ips)).
         push_policy_verdict pchain
           (case dir of Ingress \<Rightarrow> peer_match | Egress \<Rightarrow> target_match)
           [MSet False (named_port_set enc dir pol idx ep family) Dst]
           [MProto protocol, MDport port]) eps)))"

fun port_rules ::
  "encoder \<Rightarrow> string \<Rightarrow> direction \<Rightarrow> 'n network_policy \<Rightarrow> nat \<Rightarrow> ip_family \<Rightarrow> pod list \<Rightarrow> rmatch list \<Rightarrow> rmatch list
     \<Rightarrow> port_spec \<Rightarrow> ipset_plan list \<times> fw_rule list" where
  "port_rules enc pchain dir pol idx family recv peer_match target_match port =
     (case ps_port port of
        AllPorts \<Rightarrow> ([], push_policy_verdict pchain peer_match target_match [MProto (ps_protocol port)])
      | PortNumber n \<Rightarrow>
          ([], push_policy_verdict pchain peer_match target_match [MProto (ps_protocol port), MDport n])
      | PortName name \<Rightarrow>
          named_port_rules enc pchain dir pol idx family peer_match target_match (ps_protocol port)
            (named_port_groups recv name (ps_protocol port) family))"

definition peer_sets :: "encoder \<Rightarrow> direction \<Rightarrow> 'n network_policy \<Rightarrow> nat \<Rightarrow> ip_family \<Rightarrow> string \<times> string" where
  "peer_sets enc dir pol idx family =
     (case dir of
        Ingress \<Rightarrow> (indexed_src_pod_set enc (pol_namespace pol) (pol_name pol) idx family,
                    indexed_src_ipblock_set enc (pol_namespace pol) (pol_name pol) idx family)
      | Egress \<Rightarrow> (indexed_dst_pod_set enc (pol_namespace pol) (pol_name pol) idx family,
                   indexed_dst_ipblock_set enc (pol_namespace pol) (pol_name pol) idx family))"

fun target_side :: "direction \<Rightarrow> side" where
  "target_side Ingress = Dst"
| "target_side Egress = Src"

fun peer_side :: "direction \<Rightarrow> side" where
  "peer_side Ingress = Src"
| "peer_side Egress = Dst"

text \<open>The peer sets of one rule and the matches on them.\<close>

definition peer_match_plan ::
  "encoder \<Rightarrow> direction \<Rightarrow> 'n network_policy \<Rightarrow> nat \<Rightarrow> ip_family \<Rightarrow> resolved_peers
     \<Rightarrow> ipset_plan list \<times> rmatch list list" where
  "peer_match_plan enc dir pol idx family resolved =
     (let (pod_set, ipblock_set) = peer_sets enc dir pol idx family in
      if match_all resolved then ([], [[]])
      else
        ((if ip_entries resolved \<noteq> [] then
            [\<lparr> is_name = pod_set, is_type = HashIp, is_family = family, is_entries = ip_entries resolved \<rparr>] else [])
         @ (if net_entries resolved \<noteq> [] then
            [\<lparr> is_name = ipblock_set, is_type = HashNet, is_family = family, is_entries = net_entries resolved \<rparr>] else []),
         (if ip_entries resolved \<noteq> [] then [[MSet False pod_set (peer_side dir)]] else [])
         @ (if net_entries resolved \<noteq> [] then [[MSet False ipblock_set (peer_side dir)]] else [])))"

definition emit_rule ::
  "'n ipnet_api \<Rightarrow> encoder \<Rightarrow> string \<Rightarrow> direction \<Rightarrow> string \<Rightarrow> 'n network_policy \<Rightarrow> pod list \<Rightarrow> namespace list
     \<Rightarrow> ip_family \<Rightarrow> nat \<Rightarrow> 'n rule \<Rightarrow> ipset_plan list \<times> fw_rule list" where
  "emit_rule api enc pchain dir target_set pol pods namespaces family idx rule =
     (let target_match = [MSet False target_set (target_side dir)];
          resolved = resolve_peers api (rule_peers rule) pods namespaces (pol_namespace pol) family;
          (sets, peer_matches) = peer_match_plan enc dir pol idx family resolved;
          recv = receivers dir pol resolved pods family;
          parts = concat (map (\<lambda>pm.
            if rule_ports rule = [] then [([], push_policy_verdict pchain pm target_match [])]
            else map (port_rules enc pchain dir pol idx family recv pm target_match) (rule_ports rule)) peer_matches)
      in (sets @ concat (map fst parts), concat (map snd parts)))"

definition emit_policy_rules ::
  "'n ipnet_api \<Rightarrow> encoder \<Rightarrow> string \<Rightarrow> 'n rule list \<Rightarrow> direction \<Rightarrow> string \<Rightarrow> 'n network_policy \<Rightarrow> pod list
     \<Rightarrow> namespace list \<Rightarrow> ip_family \<Rightarrow> ipset_plan list \<times> fw_rule list" where
  "emit_policy_rules api enc pchain rules dir target_set pol pods namespaces family =
     (let parts = map (\<lambda>(idx, rule). emit_rule api enc pchain dir target_set pol pods namespaces family idx rule)
                    (zip [0..<length rules] rules)
      in (concat (map fst parts), concat (map snd parts)))"

section \<open>The plan\<close>

definition decl :: "string \<Rightarrow> string" where
  "decl c = '':'' @ c @ '' - [0:0]''"

definition common_rules :: "ip_family \<Rightarrow> fw_rule list" where
  "common_rules family =
     [mk NWPLCY_COMMON [MCtState ''INVALID''] Drop,
      mk NWPLCY_COMMON [MCtState ''RELATED,ESTABLISHED''] Accept]
     @ map (\<lambda>(proto, flag, kind). mk NWPLCY_COMMON [MProto proto, MIcmpType flag kind] Accept) (common_icmp_rules family)
     @ [mk NWPLCY_DEFAULT [] (SetXmark MARK_MATCHED)]"

definition input_rules :: "'n ipnet_api \<Rightarrow> ip_family \<Rightarrow> 'n list \<Rightarrow> string option \<Rightarrow> fw_rule list" where
  "input_rules api family cluster_ranges node_port_range =
     map (\<lambda>r. mk ROUTER_INPUT [MAddr Dst (net_to_string api r)] Return)
       (filter (\<lambda>c. net_family api c = family) cluster_ranges)
     @ (case node_port_range of
          None \<Rightarrow> []
        | Some ports \<Rightarrow> map (\<lambda>proto. mk ROUTER_INPUT [MProto proto, MLocal Dst, MDports ports] Return)
                          [''tcp'', ''udp'', ''sctp''])"

definition policy_chain :: "encoder \<Rightarrow> string \<Rightarrow> ip_family \<Rightarrow> 'n network_policy \<Rightarrow> string" where
  "policy_chain enc sync_version family pol =
     network_policy_chain enc (pol_namespace pol) (pol_name pol) sync_version family"

definition selected_ips :: "'n network_policy \<Rightarrow> pod list \<Rightarrow> ip_family \<Rightarrow> string list" where
  "selected_ips pol pods family = concat (map (\<lambda>p. pod_family_ips p family) (filter (policy_selects pol) pods))"

text \<open>One direction of a policy: its target set first, then the sets and rules of its rules.\<close>

definition policy_direction ::
  "'n ipnet_api \<Rightarrow> encoder \<Rightarrow> string \<Rightarrow> direction \<Rightarrow> 'n network_policy \<Rightarrow> pod list \<Rightarrow> namespace list \<Rightarrow> ip_family
     \<Rightarrow> ipset_plan list \<times> fw_rule list" where
  "policy_direction api enc pchain dir pol pods namespaces family =
     (let tset = (case dir of Ingress \<Rightarrow> dst_set enc (pol_namespace pol) (pol_name pol) family
                            | Egress \<Rightarrow> src_set enc (pol_namespace pol) (pol_name pol) family);
          rules = (case dir of Ingress \<Rightarrow> pol_ingress pol | Egress \<Rightarrow> pol_egress pol);
          (sets, rs) = emit_policy_rules api enc pchain rules dir tset pol pods namespaces family
      in (\<lparr> is_name = tset, is_type = HashIp, is_family = family, is_entries = selected_ips pol pods family \<rparr> # sets, rs))"

definition policy_plan ::
  "'n ipnet_api \<Rightarrow> encoder \<Rightarrow> pod list \<Rightarrow> namespace list \<Rightarrow> ip_family \<Rightarrow> string \<Rightarrow> 'n network_policy
     \<Rightarrow> ipset_plan list \<times> fw_rule list" where
  "policy_plan api enc pods namespaces family sync_version pol =
     (let pchain = policy_chain enc sync_version family pol;
          (si, ri) = (if pt_ingress (pol_types pol)
                      then policy_direction api enc pchain Ingress pol pods namespaces family else ([], []));
          (se, re) = (if pt_egress (pol_types pol)
                      then policy_direction api enc pchain Egress pol pods namespaces family else ([], []))
      in (si @ se, ri @ re))"

definition applies :: "'n network_policy \<Rightarrow> bool" where
  "applies pol = (pt_ingress (pol_types pol) \<or> pt_egress (pol_types pol))"

definition selecting :: "'n network_policy list \<Rightarrow> pod \<Rightarrow> 'n network_policy list" where
  "selecting policies p = filter (\<lambda>pol. applies pol \<and> policy_selects pol p) policies"

definition has_ingress :: "'n network_policy list \<Rightarrow> bool" where
  "has_ingress pols = list_ex (\<lambda>pol. pt_ingress (pol_types pol)) pols"

definition has_egress :: "'n network_policy list \<Rightarrow> bool" where
  "has_egress pols = list_ex (\<lambda>pol. pt_egress (pol_types pol)) pols"

text \<open>The jump of a pod chain to one policy, gated by the directions of the policy.\<close>

definition policy_jump :: "string \<Rightarrow> string \<Rightarrow> policy_types \<Rightarrow> string \<Rightarrow> fw_rule" where
  "policy_jump podchain pc types ip =
     (if pt_ingress types \<and> pt_egress types then mk podchain [] (Jump pc)
      else if pt_ingress types then mk podchain [MAddr Dst ip] (Jump pc)
      else mk podchain [MAddr Src ip] (Jump pc))"

definition pod_ip_jumps :: "encoder \<Rightarrow> string \<Rightarrow> ip_family \<Rightarrow> string \<Rightarrow> 'n network_policy list \<Rightarrow> string \<Rightarrow> fw_rule list" where
  "pod_ip_jumps enc sync_version family podchain pols ip =
     map (\<lambda>pol. policy_jump podchain (policy_chain enc sync_version family pol) (pol_types pol) ip) pols
     @ (if \<not> has_ingress pols then [mk podchain [MAddr Dst ip] (Jump NWPLCY_DEFAULT)] else [])
     @ (if \<not> has_egress pols then [mk podchain [MAddr Src ip] (Jump NWPLCY_DEFAULT)] else [])"

text \<open>The chain of a pod.\<close>

definition pod_chain_rules ::
  "encoder \<Rightarrow> string \<Rightarrow> ip_family \<Rightarrow> string \<Rightarrow> 'n network_policy list \<Rightarrow> string list \<Rightarrow> fw_rule list" where
  "pod_chain_rules enc sync_version family podchain pols ips =
     [mk podchain [] (Jump NWPLCY_COMMON)]
     @ map (\<lambda>ip. mk podchain [MLocal Src, MAddr Dst ip] Accept) ips
     @ concat (map (pod_ip_jumps enc sync_version family podchain pols) ips)
     @ [mk podchain [MMark True MARK_MATCHED] Nflog,
        mk podchain [MMark True MARK_MATCHED] (reject_target family),
        mk podchain [] (SetMark ''0/0x10000''),
        mk podchain [] (SetMark MARK_ACCEPTED)]"

text \<open>The jumps from the top-level chains to the chain of a pod.\<close>

definition intercept_rules :: "string \<Rightarrow> string \<Rightarrow> fw_rule list" where
  "intercept_rules podchain ip =
     [mk ROUTER_FORWARD [MAddr Dst ip] (Jump podchain),
      mk ROUTER_OUTPUT [MAddr Dst ip] (Jump podchain),
      mk ROUTER_FORWARD [MBridged, MAddr Dst ip] (Jump podchain)]
     @ map (\<lambda>c. mk c [MAddr Src ip] (Jump podchain)) [ROUTER_INPUT, ROUTER_FORWARD, ROUTER_OUTPUT]
     @ [mk ROUTER_FORWARD [MBridged, MAddr Src ip] (Jump podchain)]"

definition actionable :: "string \<Rightarrow> ip_family \<Rightarrow> pod \<Rightarrow> bool" where
  "actionable node family p =
     (pod_node_name p = node \<and> \<not> pod_host_network p \<and> pod_family_ips p family \<noteq> [])"

definition firewalled_pods :: "'n network_policy list \<Rightarrow> pod list \<Rightarrow> string \<Rightarrow> ip_family \<Rightarrow> pod list" where
  "firewalled_pods policies pods node family =
     filter (\<lambda>p. actionable node family p \<and> selecting policies p \<noteq> []) pods"

definition pod_chain :: "encoder \<Rightarrow> string \<Rightarrow> pod \<Rightarrow> string" where
  "pod_chain enc sync_version p = pod_firewall_chain enc (pod_namespace p) (pod_name p) sync_version"

definition pod_rules :: "encoder \<Rightarrow> string \<Rightarrow> ip_family \<Rightarrow> 'n network_policy list \<Rightarrow> pod \<Rightarrow> fw_rule list" where
  "pod_rules enc sync_version family policies p =
     (let podchain = pod_chain enc sync_version p; ips = pod_family_ips p family in
      pod_chain_rules enc sync_version family podchain (selecting policies p) ips
      @ concat (map (intercept_rules podchain) ips))"

definition tail_rules :: "'n ipnet_api \<Rightarrow> ip_family \<Rightarrow> bool \<Rightarrow> 'n list \<Rightarrow> fw_rule list" where
  "tail_rules api family default_deny pod_cidrs =
     (let cidrs = map (net_to_string api) (filter (\<lambda>c. net_family api c = family) pod_cidrs);
          lset = local_pods_set family; rej = reject_target family
      in (if default_deny then
            concat (map (\<lambda>c. [mk NWPLCY_TAIL [MAddr Src c, MSet True lset Src] rej,
                              mk NWPLCY_TAIL [MAddr Dst c, MSet True lset Dst] rej]) cidrs) else [])
         @ [mk NWPLCY_TAIL [MMark False MARK_ACCEPTED] Accept]
         @ (if default_deny then
              concat (map (\<lambda>c. [mk NWPLCY_TAIL [MAddr Src c] rej, mk NWPLCY_TAIL [MAddr Dst c] rej]) cidrs) else []))"

definition build_plan ::
  "'n ipnet_api \<Rightarrow> encoder \<Rightarrow> 'n network_policy list \<Rightarrow> pod list \<Rightarrow> namespace list \<Rightarrow> string \<Rightarrow> ip_family
     \<Rightarrow> string \<Rightarrow> bool \<Rightarrow> 'n list \<Rightarrow> 'n list \<Rightarrow> string option \<Rightarrow> firewall_plan" where
  "build_plan api enc policies pods namespaces node family sync_version default_deny pod_cidrs cluster_ranges node_port_range =
     (let pols = filter applies policies;
          pparts = map (policy_plan api enc pods namespaces family sync_version) pols;
          fpods = firewalled_pods policies pods node family
      in \<lparr> fp_ipsets = concat (map fst pparts)
             @ (if default_deny then
                  [\<lparr> is_name = local_pods_set family, is_type = HashIp, is_family = family,
                     is_entries = concat (map (\<lambda>p. pod_family_ips p family) fpods) \<rparr>] else []),
           fp_chain_decls =
             map decl [ROUTER_INPUT, ROUTER_FORWARD, ROUTER_OUTPUT, NWPLCY_COMMON, NWPLCY_DEFAULT, NWPLCY_TAIL]
             @ map (\<lambda>pol. decl (policy_chain enc sync_version family pol)) pols
             @ map (\<lambda>p. decl (pod_chain enc sync_version p)) fpods,
           fp_rules =
             common_rules family
             @ input_rules api family cluster_ranges node_port_range
             @ concat (map snd pparts)
             @ concat (map (pod_rules enc sync_version family policies) fpods)
             @ tail_rules api family default_deny pod_cidrs
             @ map (\<lambda>c. mk c [] (Jump NWPLCY_TAIL)) [ROUTER_INPUT, ROUTER_FORWARD, ROUTER_OUTPUT] \<rparr>)"

section \<open>Applying a plan\<close>

fun set_type_str :: "set_type \<Rightarrow> string" where
  "set_type_str HashIp = ''hash:ip''"
| "set_type_str HashNet = ''hash:net''"

fun family_kw :: "ip_family \<Rightarrow> string" where
  "family_kw V4 = ''inet''"
| "family_kw V6 = ''inet6''"

definition build_restore_payload :: "string \<Rightarrow> set_type \<Rightarrow> ip_family \<Rightarrow> string list \<Rightarrow> string" where
  "build_restore_payload name typ family entries =
     (let tmp = ''TMP-'' @ name; spec = set_type_str typ @ '' family '' @ family_kw family @ '' -exist'' @ nl
      in ''create '' @ name @ '' '' @ spec @ ''create '' @ tmp @ '' '' @ spec @ ''flush '' @ tmp @ nl
         @ concat (map (\<lambda>e. ''add '' @ tmp @ '' '' @ e @ '' -exist'' @ nl) entries)
         @ ''swap '' @ tmp @ '' '' @ name @ nl @ ''destroy '' @ tmp @ nl)"

definition filter_restore_doc :: "string list \<Rightarrow> string list \<Rightarrow> string" where
  "filter_restore_doc decls rules =
     ''*filter'' @ nl @ concat (map (\<lambda>d. d @ nl) decls) @ concat (map (\<lambda>r. r @ nl) rules) @ ''COMMIT'' @ nl"

record 'n policy_world =
  pw_policies :: "'n network_policy list"
  pw_pods :: "pod list"
  pw_namespaces :: "namespace list"

record 'n firewall_config =
  fc_families :: "ip_family list"
  fc_node :: string
  fc_sync_version :: string
  fc_default_deny :: bool
  fc_pod_cidrs :: "'n list"
  fc_service_cluster_ip_ranges :: "'n list"
  fc_node_port_range :: "string option"

record 's firewall_ops =
  fo_ipset_restore :: "string \<Rightarrow> ('s, string, unit) eff"
  fo_restore_filter :: "ip_family \<Rightarrow> string \<Rightarrow> ('s, string, unit) eff"
  fo_ensure_jump :: "ip_family \<Rightarrow> string \<Rightarrow> string \<Rightarrow> ('s, string, unit) eff"

definition apply_family ::
  "'n ipnet_api \<Rightarrow> encoder \<Rightarrow> 's firewall_ops \<Rightarrow> 'n firewall_config \<Rightarrow> 'n policy_world \<Rightarrow> ip_family \<Rightarrow> ('s, string, unit) eff" where
  "apply_family api enc ops cfg world family =
     (let plan = build_plan api enc (pw_policies world) (pw_pods world) (pw_namespaces world) (fc_node cfg) family
                   (fc_sync_version cfg) (fc_default_deny cfg) (fc_pod_cidrs cfg)
                   (fc_service_cluster_ip_ranges cfg) (fc_node_port_range cfg)
      in eff_bind (for_each (\<lambda>st. fo_ipset_restore ops
             (build_restore_payload (is_name st) (is_type st) (is_family st) (is_entries st))) (fp_ipsets plan)) (\<lambda>_.
         eff_bind (fo_restore_filter ops family
             (filter_restore_doc (fp_chain_decls plan) (map show_rule (fp_rules plan)))) (\<lambda>_.
         for_each (\<lambda>(builtin, target). fo_ensure_jump ops family builtin target)
             [(''INPUT'', ROUTER_INPUT), (''FORWARD'', ROUTER_FORWARD), (''OUTPUT'', ROUTER_OUTPUT)])))"

definition firewall_reconcile ::
  "'n ipnet_api \<Rightarrow> encoder \<Rightarrow> 's firewall_ops \<Rightarrow> 'n firewall_config \<Rightarrow> 'n policy_world \<Rightarrow> ('s, string, unit) eff" where
  "firewall_reconcile api enc ops cfg world = for_each (apply_family api enc ops cfg world) (fc_families cfg)"

end
