(* ===== verification/Kr_NetpolEval.thy ===== *)
theory Kr_NetpolEval
  imports Kr_NetpolSynth
begin

text \<open>
  What the synthesized rules do to a packet. The rule evaluation of netfilter (first match, user chains,
  RETURN, packet marks) is defined over the structured rules; membership in a set and the matching of
  an address text are parameters of the evaluation. The lemmas reduce the traversal of a policy chain
  and of a pod chain to conditions on the packet.
\<close>

section \<open>Evaluation of rules\<close>

record packet =
  pk_src :: ip_addr
  pk_dst :: ip_addr
  pk_proto :: string
  pk_dport :: u16
  pk_ctstate :: string
  pk_src_local :: bool
  pk_dst_local :: bool
  pk_icmp :: "string option"
  pk_bridged :: bool

record netfilter =
  nf_set_has :: "string \<Rightarrow> ip_addr \<Rightarrow> bool"
  nf_addr_has :: "string \<Rightarrow> ip_addr \<Rightarrow> bool"
  nf_ports_has :: "string \<Rightarrow> u16 \<Rightarrow> bool"
  nf_net_has :: "string list \<Rightarrow> ip_addr \<Rightarrow> bool"

fun pk_addr :: "side \<Rightarrow> packet \<Rightarrow> ip_addr" where
  "pk_addr Src pk = pk_src pk"
| "pk_addr Dst pk = pk_dst pk"

fun pk_local :: "side \<Rightarrow> packet \<Rightarrow> bool" where
  "pk_local Src pk = pk_src_local pk"
| "pk_local Dst pk = pk_dst_local pk"

text \<open>A mark text is value and mask, hexadecimal with \<^verbatim>\<open>0x\<close> or decimal.\<close>

definition parse_mark_num :: "string \<Rightarrow> u32" where
  "parse_mark_num t =
     (let (radix, ds) = (if take 2 t = ''0x'' then (16, drop 2 t) else (10, t))
      in foldl (\<lambda>acc c. case to_digit radix c of None \<Rightarrow> acc | Some d \<Rightarrow> acc * of_nat radix + of_nat d) 0 ds)"

definition parse_mark :: "string \<Rightarrow> u32 \<times> u32" where
  "parse_mark t = (case split_on CHR ''/'' t of
     [v, m] \<Rightarrow> (parse_mark_num v, parse_mark_num m) | _ \<Rightarrow> (parse_mark_num t, - 1))"

definition set_xmark :: "string \<Rightarrow> u32 \<Rightarrow> u32" where
  "set_xmark t mark = (case parse_mark t of (v, m) \<Rightarrow> (mark AND NOT m) XOR v)"

definition set_mark :: "string \<Rightarrow> u32 \<Rightarrow> u32" where
  "set_mark t mark = (case parse_mark t of (v, m) \<Rightarrow> (mark AND NOT m) OR v)"

definition has_mark :: "string \<Rightarrow> u32 \<Rightarrow> bool" where
  "has_mark t mark = (case parse_mark t of (v, m) \<Rightarrow> mark AND m = v)"

fun eval_match :: "netfilter \<Rightarrow> packet \<Rightarrow> u32 \<Rightarrow> rmatch \<Rightarrow> bool" where
  "eval_match nf pk mark (MSet neg name side) = (nf_set_has nf name (pk_addr side pk) \<noteq> neg)"
| "eval_match nf pk mark (MProto p) = (pk_proto pk = p)"
| "eval_match nf pk mark (MDport n) = (pk_dport pk = n)"
| "eval_match nf pk mark (MDports t) = nf_ports_has nf t (pk_dport pk)"
| "eval_match nf pk mark (MIcmpType flag kind) = (pk_icmp pk = Some kind)"
| "eval_match nf pk mark (MCtState st) = (pk_ctstate pk \<in> set (split_on CHR '','' st))"
| "eval_match nf pk mark (MLocal side) = pk_local side pk"
| "eval_match nf pk mark (MAddr side t) = nf_addr_has nf t (pk_addr side pk)"
| "eval_match nf pk mark (MMark neg m) = (has_mark m mark \<noteq> neg)"
| "eval_match nf pk mark MBridged = pk_bridged pk"

datatype verdict = Accepted | Dropped | Rejected

text \<open>A list of rules ends, returns, or decides the packet. \<open>None\<close>: the jump depth is exhausted.\<close>

datatype outcome = Next u32 | Ret u32 | Final verdict

definition chain_rules :: "fw_rule list \<Rightarrow> string \<Rightarrow> fw_rule list" where
  "chain_rules rs c = filter (\<lambda>r. r_chain r = c) rs"

function (sequential) eval_rules ::
  "netfilter \<Rightarrow> fw_rule list \<Rightarrow> nat \<Rightarrow> packet \<Rightarrow> fw_rule list \<Rightarrow> u32 \<Rightarrow> outcome option" where
  "eval_rules nf rs depth pk [] mark = Some (Next mark)"
| "eval_rules nf rs depth pk (r # rest) mark =
     (if \<not> list_all (eval_match nf pk mark) (r_matches r) then eval_rules nf rs depth pk rest mark
      else case r_target r of
        Accept \<Rightarrow> Some (Final Accepted)
      | Drop \<Rightarrow> Some (Final Dropped)
      | Reject _ \<Rightarrow> Some (Final Rejected)
      | Return \<Rightarrow> Some (Ret mark)
      | SetXmark t \<Rightarrow> eval_rules nf rs depth pk rest (set_xmark t mark)
      | SetMark t \<Rightarrow> eval_rules nf rs depth pk rest (set_mark t mark)
      | Nflog \<Rightarrow> eval_rules nf rs depth pk rest mark
      | Jump c \<Rightarrow>
          (case depth of
             0 \<Rightarrow> None
           | Suc d \<Rightarrow>
               (case eval_rules nf rs d pk (chain_rules rs c) mark of
                  None \<Rightarrow> None
                | Some (Final v) \<Rightarrow> Some (Final v)
                | Some (Next m) \<Rightarrow> eval_rules nf rs depth pk rest m
                | Some (Ret m) \<Rightarrow> eval_rules nf rs depth pk rest m)))"
  by pat_completeness auto
termination
  by (relation "measures [\<lambda>(nf, rs, depth, pk, l, mark). depth, \<lambda>(nf, rs, depth, pk, l, mark). length l]") auto

abbreviation eval_chain :: "netfilter \<Rightarrow> fw_rule list \<Rightarrow> nat \<Rightarrow> packet \<Rightarrow> string \<Rightarrow> u32 \<Rightarrow> outcome option" where
  "eval_chain nf rs depth pk c mark \<equiv> eval_rules nf rs depth pk (chain_rules rs c) mark"

lemma eval_rules_append:
  "eval_rules nf rs depth pk (xs @ ys) mark =
     (case eval_rules nf rs depth pk xs mark of
        Some (Next m) \<Rightarrow> eval_rules nf rs depth pk ys m
      | r \<Rightarrow> r)"
proof (induction xs arbitrary: mark)
  case (Cons r xs)
  show ?case
  proof (cases "list_all (eval_match nf pk mark) (r_matches r)")
    case True
    show ?thesis
    proof (cases "r_target r")
      case (Jump c)
      show ?thesis
      proof (cases depth)
        case (Suc d)
        show ?thesis
        proof (cases "eval_rules nf rs d pk (chain_rules rs c) mark")
          case (Some out)
          then show ?thesis
            unfolding Suc by (cases out) (simp_all add: True Jump Cons.IH [unfolded Suc])
        qed (simp add: True Jump Suc)
      qed (simp add: True Jump)
    qed (simp_all add: True Cons.IH)
  qed (simp add: Cons.IH)
qed simp

section \<open>Marks\<close>

definition matched_bit :: u32 where "matched_bit = 0x10000"
definition accepted_bit :: u32 where "accepted_bit = 0x20000"

lemma parse_mark_consts:
  "parse_mark MARK_MATCHED = (matched_bit, matched_bit)"
  "parse_mark MARK_ACCEPTED = (accepted_bit, accepted_bit)"
  "parse_mark ''0/0x10000'' = (0, matched_bit)"
  by code_simp+

definition is_matched :: "u32 \<Rightarrow> bool" where
  "is_matched mark = (mark AND matched_bit = matched_bit)"

definition set_matched :: "u32 \<Rightarrow> u32" where
  "set_matched mark = mark OR matched_bit"

definition mark_accepted :: "u32 \<Rightarrow> u32" where
  "mark_accepted mark = (mark AND NOT matched_bit) OR accepted_bit"

lemma has_mark_matched: "has_mark MARK_MATCHED mark = is_matched mark"
  by (simp add: has_mark_def parse_mark_consts is_matched_def)

lemma set_xmark_matched: "set_xmark MARK_MATCHED mark = set_matched mark"
  by (simp add: set_xmark_def parse_mark_consts set_matched_def) (rule bit_eqI, auto simp: bit_simps)

lemma is_matched_set [simp]: "is_matched (set_matched mark)"
  by (simp add: is_matched_def set_matched_def)

lemma set_matched_idem [simp]: "is_matched mark \<Longrightarrow> set_matched mark = mark"
  by (metis is_matched_def set_matched_def or.commute word_ao_absorbs(2) and.commute)

lemma has_mark_accepted: "has_mark MARK_ACCEPTED mark = (mark AND accepted_bit = accepted_bit)"
  by (simp add: has_mark_def parse_mark_consts)

lemma set_mark_accepted: "set_mark MARK_ACCEPTED (set_mark ''0/0x10000'' mark) = mark_accepted mark"
  by (simp add: set_mark_def parse_mark_consts mark_accepted_def accepted_bit_def)
     (rule bit_eqI, auto simp: bit_simps)

lemma mark_accepted_set [simp]: "mark_accepted (set_matched mark) = mark_accepted mark"
  by (simp add: mark_accepted_def set_matched_def) (rule bit_eqI, auto simp: bit_simps)

lemma mark_accepted_idem [simp]: "mark_accepted (mark_accepted mark) = mark_accepted mark"
  by (simp add: mark_accepted_def) (rule bit_eqI, auto simp: bit_simps)

lemma not_matched_accepted [simp]: "\<not> is_matched (mark_accepted mark)"
  by (simp add: mark_accepted_def is_matched_def matched_bit_def accepted_bit_def bit_eq_iff) 
     (rule exI [of _ 16], simp add: bit_simps)

lemma mark_accepted_has [simp]: "has_mark MARK_ACCEPTED (mark_accepted mark)"
  unfolding has_mark_accepted mark_accepted_def by (rule bit_eqI) (auto simp: bit_simps)

section \<open>Policy chains\<close>

fun is_mark_match :: "rmatch \<Rightarrow> bool" where
  "is_mark_match (MMark _ _) = True"
| "is_mark_match _ = False"

definition mark_free :: "rmatch list \<Rightarrow> bool" where
  "mark_free ms = list_all (\<lambda>m. \<not> is_mark_match m) ms"

lemma mark_free_simps [simp]:
  "mark_free []" "mark_free (m # ms) \<longleftrightarrow> \<not> is_mark_match m \<and> mark_free ms"
  "mark_free (ms @ ns) \<longleftrightarrow> mark_free ms \<and> mark_free ns"
  by (simp_all add: mark_free_def)

lemma eval_match_mark: "\<not> is_mark_match m \<Longrightarrow> eval_match nf pk mark m = eval_match nf pk 0 m"
  by (cases m) simp_all

lemma mark_free_eval: "mark_free ms \<Longrightarrow> list_all (eval_match nf pk mark) ms = list_all (eval_match nf pk 0) ms"
  by (induction ms) (simp_all add: eval_match_mark [of _ nf pk mark])

definition hits :: "netfilter \<Rightarrow> packet \<Rightarrow> rmatch list \<Rightarrow> bool" where
  "hits nf pk ms = list_all (eval_match nf pk 0) ms"

lemma hits_simps [simp]:
  "hits nf pk []" "hits nf pk (m # ms) \<longleftrightarrow> eval_match nf pk 0 m \<and> hits nf pk ms"
  "hits nf pk (ms @ ns) \<longleftrightarrow> hits nf pk ms \<and> hits nf pk ns"
  by (simp_all add: hits_def)

lemma hits_eval: "mark_free ms \<Longrightarrow> list_all (eval_match nf pk mark) ms = hits nf pk ms"
  by (simp add: hits_def mark_free_eval [of ms nf pk mark])

text \<open>The rules of a policy chain are pairs of a marking rule and a return, one pair per list of matches.\<close>

definition verdicts :: "string \<Rightarrow> rmatch list list \<Rightarrow> fw_rule list" where
  "verdicts pc mss = concat (map (\<lambda>ms. push_policy_verdict pc ms [] []) mss)"

lemma verdicts_simps [simp]:
  "verdicts pc [] = []"
  "verdicts pc (ms # mss) = push_policy_verdict pc ms [] [] @ verdicts pc mss"
  "verdicts pc (xs @ ys) = verdicts pc xs @ verdicts pc ys"
  by (simp_all add: verdicts_def)

lemma verdicts_concat: "verdicts pc (concat xss) = concat (map (verdicts pc) xss)"
  by (induction xss) simp_all

lemma push_verdict: "push_policy_verdict pc a b c = verdicts pc [a @ b @ c]"
  by (simp add: push_policy_verdict_def)

lemma r_chain_verdicts: "r \<in> set (verdicts pc mss) \<Longrightarrow> r_chain r = pc"
  by (auto simp: verdicts_def push_policy_verdict_def)

lemma eval_verdicts:
  assumes "list_all mark_free mss"
  shows "eval_rules nf rs d pk (verdicts pc mss) mark =
    Some (if list_ex (hits nf pk) mss then Ret (set_matched mark) else Next mark)"
  using assms
  by (induction mss)
     (auto simp: push_policy_verdict_def hits_eval set_xmark_matched has_mark_matched)

text \<open>\<open>marking\<close>: the rules set the match mark exactly when \<open>b\<close>, and go on.\<close>

definition marking :: "netfilter \<Rightarrow> fw_rule list \<Rightarrow> nat \<Rightarrow> packet \<Rightarrow> fw_rule list \<Rightarrow> bool \<Rightarrow> bool" where
  "marking nf rs d pk js b \<longleftrightarrow>
     (\<forall>mark. eval_rules nf rs d pk js mark = Some (Next (if b then set_matched mark else mark)))"

lemma marking_Nil: "marking nf rs d pk [] False"
  by (simp add: marking_def)

lemma marking_then:
  "marking nf rs d pk js b \<Longrightarrow>
     eval_rules nf rs d pk (js @ rest) mark = eval_rules nf rs d pk rest (if b then set_matched mark else mark)"
  by (simp add: marking_def eval_rules_append)

lemma set_matched_twice [simp]: "set_matched (set_matched mark) = set_matched mark"
  by simp

lemma marking_append:
  "\<lbrakk> marking nf rs d pk xs b; marking nf rs d pk ys c \<rbrakk> \<Longrightarrow> marking nf rs d pk (xs @ ys) (b \<or> c)"
  by (auto simp: marking_def eval_rules_append)

lemma marking_concat:
  assumes "\<And>x. x \<in> set xs \<Longrightarrow> marking nf rs d pk (f x) (b x)"
  shows "marking nf rs d pk (concat (map f xs)) (\<exists>x\<in>set xs. b x)"
  using assms
proof (induction xs)
  case (Cons x xs)
  have "marking nf rs d pk (f x @ concat (map f xs)) (b x \<or> (\<exists>x\<in>set xs. b x))"
    using Cons by (intro marking_append) auto
  then show ?case by simp
qed (simp add: marking_Nil)

lemma marking_map:
  assumes "\<And>x. x \<in> set xs \<Longrightarrow> marking nf rs d pk [f x] (b x)"
  shows "marking nf rs d pk (map f xs) (\<exists>x\<in>set xs. b x)"
  using marking_concat [of xs nf rs d pk "\<lambda>x. [f x]" b] assms by (simp add: concat_map_singleton)

text \<open>A chain that sets the mark when \<open>b\<close>, however it comes back.\<close>

definition chain_marks :: "netfilter \<Rightarrow> fw_rule list \<Rightarrow> nat \<Rightarrow> packet \<Rightarrow> string \<Rightarrow> bool \<Rightarrow> bool" where
  "chain_marks nf rs d pk c b \<longleftrightarrow>
     (\<forall>mark. eval_chain nf rs d pk c mark \<in>
        {Some (Next (if b then set_matched mark else mark)), Some (Ret (if b then set_matched mark else mark))})"

lemma marking_jump:
  assumes "mark_free ms" "chain_marks nf rs d pk c b"
  shows "marking nf rs (Suc d) pk [mk x ms (Jump c)] (hits nf pk ms \<and> b)"
  unfolding marking_def
proof
  fix mark
  have "eval_chain nf rs d pk c mark = Some (Next (if b then set_matched mark else mark))
      \<or> eval_chain nf rs d pk c mark = Some (Ret (if b then set_matched mark else mark))"
    using assms(2) by (simp add: chain_marks_def)
  then show "eval_rules nf rs (Suc d) pk [mk x ms (Jump c)] mark
      = Some (Next (if hits nf pk ms \<and> b then set_matched mark else mark))"
    by (auto simp: hits_eval assms(1))
qed

lemma chain_marks_verdicts:
  assumes "chain_rules rs c = verdicts c mss" "list_all mark_free mss"
  shows "chain_marks nf rs d pk c (list_ex (hits nf pk) mss)"
  using assms by (simp add: chain_marks_def eval_verdicts)


end
