(* ===== verification/Kr_NetpolSpec.thy ===== *)
theory Kr_NetpolSpec
  imports Kr_NetpolEval
begin

text \<open>
  What a network policy promises for a packet, stated over pods, peers and ports with no chain, set or mark
  (\<open>rule_admits\<close>, \<open>policy_admits\<close>, \<open>pod_admits\<close>), and the proof that the plan of \<^verbatim>\<open>synth.rs\<close>, loaded into
  netfilter, decides every new packet that way.
\<close>

section \<open>The promise of a policy\<close>

definition peers_admit :: "netfilter \<Rightarrow> resolved_peers \<Rightarrow> ip_addr \<Rightarrow> bool" where
  "peers_admit nf res a \<longleftrightarrow>
     match_all res \<or> show_addr a \<in> set (ip_entries res) \<or> (net_entries res \<noteq> [] \<and> nf_net_has nf (net_entries res) a)"

text \<open>Some receiver at \<open>a\<close> exposes the port under the name.\<close>

definition exposes :: "pod list \<Rightarrow> string \<Rightarrow> string \<Rightarrow> ip_family \<Rightarrow> u16 \<Rightarrow> ip_addr \<Rightarrow> bool" where
  "exposes recv name protocol family port a \<longleftrightarrow>
     (\<exists>p\<in>set recv. a \<in> set (pod_ips p) \<and> of_addr a = family
        \<and> (\<exists>cp\<in>set (pod_container_ports p). cp_name cp = Some name \<and> cp_protocol cp = protocol \<and> cp_port cp = port))"

definition port_admits :: "direction \<Rightarrow> pod list \<Rightarrow> ip_family \<Rightarrow> bool \<Rightarrow> bool \<Rightarrow> packet \<Rightarrow> port_spec \<Rightarrow> bool" where
  "port_admits dir recv family peer target pk ps \<longleftrightarrow>
     pk_proto pk = ps_protocol ps
     \<and> (case ps_port ps of
          AllPorts \<Rightarrow> peer \<and> target
        | PortNumber n \<Rightarrow> peer \<and> target \<and> pk_dport pk = n
        | PortName name \<Rightarrow>
            (case dir of Ingress \<Rightarrow> peer | Egress \<Rightarrow> target)
            \<and> exposes recv name (ps_protocol ps) family (pk_dport pk) (pk_dst pk))"

definition selects_addr :: "'n network_policy \<Rightarrow> pod list \<Rightarrow> ip_family \<Rightarrow> ip_addr \<Rightarrow> bool" where
  "selects_addr pol pods family a \<longleftrightarrow>
     of_addr a = family \<and> (\<exists>p\<in>set pods. policy_selects pol p \<and> a \<in> set (pod_ips p))"

definition rule_admits ::
  "'n ipnet_api \<Rightarrow> netfilter \<Rightarrow> pod list \<Rightarrow> namespace list \<Rightarrow> ip_family \<Rightarrow> direction \<Rightarrow> 'n network_policy \<Rightarrow> packet
     \<Rightarrow> 'n rule \<Rightarrow> bool" where
  "rule_admits api nf pods nss family dir pol pk rule \<longleftrightarrow>
     (let res = resolve_peers api (rule_peers rule) pods nss (pol_namespace pol) family;
          recv = receivers dir pol res pods family;
          target = selects_addr pol pods family (pk_addr (target_side dir) pk);
          peer = peers_admit nf res (pk_addr (peer_side dir) pk);
          live = (match_all res \<or> ip_entries res \<noteq> [] \<or> net_entries res \<noteq> [])
      in if rule_ports rule = [] then peer \<and> target
         else live \<and> (\<exists>ps\<in>set (rule_ports rule). port_admits dir recv family peer target pk ps))"

fun dir_rules :: "direction \<Rightarrow> 'n network_policy \<Rightarrow> 'n rule list" where
  "dir_rules Ingress pol = pol_ingress pol"
| "dir_rules Egress pol = pol_egress pol"

fun dir_on :: "direction \<Rightarrow> 'n network_policy \<Rightarrow> bool" where
  "dir_on Ingress pol = pt_ingress (pol_types pol)"
| "dir_on Egress pol = pt_egress (pol_types pol)"

definition dir_admits ::
  "'n ipnet_api \<Rightarrow> netfilter \<Rightarrow> pod list \<Rightarrow> namespace list \<Rightarrow> ip_family \<Rightarrow> packet \<Rightarrow> 'n network_policy \<Rightarrow> direction \<Rightarrow> bool" where
  "dir_admits api nf pods nss family pk pol dir \<longleftrightarrow>
     dir_on dir pol \<and> (\<exists>rule\<in>set (dir_rules dir pol). rule_admits api nf pods nss family dir pol pk rule)"

definition policy_admits ::
  "'n ipnet_api \<Rightarrow> netfilter \<Rightarrow> pod list \<Rightarrow> namespace list \<Rightarrow> ip_family \<Rightarrow> packet \<Rightarrow> 'n network_policy \<Rightarrow> bool" where
  "policy_admits api nf pods nss family pk pol \<longleftrightarrow>
     dir_admits api nf pods nss family pk pol Ingress \<or> dir_admits api nf pods nss family pk pol Egress"

section \<open>Loaded sets\<close>

definition set_holds :: "netfilter \<Rightarrow> ipset_plan \<Rightarrow> ip_addr \<Rightarrow> bool" where
  "set_holds nf st a = (case is_type st of
     HashIp \<Rightarrow> show_addr a \<in> set (is_entries st) | HashNet \<Rightarrow> nf_net_has nf (is_entries st) a)"

definition loaded :: "netfilter \<Rightarrow> ipset_plan list \<Rightarrow> bool" where
  "loaded nf sets \<longleftrightarrow> (\<forall>st\<in>set sets. \<forall>a. nf_set_has nf (is_name st) a = set_holds nf st a)"

lemma loadedD: "\<lbrakk> loaded nf sets; st \<in> set sets \<rbrakk> \<Longrightarrow> nf_set_has nf (is_name st) a = set_holds nf st a"
  by (simp add: loaded_def)

lemma loaded_append [simp]: "loaded nf (xs @ ys) \<longleftrightarrow> loaded nf xs \<and> loaded nf ys"
  by (auto simp: loaded_def)

lemma loaded_Cons [simp]:
  "loaded nf (st # sets) \<longleftrightarrow> (\<forall>a. nf_set_has nf (is_name st) a = set_holds nf st a) \<and> loaded nf sets"
  by (simp add: loaded_def)

lemma loaded_Nil [simp]: "loaded nf []"
  by (simp add: loaded_def)

lemma loaded_concat [simp]: "loaded nf (concat xss) \<longleftrightarrow> (\<forall>xs\<in>set xss. loaded nf xs)"
  by (auto simp: loaded_def)

section \<open>Named ports\<close>

lemma show_addr_mem_family:
  "show_addr a \<in> set (pod_family_ips p family) \<longleftrightarrow> a \<in> set (pod_ips p) \<and> of_addr a = family"
  by (auto simp: pod_family_ips_def show_addr_inj)

definition add_group :: "u16 \<times> string list \<Rightarrow> (u16 \<times> string list) list \<Rightarrow> (u16 \<times> string list) list" where
  "add_group = (\<lambda>(port, ips) g. bmap_insert port ((case map_of g port of Some xs \<Rightarrow> xs | None \<Rightarrow> []) @ ips) g)"

definition group_mem :: "(u16 \<times> string list) list \<Rightarrow> u16 \<Rightarrow> string \<Rightarrow> bool" where
  "group_mem g port t \<longleftrightarrow> (\<exists>ips. map_of g port = Some ips \<and> t \<in> set ips)"

lemma group_mem_add:
  "group_mem (add_group (port', ips) g) port t \<longleftrightarrow> group_mem g port t \<or> port = port' \<and> t \<in> set ips"
  by (cases "map_of g port'") (auto simp: add_group_def group_mem_def map_of_bmap_insert)

lemma fold_add_group:
  "group_mem (fold add_group es g) port t \<longleftrightarrow> group_mem g port t \<or> (\<exists>ips. (port, ips) \<in> set es \<and> t \<in> set ips)"
  by (induction es arbitrary: g) (auto simp: group_mem_add)

lemma fold_add_group_ok: "bmap_ok g \<Longrightarrow> bmap_ok (fold add_group es g)"
  by (induction es arbitrary: g) (auto simp: add_group_def bmap_ok_insert split: prod.split)

lemma group_mem_set: "bmap_ok g \<Longrightarrow> group_mem g port t \<longleftrightarrow> (\<exists>ips. (port, ips) \<in> set g \<and> t \<in> set ips)"
  unfolding group_mem_def by (metis bmap_ok_distinct map_of_eq_Some_iff)

text \<open>The groups hold exactly the receivers that expose the named port, by number.\<close>

lemma named_port_groups_exposes:
  "(\<exists>ips. (port, ips) \<in> set (named_port_groups recv name protocol family) \<and> show_addr a \<in> set ips)
     \<longleftrightarrow> exposes recv name protocol family port a"
proof -
  let ?es = "concat (map (\<lambda>p. List.map_filter (\<lambda>cp.
            if cp_name cp = Some name \<and> cp_protocol cp = protocol
            then Some (cp_port cp, pod_family_ips p family) else None) (pod_container_ports p)) recv)"
  have g: "named_port_groups recv name protocol family = fold add_group ?es []"
    by (simp add: named_port_groups_def add_group_def)
  have es: "(\<exists>ips. (port, ips) \<in> set ?es \<and> show_addr a \<in> set ips) \<longleftrightarrow>
      (\<exists>p\<in>set recv. show_addr a \<in> set (pod_family_ips p family) \<and>
         (\<exists>cp\<in>set (pod_container_ports p). cp_name cp = Some name \<and> cp_protocol cp = protocol \<and> cp_port cp = port))"
    by (simp add: set_map_filter) fastforce
  have "(\<exists>ips. (port, ips) \<in> set (fold add_group ?es []) \<and> show_addr a \<in> set ips)
      \<longleftrightarrow> (\<exists>ips. (port, ips) \<in> set ?es \<and> show_addr a \<in> set ips)"
    using fold_add_group [of ?es "[]" port "show_addr a"]
    by (simp add: group_mem_set fold_add_group_ok bmap_ok_Nil)
  also have "\<dots> \<longleftrightarrow> exposes recv name protocol family port a"
    unfolding es exposes_def by (simp add: show_addr_mem_family)
  finally show ?thesis by (simp add: g)
qed

section \<open>The match lists of a policy\<close>

fun port_matches ::
  "encoder \<Rightarrow> direction \<Rightarrow> 'n network_policy \<Rightarrow> nat \<Rightarrow> ip_family \<Rightarrow> pod list \<Rightarrow> rmatch list \<Rightarrow> rmatch list \<Rightarrow> port_spec
     \<Rightarrow> rmatch list list" where
  "port_matches enc dir pol idx family recv pm tm port =
     (case ps_port port of
        AllPorts \<Rightarrow> [pm @ tm @ [MProto (ps_protocol port)]]
      | PortNumber n \<Rightarrow> [pm @ tm @ [MProto (ps_protocol port), MDport n]]
      | PortName name \<Rightarrow>
          (let groups = named_port_groups recv name (ps_protocol port) family in
           map (\<lambda>(ep, (n, ips)). (case dir of Ingress \<Rightarrow> pm | Egress \<Rightarrow> tm)
                @ [MSet False (named_port_set enc dir pol idx ep family) Dst] @ [MProto (ps_protocol port), MDport n])
             (zip [0..<length groups] groups)))"

lemma snd_port_rules:
  "snd (port_rules enc pc dir pol idx family recv pm tm port) = verdicts pc (port_matches enc dir pol idx family recv pm tm port)"
  by (cases "ps_port port")
     (auto simp: push_policy_verdict_def named_port_rules_def Let_def verdicts_def comp_def
           intro!: arg_cong [where f = concat] map_cong)

definition rule_matches ::
  "'n ipnet_api \<Rightarrow> encoder \<Rightarrow> direction \<Rightarrow> string \<Rightarrow> 'n network_policy \<Rightarrow> pod list \<Rightarrow> namespace list
     \<Rightarrow> ip_family \<Rightarrow> nat \<Rightarrow> 'n rule \<Rightarrow> rmatch list list" where
  "rule_matches api enc dir tset pol pods nss family idx rule =
     (let tm = [MSet False tset (target_side dir)];
          res = resolve_peers api (rule_peers rule) pods nss (pol_namespace pol) family;
          recv = receivers dir pol res pods family
      in concat (map (\<lambda>pm. if rule_ports rule = [] then [pm @ tm]
           else concat (map (port_matches enc dir pol idx family recv pm tm) (rule_ports rule)))
         (snd (peer_match_plan enc dir pol idx family res))))"

lemma concat_map_if_verdicts:
  assumes "\<And>pm port. snd (f pm port) = verdicts pc (g pm port)" "\<And>pm. h pm = verdicts pc [k pm]"
  shows "concat (map snd (concat (map (\<lambda>pm. if b then [([], h pm)] else map (f pm) ports) pms)))
    = verdicts pc (concat (map (\<lambda>pm. if b then [k pm] else concat (map (g pm) ports)) pms))"
  using assms by (induction pms) (simp_all add: verdicts_concat comp_def map_concat)

lemma snd_emit_rule:
  "snd (emit_rule api enc pc dir tset pol pods nss family idx rule)
     = verdicts pc (rule_matches api enc dir tset pol pods nss family idx rule)"
  unfolding emit_rule_def rule_matches_def Let_def split_beta snd_conv
  by (rule concat_map_if_verdicts) (simp_all only: snd_port_rules push_verdict append_Nil2)

lemma mark_free_rule_matches: "list_all mark_free (rule_matches api enc dir tset pol pods nss family idx rule)"
proof -
  let ?res = "resolve_peers api (rule_peers rule) pods nss (pol_namespace pol) family"
  have pm: "mark_free pm" if "pm \<in> set (snd (peer_match_plan enc dir pol idx family ?res))" for pm
    using that by (auto simp: peer_match_plan_def split_beta Let_def split: if_splits)
  have pt: "mark_free ms" if "mark_free pm" "mark_free tm"
      "ms \<in> set (port_matches enc dir pol idx family recv pm tm port)" for ms pm tm recv port
    using that by (cases "ps_port port") (auto simp: Let_def split: direction.splits)
  have pt': "mark_free ms" if "pm \<in> set (snd (peer_match_plan enc dir pol idx family ?res))"
      "ms \<in> set (port_matches enc dir pol idx family recv pm [MSet False tset (target_side dir)] port)"
    for ms pm recv port
    using pt [OF pm [OF that(1)] _ that(2)] by simp
  show ?thesis
    by (auto simp: rule_matches_def Let_def list_all_iff pm simp del: port_matches.simps split: if_splits
             dest: pt')
qed

text \<open>The sets of one rule.\<close>

abbreviation res_of where
  "res_of api pods nss family pol rule \<equiv> resolve_peers api (rule_peers rule) pods nss (pol_namespace pol) family"

lemma concat_map_if_fst:
  "concat (map fst (concat (map (\<lambda>pm. if b then [([], h pm)] else map (f pm) ports) pms)))
     = concat (map (\<lambda>pm. if b then [] else concat (map (\<lambda>port. fst (f pm port)) ports)) pms)"
  by (induction pms) (simp_all add: comp_def)

lemma fst_emit_rule:
  "fst (emit_rule api enc pc dir tset pol pods nss family idx rule) =
     fst (peer_match_plan enc dir pol idx family (res_of api pods nss family pol rule))
     @ concat (map (\<lambda>pm. if rule_ports rule = [] then []
         else concat (map (\<lambda>port. fst (port_rules enc pc dir pol idx family
           (receivers dir pol (res_of api pods nss family pol rule) pods family) pm
           [MSet False tset (target_side dir)] port)) (rule_ports rule)))
       (snd (peer_match_plan enc dir pol idx family (res_of api pods nss family pol rule))))"
  unfolding emit_rule_def Let_def split_beta fst_conv concat_map_if_fst ..

lemma peers_hit:
  assumes "loaded nf (fst (peer_match_plan enc dir pol idx family res))"
  shows "(\<exists>pm\<in>set (snd (peer_match_plan enc dir pol idx family res)). hits nf pk pm)
    \<longleftrightarrow> peers_admit nf res (pk_addr (peer_side dir) pk)"
  using assms
  by (cases "match_all res"; cases "ip_entries res = []"; cases "net_entries res = []")
     (simp_all add: peer_match_plan_def split_beta Let_def peers_admit_def set_holds_def)


lemma set_zip_upt: "set (zip [0..<length xs] xs) = (\<lambda>i. (i, xs ! i)) ` {i. i < length xs}"
  unfolding set_zip image_def by (rule set_eqI) (auto, metis add_0 nth_upt)

lemma named_port_hit:
  assumes "loaded nf (fst (named_port_rules enc pc dir pol idx family pm tm protocol groups))"
  shows "(\<exists>x\<in>set (zip [0..<length groups] groups). nf_set_has nf (named_port_set enc dir pol idx (fst x) family) a
            \<and> port = fst (snd x))
    \<longleftrightarrow> (\<exists>ips. (port, ips) \<in> set groups \<and> show_addr a \<in> set ips)"
proof -
  have l: "nf_set_has nf (named_port_set enc dir pol idx ep family) a = (show_addr a \<in> set (snd (groups ! ep)))"
    if "ep < length groups" for ep
  proof -
    obtain n ips where g: "groups ! ep = (n, ips)" by (cases "groups ! ep")
    have "\<lparr> is_name = named_port_set enc dir pol idx ep family, is_type = HashIp, is_family = family,
        is_entries = btree_set ips \<rparr> \<in> set (fst (named_port_rules enc pc dir pol idx family pm tm protocol groups))"
      using that g by (force simp: named_port_rules_def Let_def set_zip)
    from loadedD [OF assms this, of a] show ?thesis by (simp add: set_holds_def g)
  qed
  have "(\<exists>x\<in>set (zip [0..<length groups] groups). nf_set_has nf (named_port_set enc dir pol idx (fst x) family) a
            \<and> port = fst (snd x))
      \<longleftrightarrow> (\<exists>ep<length groups. nf_set_has nf (named_port_set enc dir pol idx ep family) a \<and> port = fst (groups ! ep))"
    by (simp add: set_zip_upt Bex_def)
  also have "\<dots> \<longleftrightarrow> (\<exists>ep<length groups. show_addr a \<in> set (snd (groups ! ep)) \<and> port = fst (groups ! ep))"
    using l by blast
  also have "\<dots> \<longleftrightarrow> (\<exists>ips. (port, ips) \<in> set groups \<and> show_addr a \<in> set ips)"
    by (metis fst_conv snd_conv prod.collapse in_set_conv_nth)
  finally show ?thesis .
qed

lemma port_hit:
  assumes "loaded nf (fst (port_rules enc pc dir pol idx family recv pm tm port))"
  shows "(\<exists>ms\<in>set (port_matches enc dir pol idx family recv pm tm port). hits nf pk ms)
    \<longleftrightarrow> port_admits dir recv family (hits nf pk pm) (hits nf pk tm) pk port"
proof (cases "ps_port port")
  case (PortName name)
  let ?g = "named_port_groups recv name (ps_protocol port) family"
  have ld: "loaded nf (fst (named_port_rules enc pc dir pol idx family pm tm (ps_protocol port) ?g))"
    using assms PortName by simp
  have "(\<exists>ms\<in>set (port_matches enc dir pol idx family recv pm tm port). hits nf pk ms)
      \<longleftrightarrow> (case dir of Ingress \<Rightarrow> hits nf pk pm | Egress \<Rightarrow> hits nf pk tm) \<and> pk_proto pk = ps_protocol port
        \<and> (\<exists>x\<in>set (zip [0..<length ?g] ?g). nf_set_has nf (named_port_set enc dir pol idx (fst x) family) (pk_dst pk)
            \<and> pk_dport pk = fst (snd x))"
    by (cases dir) (auto simp: PortName Let_def split_beta)
  then show ?thesis
    unfolding named_port_hit [OF ld] named_port_groups_exposes
    by (cases dir) (auto simp: port_admits_def PortName)
qed (auto simp: port_admits_def)

lemma plan_live:
  "snd (peer_match_plan enc dir pol idx family res) \<noteq> [] \<longleftrightarrow>
     match_all res \<or> ip_entries res \<noteq> [] \<or> net_entries res \<noteq> []"
  by (simp add: peer_match_plan_def split_beta Let_def)

lemma port_admits_ex:
  "pms \<noteq> [] \<Longrightarrow> (\<exists>pm\<in>set pms. port_admits dir recv family (h pm) t pk ps)
     \<longleftrightarrow> port_admits dir recv family (\<exists>pm\<in>set pms. h pm) t pk ps"
  by (cases dir; cases "ps_port ps"; cases pms) (auto simp: port_admits_def)

text \<open>The packets a rule of the plan marks are those the rule admits.\<close>

lemma rule_hit:
  assumes ld: "loaded nf (fst (emit_rule api enc pc dir tset pol pods nss family idx rule))"
    and t: "nf_set_has nf tset (pk_addr (target_side dir) pk)
              = selects_addr pol pods family (pk_addr (target_side dir) pk)"
  shows "list_ex (hits nf pk) (rule_matches api enc dir tset pol pods nss family idx rule)
    \<longleftrightarrow> rule_admits api nf pods nss family dir pol pk rule"
proof -
  let ?res = "res_of api pods nss family pol rule"
  let ?pms = "snd (peer_match_plan enc dir pol idx family ?res)"
  let ?tm = "[MSet False tset (target_side dir)]"
  let ?recv = "receivers dir pol ?res pods family"
  let ?peer = "peers_admit nf ?res (pk_addr (peer_side dir) pk)"
  have peers: "(\<exists>pm\<in>set ?pms. hits nf pk pm) \<longleftrightarrow> ?peer"
    using ld by (intro peers_hit) (simp add: fst_emit_rule)
  have target: "hits nf pk ?tm = selects_addr pol pods family (pk_addr (target_side dir) pk)"
    using t by simp
  show ?thesis
  proof (cases "rule_ports rule = []")
    case True
    then show ?thesis
      using peers target unfolding rule_matches_def rule_admits_def Let_def
      by (simp add: list_ex_iff Bex_def)
  next
    case False
    have ports: "(\<exists>ms\<in>set (port_matches enc dir pol idx family ?recv pm ?tm port). hits nf pk ms)
        \<longleftrightarrow> port_admits dir ?recv family (hits nf pk pm) (hits nf pk ?tm) pk port"
      if "pm \<in> set ?pms" "port \<in> set (rule_ports rule)" for pm port
      by (rule port_hit [where pc = pc]) (use ld that False in \<open>simp add: fst_emit_rule\<close>)
    have "list_ex (hits nf pk) (rule_matches api enc dir tset pol pods nss family idx rule)
        \<longleftrightarrow> (\<exists>port\<in>set (rule_ports rule). \<exists>pm\<in>set ?pms.
              \<exists>ms\<in>set (port_matches enc dir pol idx family ?recv pm ?tm port). hits nf pk ms)"
      unfolding rule_matches_def Let_def list_ex_iff
      using False by (simp del: port_matches.simps) blast
    also have "\<dots> \<longleftrightarrow> (\<exists>port\<in>set (rule_ports rule). \<exists>pm\<in>set ?pms.
              port_admits dir ?recv family (hits nf pk pm) (hits nf pk ?tm) pk port)"
      using ports by blast
    also have "\<dots> \<longleftrightarrow> ?pms \<noteq> [] \<and> (\<exists>port\<in>set (rule_ports rule).
              port_admits dir ?recv family ?peer (hits nf pk ?tm) pk port)"
      using port_admits_ex [of ?pms dir ?recv family "hits nf pk"] peers
      by (cases "?pms = []") simp_all
    finally show ?thesis
      unfolding rule_admits_def Let_def plan_live target using False by simp
  qed
qed


section \<open>A policy chain\<close>

fun target_set :: "encoder \<Rightarrow> ip_family \<Rightarrow> 'n network_policy \<Rightarrow> direction \<Rightarrow> string" where
  "target_set enc family pol Ingress = dst_set enc (pol_namespace pol) (pol_name pol) family"
| "target_set enc family pol Egress = src_set enc (pol_namespace pol) (pol_name pol) family"

definition dir_matches ::
  "'n ipnet_api \<Rightarrow> encoder \<Rightarrow> pod list \<Rightarrow> namespace list \<Rightarrow> ip_family \<Rightarrow> 'n network_policy \<Rightarrow> direction \<Rightarrow> rmatch list list" where
  "dir_matches api enc pods nss family pol dir =
     (if dir_on dir pol then
        concat (map (\<lambda>(idx, rule). rule_matches api enc dir (target_set enc family pol dir) pol pods nss family idx rule)
          (zip [0..<length (dir_rules dir pol)] (dir_rules dir pol))) else [])"

lemma policy_direction_eq:
  "policy_direction api enc pc dir pol pods nss family =
     (\<lparr> is_name = target_set enc family pol dir, is_type = HashIp, is_family = family,
        is_entries = selected_ips pol pods family \<rparr>
        # fst (emit_policy_rules api enc pc (dir_rules dir pol) dir (target_set enc family pol dir) pol pods nss family),
      snd (emit_policy_rules api enc pc (dir_rules dir pol) dir (target_set enc family pol dir) pol pods nss family))"
  by (cases dir) (simp_all add: policy_direction_def split_beta Let_def)

lemma snd_policy_direction:
  "dir_on dir pol \<Longrightarrow>
     snd (policy_direction api enc pc dir pol pods nss family) = verdicts pc (dir_matches api enc pods nss family pol dir)"
  by (simp add: policy_direction_eq emit_policy_rules_def Let_def dir_matches_def verdicts_concat comp_def split_beta
        snd_emit_rule)

lemma mark_free_dir_matches: "list_all mark_free (dir_matches api enc pods nss family pol dir)"
  using mark_free_rule_matches unfolding dir_matches_def list_all_iff
  by (auto split: if_splits) fastforce

lemma selected_ips_iff:
  "show_addr a \<in> set (selected_ips pol pods family) \<longleftrightarrow> selects_addr pol pods family a"
  by (auto simp: selected_ips_def selects_addr_def show_addr_mem_family)

lemma dir_hit:
  assumes "dir_on dir pol \<Longrightarrow> loaded nf (fst (policy_direction api enc pc dir pol pods nss family))"
  shows "list_ex (hits nf pk) (dir_matches api enc pods nss family pol dir)
    \<longleftrightarrow> dir_admits api nf pods nss family pk pol dir"
proof (cases "dir_on dir pol")
  case True
  let ?t = "target_set enc family pol dir" and ?rules = "dir_rules dir pol"
  note ld = assms [OF True, unfolded policy_direction_eq fst_conv]
  have t: "nf_set_has nf ?t a = selects_addr pol pods family a" for a
    using ld by (simp add: set_holds_def selected_ips_iff)
  have "list_ex (hits nf pk) (rule_matches api enc dir ?t pol pods nss family idx rule)
      \<longleftrightarrow> rule_admits api nf pods nss family dir pol pk rule"
    if "(idx, rule) \<in> set (zip [0..<length ?rules] ?rules)" for idx rule
    by (rule rule_hit [where pc = pc]) (use ld that t in \<open>auto simp: emit_policy_rules_def Let_def\<close>)
  then have "list_ex (hits nf pk) (dir_matches api enc pods nss family pol dir)
      \<longleftrightarrow> (\<exists>x\<in>set (zip [0..<length ?rules] ?rules). rule_admits api nf pods nss family dir pol pk (snd x))"
    using True by (simp add: dir_matches_def list_ex_iff split_beta)
  also have "\<dots> \<longleftrightarrow> (\<exists>rule\<in>set ?rules. rule_admits api nf pods nss family dir pol pk rule)"
    by (auto simp: set_zip_upt in_set_conv_nth Bex_def)
  finally show ?thesis using True by (simp add: dir_admits_def)
qed (simp add: dir_matches_def dir_admits_def)

lemma policy_plan_eq:
  "policy_plan api enc pods nss family v pol =
     (let pc = policy_chain enc v family pol in
      ((if dir_on Ingress pol then fst (policy_direction api enc pc Ingress pol pods nss family) else [])
       @ (if dir_on Egress pol then fst (policy_direction api enc pc Egress pol pods nss family) else []),
       verdicts pc (dir_matches api enc pods nss family pol Ingress @ dir_matches api enc pods nss family pol Egress)))"
proof -
  have off: "dir_matches api enc pods nss family pol dir = []" if "\<not> dir_on dir pol" for dir
    using that by (simp add: dir_matches_def)
  show ?thesis
    by (auto simp: policy_plan_def Let_def split_beta off
          simp flip: snd_policy_direction [of Ingress pol api enc _ pods nss family, simplified]
                     snd_policy_direction [of Egress pol api enc _ pods nss family, simplified])
qed

text \<open>The chain of a policy marks the packets the policy admits.\<close>

lemma policy_chain_marks:
  assumes "chain_rules rs (policy_chain enc v family pol) = snd (policy_plan api enc pods nss family v pol)"
    and "loaded nf (fst (policy_plan api enc pods nss family v pol))"
  shows "chain_marks nf rs d pk (policy_chain enc v family pol) (policy_admits api nf pods nss family pk pol)"
proof -
  let ?pc = "policy_chain enc v family pol" and ?m = "dir_matches api enc pods nss family pol"
  have "chain_marks nf rs d pk ?pc (list_ex (hits nf pk) (?m Ingress @ ?m Egress))"
    using assms(1) by (intro chain_marks_verdicts) (simp_all add: policy_plan_eq Let_def mark_free_dir_matches)
  moreover have "list_ex (hits nf pk) (?m dir) \<longleftrightarrow> dir_admits api nf pods nss family pk pol dir" for dir
    using assms(2) by (intro dir_hit [where pc = ?pc]) (cases dir; simp add: policy_plan_eq Let_def split: if_splits)
  ultimately show ?thesis by (simp add: policy_admits_def list_ex_append)
qed


end
