(* ===== verification/Kr_NetpolPlan.thy ===== *)
theory Kr_NetpolPlan
  imports Kr_NetpolSpec
begin

text \<open>
  The whole plan of \<^verbatim>\<open>build_plan\<close>: the rules each chain gets, the traversal of the chain of a pod, and the
  traversal of the FORWARD chain, which decides every new packet as the policies of the pods at its ends
  promise.
\<close>

section \<open>Chains of the plan\<close>

definition base_chains :: "string list" where
  "base_chains = [ROUTER_INPUT, ROUTER_FORWARD, ROUTER_OUTPUT, NWPLCY_COMMON, NWPLCY_DEFAULT, NWPLCY_TAIL]"

lemmas chain_name_defs =
  ROUTER_INPUT_def ROUTER_FORWARD_def ROUTER_OUTPUT_def NWPLCY_COMMON_def NWPLCY_DEFAULT_def NWPLCY_TAIL_def

text \<open>The encoder of names gives at least the characters that are kept (base32 of a SHA-256 digest has 52).\<close>

definition wide :: "encoder \<Rightarrow> bool" where
  "wide enc \<longleftrightarrow> (\<forall>s. 16 \<le> length (enc s))"

lemma length_hash16: "wide enc \<Longrightarrow> length (hash16 enc s) = 16"
  by (simp add: wide_def hash16_def)

lemma chain_names_apart:
  assumes "wide enc"
  shows "pod_chain enc v p \<notin> set base_chains" "policy_chain enc v f pol \<notin> set base_chains"
    "policy_chain enc v f pol \<noteq> pod_chain enc v p"
proof -
  have len: "length (pod_chain enc v p) = 28" "length (policy_chain enc v f pol) = 28"
    using assms by (simp_all add: pod_chain_def pod_firewall_chain_def POD_FW_PREFIX_def policy_chain_def
      network_policy_chain_def NWPLCY_PREFIX_def length_hash16)
  have "length c < 28" if "c \<in> set base_chains" for c
    using that by (auto simp: base_chains_def chain_name_defs)
  then show "pod_chain enc v p \<notin> set base_chains" "policy_chain enc v f pol \<notin> set base_chains"
    using len by fastforce+
  show "policy_chain enc v f pol \<noteq> pod_chain enc v p"
    by (simp add: pod_chain_def pod_firewall_chain_def POD_FW_PREFIX_def policy_chain_def network_policy_chain_def
      NWPLCY_PREFIX_def)
qed

lemma chain_rules_append: "chain_rules (xs @ ys) c = chain_rules xs c @ chain_rules ys c"
  by (simp add: chain_rules_def)

lemma chain_rules_simps [simp]:
  "chain_rules [] c = []"
  "chain_rules (r # rl) c = (if r_chain r = c then r # chain_rules rl c else chain_rules rl c)"
  by (simp_all add: chain_rules_def)

lemma chain_rules_other: "(\<And>r. r \<in> set xs \<Longrightarrow> r_chain r \<noteq> c) \<Longrightarrow> chain_rules xs c = []"
  by (auto simp: chain_rules_def filter_empty_conv)

lemma chain_rules_all: "(\<And>r. r \<in> set xs \<Longrightarrow> r_chain r = c) \<Longrightarrow> chain_rules xs c = xs"
  by (auto simp: chain_rules_def intro: filter_True)

lemma chain_rules_concat: "chain_rules (concat xss) c = concat (map (\<lambda>xs. chain_rules xs c) xss)"
  by (simp add: chain_rules_def filter_concat)

lemma chain_rules_part:
  assumes "x \<in> set xs" "distinct (map g xs)"
    and "\<And>y. y \<in> set xs \<Longrightarrow> g y \<noteq> g x \<Longrightarrow> chain_rules (f y) (g x) = []"
  shows "chain_rules (concat (map f xs)) (g x) = chain_rules (f x) (g x)"
  using assms
proof (induction xs)
  case (Cons y ys)
  show ?case
  proof (cases "y = x")
    case True
    have "chain_rules (f z) (g x) = []" if "z \<in> set ys" for z
      using Cons.prems that True by (intro Cons.prems(3)) (auto simp: image_def)
    then show ?thesis by (simp add: True chain_rules_append chain_rules_concat concat_eq_Nil_conv)
  next
    case False
    then have "x \<in> set ys" "g y \<noteq> g x" using Cons.prems by (auto simp: image_def)
    then show ?thesis using Cons by (simp add: chain_rules_append)
  qed
qed simp

lemma r_chain_policy_plan:
  "r \<in> set (snd (policy_plan api enc pods nss family v pol)) \<Longrightarrow> r_chain r = policy_chain enc v family pol"
  by (auto simp: policy_plan_eq Let_def dest: r_chain_verdicts)

lemma r_chain_pod_rules:
  "r \<in> set (pod_rules enc v family policies p) \<Longrightarrow>
     r_chain r \<in> {pod_chain enc v p, ROUTER_INPUT, ROUTER_FORWARD, ROUTER_OUTPUT}"
  by (auto simp: pod_rules_def Let_def pod_chain_rules_def pod_ip_jumps_def policy_jump_def intercept_rules_def
           split: if_splits)

lemma r_chain_common: "r \<in> set (common_rules family) \<Longrightarrow> r_chain r \<in> {NWPLCY_COMMON, NWPLCY_DEFAULT}"
  by (auto simp: common_rules_def)

lemma r_chain_input: "r \<in> set (input_rules api family ranges ports) \<Longrightarrow> r_chain r = ROUTER_INPUT"
  by (auto simp: input_rules_def split: option.splits)

lemma r_chain_tail: "r \<in> set (tail_rules api family dd cidrs) \<Longrightarrow> r_chain r = NWPLCY_TAIL"
  by (auto simp: tail_rules_def Let_def split: if_splits)

text \<open>Names are distinct where the plan needs them to be.\<close>

definition names_distinct ::
  "encoder \<Rightarrow> 'n network_policy list \<Rightarrow> pod list \<Rightarrow> string \<Rightarrow> ip_family \<Rightarrow> string \<Rightarrow> bool" where
  "names_distinct enc policies pods node family v \<longleftrightarrow>
     distinct (map (policy_chain enc v family) (filter applies policies))
     \<and> distinct (map (pod_chain enc v) (firewalled_pods policies pods node family))"

text \<open>The inputs of a plan, packed for the statements about it.\<close>

record 'n plan_input =
  pi_policies :: "'n network_policy list"
  pi_pods :: "pod list"
  pi_namespaces :: "namespace list"
  pi_node :: string
  pi_family :: ip_family
  pi_version :: string
  pi_default_deny :: bool
  pi_pod_cidrs :: "'n list"
  pi_cluster_ranges :: "'n list"
  pi_node_ports :: "string option"

definition plan_of :: "'n ipnet_api \<Rightarrow> encoder \<Rightarrow> 'n plan_input \<Rightarrow> firewall_plan" where
  "plan_of api enc w = build_plan api enc (pi_policies w) (pi_pods w) (pi_namespaces w) (pi_node w) (pi_family w)
     (pi_version w) (pi_default_deny w) (pi_pod_cidrs w) (pi_cluster_ranges w) (pi_node_ports w)"

definition fw_pods :: "'n plan_input \<Rightarrow> pod list" where
  "fw_pods w = firewalled_pods (pi_policies w) (pi_pods w) (pi_node w) (pi_family w)"

abbreviation w_policy_plan where
  "w_policy_plan api enc w \<equiv> policy_plan api enc (pi_pods w) (pi_namespaces w) (pi_family w) (pi_version w)"

abbreviation w_pod_rules where
  "w_pod_rules enc w \<equiv> pod_rules enc (pi_version w) (pi_family w) (pi_policies w)"

lemma plan_rules:
  "fp_rules (plan_of api enc w) =
     common_rules (pi_family w) @ input_rules api (pi_family w) (pi_cluster_ranges w) (pi_node_ports w)
     @ concat (map (\<lambda>pol. snd (w_policy_plan api enc w pol)) (filter applies (pi_policies w)))
     @ concat (map (w_pod_rules enc w) (fw_pods w))
     @ tail_rules api (pi_family w) (pi_default_deny w) (pi_pod_cidrs w)
     @ map (\<lambda>c. mk c [] (Jump NWPLCY_TAIL)) [ROUTER_INPUT, ROUTER_FORWARD, ROUTER_OUTPUT]"
  by (simp add: plan_of_def build_plan_def Let_def fw_pods_def comp_def)

lemma plan_sets:
  "pol \<in> set (pi_policies w) \<Longrightarrow> applies pol \<Longrightarrow>
     set (fst (w_policy_plan api enc w pol)) \<subseteq> set (fp_ipsets (plan_of api enc w))"
  by (auto simp: plan_of_def build_plan_def Let_def)

lemma chain_rules_pod_other:
  "\<lbrakk> c \<noteq> pod_chain enc v p; c \<notin> set base_chains \<rbrakk> \<Longrightarrow> chain_rules (pod_rules enc v family policies p) c = []"
  by (rule chain_rules_other) (auto simp: base_chains_def dest!: r_chain_pod_rules)

lemma chain_rules_policy_other:
  "c \<noteq> policy_chain enc v family pol \<Longrightarrow> chain_rules (snd (policy_plan api enc pods nss family v pol)) c = []"
  by (rule chain_rules_other) (auto dest: r_chain_policy_plan)

text \<open>A chain that is no top-level chain gets rules from the policies and the pods only.\<close>

lemma plan_private_chain:
  assumes "c \<notin> set base_chains"
  shows "chain_rules (fp_rules (plan_of api enc w)) c =
    chain_rules (concat (map (\<lambda>pol. snd (w_policy_plan api enc w pol)) (filter applies (pi_policies w)))) c
    @ chain_rules (concat (map (w_pod_rules enc w) (fw_pods w))) c"
proof -
  have "chain_rules (common_rules (pi_family w)) c = []"
    using assms by (intro chain_rules_other) (auto simp: base_chains_def dest!: r_chain_common)
  moreover have "chain_rules (input_rules api (pi_family w) (pi_cluster_ranges w) (pi_node_ports w)) c = []"
    using assms by (intro chain_rules_other) (auto simp: base_chains_def dest!: r_chain_input)
  moreover have "chain_rules (tail_rules api (pi_family w) (pi_default_deny w) (pi_pod_cidrs w)) c = []"
    using assms by (intro chain_rules_other) (auto simp: base_chains_def dest!: r_chain_tail)
  moreover have "chain_rules (map (\<lambda>c. mk c [] (Jump NWPLCY_TAIL)) [ROUTER_INPUT, ROUTER_FORWARD, ROUTER_OUTPUT]) c = []"
    using assms by (intro chain_rules_other) (auto simp: base_chains_def)
  ultimately show ?thesis
    by (simp only: plan_rules chain_rules_append append_Nil append_Nil2)
qed

abbreviation w_names_distinct where
  "w_names_distinct enc w \<equiv> names_distinct enc (pi_policies w) (pi_pods w) (pi_node w) (pi_family w) (pi_version w)"

lemma policy_chain_of_plan:
  assumes "wide enc" "w_names_distinct enc w" "pol \<in> set (pi_policies w)" "applies pol"
  shows "chain_rules (fp_rules (plan_of api enc w)) (policy_chain enc (pi_version w) (pi_family w) pol)
    = snd (w_policy_plan api enc w pol)"
proof -
  let ?g = "policy_chain enc (pi_version w) (pi_family w)"
  have "chain_rules (concat (map (\<lambda>pol. snd (w_policy_plan api enc w pol)) (filter applies (pi_policies w)))) (?g pol)
      = chain_rules (snd (w_policy_plan api enc w pol)) (?g pol)"
    using assms by (intro chain_rules_part) (auto simp: names_distinct_def intro!: chain_rules_policy_other)
  also have "\<dots> = snd (w_policy_plan api enc w pol)"
    by (rule chain_rules_all) (rule r_chain_policy_plan)
  finally show ?thesis
    by (simp add: plan_private_chain chain_rules_concat chain_rules_pod_other comp_def chain_names_apart(2,3) [OF assms(1)])
qed

lemma pod_chain_of_plan:
  assumes "wide enc" "w_names_distinct enc w" "p \<in> set (fw_pods w)"
  shows "chain_rules (fp_rules (plan_of api enc w)) (pod_chain enc (pi_version w) p)
    = pod_chain_rules enc (pi_version w) (pi_family w) (pod_chain enc (pi_version w) p)
        (selecting (pi_policies w) p) (pod_family_ips p (pi_family w))"
proof -
  let ?g = "pod_chain enc (pi_version w)"
  note apart = chain_names_apart(1) [OF assms(1)]
  have "chain_rules (concat (map (w_pod_rules enc w) (fw_pods w))) (?g p) = chain_rules (w_pod_rules enc w p) (?g p)"
    using assms(2,3) apart
    by (intro chain_rules_part) (auto simp: names_distinct_def fw_pods_def intro!: chain_rules_pod_other)
  moreover have "chain_rules (pod_chain_rules enc (pi_version w) (pi_family w) (?g p) pols ips) (?g p)
      = pod_chain_rules enc (pi_version w) (pi_family w) (?g p) pols ips" for pols :: "'a network_policy list" and ips
    by (rule chain_rules_all) (auto simp: pod_chain_rules_def pod_ip_jumps_def policy_jump_def split: if_splits)
  moreover have "chain_rules (concat (map (intercept_rules (?g p)) ips)) (?g p) = []" for ips
    using apart [of "pi_version w" p]
    by (intro chain_rules_other) (auto simp: intercept_rules_def base_chains_def)
  moreover have "chain_rules (concat (map (\<lambda>pol. snd (w_policy_plan api enc w pol)) (filter applies (pi_policies w)))) (?g p) = []"
    unfolding chain_rules_concat
    by (auto simp: concat_eq_Nil_conv chain_rules_policy_other chain_names_apart(3) [OF assms(1), THEN not_sym])
  ultimately show ?thesis
    using apart by (simp add: plan_private_chain pod_rules_def Let_def chain_rules_append)
qed

section \<open>The common, default and tail chains\<close>

lemma base_names_apart [simp]:
  "ROUTER_INPUT \<noteq> ROUTER_FORWARD" "ROUTER_INPUT \<noteq> ROUTER_OUTPUT" "ROUTER_INPUT \<noteq> NWPLCY_COMMON" "ROUTER_INPUT \<noteq> NWPLCY_DEFAULT" "ROUTER_INPUT \<noteq> NWPLCY_TAIL"
  "ROUTER_FORWARD \<noteq> ROUTER_INPUT" "ROUTER_FORWARD \<noteq> ROUTER_OUTPUT" "ROUTER_FORWARD \<noteq> NWPLCY_COMMON" "ROUTER_FORWARD \<noteq> NWPLCY_DEFAULT" "ROUTER_FORWARD \<noteq> NWPLCY_TAIL"
  "ROUTER_OUTPUT \<noteq> ROUTER_INPUT" "ROUTER_OUTPUT \<noteq> ROUTER_FORWARD" "ROUTER_OUTPUT \<noteq> NWPLCY_COMMON" "ROUTER_OUTPUT \<noteq> NWPLCY_DEFAULT" "ROUTER_OUTPUT \<noteq> NWPLCY_TAIL"
  "NWPLCY_COMMON \<noteq> ROUTER_INPUT" "NWPLCY_COMMON \<noteq> ROUTER_FORWARD" "NWPLCY_COMMON \<noteq> ROUTER_OUTPUT" "NWPLCY_COMMON \<noteq> NWPLCY_DEFAULT" "NWPLCY_COMMON \<noteq> NWPLCY_TAIL"
  "NWPLCY_DEFAULT \<noteq> ROUTER_INPUT" "NWPLCY_DEFAULT \<noteq> ROUTER_FORWARD" "NWPLCY_DEFAULT \<noteq> ROUTER_OUTPUT" "NWPLCY_DEFAULT \<noteq> NWPLCY_COMMON" "NWPLCY_DEFAULT \<noteq> NWPLCY_TAIL"
  "NWPLCY_TAIL \<noteq> ROUTER_INPUT" "NWPLCY_TAIL \<noteq> ROUTER_FORWARD" "NWPLCY_TAIL \<noteq> ROUTER_OUTPUT" "NWPLCY_TAIL \<noteq> NWPLCY_COMMON" "NWPLCY_TAIL \<noteq> NWPLCY_DEFAULT"
  by (simp_all add: chain_name_defs)

lemma base_chain_of_policies:
  assumes "wide enc" "c \<in> set base_chains"
  shows "chain_rules (concat (map (\<lambda>pol. snd (policy_plan api enc pods nss family v pol)) pols)) c = []"
  unfolding chain_rules_concat
  using assms chain_names_apart(2) [OF assms(1)]
  by (auto simp: concat_eq_Nil_conv intro!: chain_rules_policy_other)

lemma base_chain_of_pods:
  assumes "wide enc" "c \<in> {NWPLCY_COMMON, NWPLCY_DEFAULT, NWPLCY_TAIL}"
  shows "chain_rules (concat (map (pod_rules enc v family policies) ps)) c = []"
proof (rule chain_rules_other)
  fix r assume "r \<in> set (concat (map (pod_rules enc v family policies) ps))"
  then obtain p where "r_chain r \<in> {pod_chain enc v p, ROUTER_INPUT, ROUTER_FORWARD, ROUTER_OUTPUT}"
    by (auto dest: r_chain_pod_rules)
  moreover have "pod_chain enc v p \<noteq> c"
    using chain_names_apart(1) [OF assms(1), of v p] assms(2) by (auto simp: base_chains_def)
  ultimately show "r_chain r \<noteq> c"
    using assms(2) by auto
qed

definition icmp_rules :: "ip_family \<Rightarrow> fw_rule list" where
  "icmp_rules family =
     map (\<lambda>(proto, flag, kind). mk NWPLCY_COMMON [MProto proto, MIcmpType flag kind] Accept) (common_icmp_rules family)"

lemma common_chain_of_plan:
  assumes "wide enc"
  shows "chain_rules (fp_rules (plan_of api enc w)) NWPLCY_COMMON =
    [mk NWPLCY_COMMON [MCtState ''INVALID''] Drop, mk NWPLCY_COMMON [MCtState ''RELATED,ESTABLISHED''] Accept]
      @ icmp_rules (pi_family w)"
    and "chain_rules (fp_rules (plan_of api enc w)) NWPLCY_DEFAULT = [mk NWPLCY_DEFAULT [] (SetXmark MARK_MATCHED)]"
    and "chain_rules (fp_rules (plan_of api enc w)) NWPLCY_TAIL = tail_rules api (pi_family w) (pi_default_deny w) (pi_pod_cidrs w)"
proof -
  have b: "set base_chains = {ROUTER_INPUT, ROUTER_FORWARD, ROUTER_OUTPUT, NWPLCY_COMMON, NWPLCY_DEFAULT, NWPLCY_TAIL}"
    by (simp add: base_chains_def)
  have icmp: "chain_rules (icmp_rules f) NWPLCY_COMMON = icmp_rules f" "chain_rules (icmp_rules f) NWPLCY_DEFAULT = []"
      "chain_rules (icmp_rules f) NWPLCY_TAIL = []" for f
    by (auto simp: icmp_rules_def chain_rules_def filter_empty_conv intro!: filter_True)
  have inp: "chain_rules (input_rules api f x y) c = []" if "c \<noteq> ROUTER_INPUT" for c f x y
    using that by (intro chain_rules_other) (auto dest: r_chain_input)
  have tl: "chain_rules (tail_rules api f x y) c = []" if "c \<noteq> NWPLCY_TAIL" for c f x y
    using that by (intro chain_rules_other) (auto dest: r_chain_tail)
  have tl': "chain_rules (tail_rules api f x y) NWPLCY_TAIL = tail_rules api f x y" for f x y
    by (rule chain_rules_all) (rule r_chain_tail)
  note parts = plan_rules chain_rules_append base_chain_of_policies [OF assms] base_chain_of_pods [OF assms] inp tl
    common_rules_def icmp_rules_def [symmetric] b icmp tl'
  show "chain_rules (fp_rules (plan_of api enc w)) NWPLCY_COMMON =
      [mk NWPLCY_COMMON [MCtState ''INVALID''] Drop, mk NWPLCY_COMMON [MCtState ''RELATED,ESTABLISHED''] Accept]
      @ icmp_rules (pi_family w)"
    by (simp add: parts)
  show "chain_rules (fp_rules (plan_of api enc w)) NWPLCY_DEFAULT = [mk NWPLCY_DEFAULT [] (SetXmark MARK_MATCHED)]"
    by (simp add: parts)
  show "chain_rules (fp_rules (plan_of api enc w)) NWPLCY_TAIL = tail_rules api (pi_family w) (pi_default_deny w) (pi_pod_cidrs w)"
    by (simp add: parts)
qed

text \<open>A packet that opens a connection and is no ICMP message.\<close>

definition opens :: "packet \<Rightarrow> bool" where
  "opens pk \<longleftrightarrow> pk_ctstate pk \<notin> {''INVALID'', ''RELATED'', ''ESTABLISHED''} \<and> pk_icmp pk = None"

lemma split_states: "set (split_on CHR '','' ''INVALID'') = {''INVALID''}"
    "set (split_on CHR '','' ''RELATED,ESTABLISHED'') = {''RELATED'', ''ESTABLISHED''}"
  by simp_all

lemma eval_no_hit:
  "(\<And>r. r \<in> set rl \<Longrightarrow> mark_free (r_matches r) \<and> \<not> hits nf pk (r_matches r)) \<Longrightarrow>
     eval_rules nf rs d pk rl mark = Some (Next mark)"
  by (induction rl) (simp_all add: hits_eval)

lemma common_chain_passes:
  assumes "wide enc" "opens pk"
  shows "chain_marks nf (fp_rules (plan_of api enc w)) d pk NWPLCY_COMMON False"
proof -
  have "eval_chain nf (fp_rules (plan_of api enc w)) d pk NWPLCY_COMMON mark = Some (Next mark)" for mark
    unfolding common_chain_of_plan(1) [OF assms(1)] using assms(2)
    by (intro eval_no_hit) (auto simp: icmp_rules_def opens_def split_states)
  then show ?thesis by (simp add: chain_marks_def)
qed

lemma default_chain_marks:
  "wide enc \<Longrightarrow> chain_marks nf (fp_rules (plan_of api enc w)) d pk NWPLCY_DEFAULT True"
  by (simp add: chain_marks_def common_chain_of_plan set_xmark_matched)


section \<open>The chain of a pod\<close>

definition addr_texts :: "netfilter \<Rightarrow> bool" where
  "addr_texts nf \<longleftrightarrow> (\<forall>a b. nf_addr_has nf (show_addr a) b \<longleftrightarrow> b = a)"

fun gate :: "policy_types \<Rightarrow> ip_addr \<Rightarrow> packet \<Rightarrow> bool" where
  "gate types a pk =
     (if pt_ingress types \<and> pt_egress types then True
      else if pt_ingress types then pk_dst pk = a else pk_src pk = a)"

definition family_addrs :: "pod \<Rightarrow> ip_family \<Rightarrow> ip_addr list" where
  "family_addrs p family = filter (\<lambda>ip. of_addr ip = family) (pod_ips p)"

lemma pod_family_ips_addrs: "pod_family_ips p family = map show_addr (family_addrs p family)"
  by (simp add: pod_family_ips_def family_addrs_def)

text \<open>What the policies that select a pod promise for a packet at the pod.\<close>

definition pod_admits :: "'n ipnet_api \<Rightarrow> netfilter \<Rightarrow> 'n plan_input \<Rightarrow> packet \<Rightarrow> pod \<Rightarrow> bool" where
  "pod_admits api nf w pk p \<longleftrightarrow>
     (let pols = selecting (pi_policies w) p in
      \<exists>a\<in>set (family_addrs p (pi_family w)).
        (\<exists>pol\<in>set pols. gate (pol_types pol) a pk
            \<and> policy_admits api nf (pi_pods w) (pi_namespaces w) (pi_family w) pk pol)
        \<or> (\<not> has_ingress pols \<and> pk_dst pk = a) \<or> (\<not> has_egress pols \<and> pk_src pk = a))"

text \<open>A plan in force: names apart, sets loaded, addresses matched by value.\<close>

definition in_force :: "'n ipnet_api \<Rightarrow> encoder \<Rightarrow> netfilter \<Rightarrow> 'n plan_input \<Rightarrow> bool" where
  "in_force api enc nf w \<longleftrightarrow>
     wide enc \<and> w_names_distinct enc w \<and> loaded nf (fp_ipsets (plan_of api enc w)) \<and> addr_texts nf"

lemma policy_jump_marks:
  assumes f: "in_force api enc nf w" and pol: "pol \<in> set (pi_policies w)" "applies pol"
  shows "marking nf (fp_rules (plan_of api enc w)) (Suc d) pk
    [policy_jump c (policy_chain enc (pi_version w) (pi_family w) pol) (pol_types pol) (show_addr a)]
    (gate (pol_types pol) a pk \<and> policy_admits api nf (pi_pods w) (pi_namespaces w) (pi_family w) pk pol)"
proof -
  let ?pc = "policy_chain enc (pi_version w) (pi_family w) pol" and ?rs = "fp_rules (plan_of api enc w)"
  have ld: "loaded nf (fst (w_policy_plan api enc w pol))"
    using f plan_sets [OF pol, of api enc] by (auto simp: in_force_def loaded_def)
  have marks: "chain_marks nf ?rs d pk ?pc (policy_admits api nf (pi_pods w) (pi_namespaces w) (pi_family w) pk pol)"
    using f pol by (intro policy_chain_marks [OF _ ld] policy_chain_of_plan) (simp_all add: in_force_def)
  have addr: "nf_addr_has nf (show_addr a) b \<longleftrightarrow> b = a" for b
    using f by (simp add: in_force_def addr_texts_def)
  show ?thesis
    using marking_jump [of "[]", OF _ marks, of c] marking_jump [of "[MAddr Dst (show_addr a)]", OF _ marks, of c]
      marking_jump [of "[MAddr Src (show_addr a)]", OF _ marks, of c]
    by (auto simp: policy_jump_def addr)
qed

lemma pod_ip_jumps_mark:
  assumes f: "in_force api enc nf w" and pols: "set pols \<subseteq> set (filter applies (pi_policies w))"
  shows "marking nf (fp_rules (plan_of api enc w)) (Suc d) pk
    (pod_ip_jumps enc (pi_version w) (pi_family w) c pols (show_addr a))
    ((\<exists>pol\<in>set pols. gate (pol_types pol) a pk
        \<and> policy_admits api nf (pi_pods w) (pi_namespaces w) (pi_family w) pk pol)
      \<or> (\<not> has_ingress pols \<and> pk_dst pk = a) \<or> (\<not> has_egress pols \<and> pk_src pk = a))"
proof -
  let ?rs = "fp_rules (plan_of api enc w)"
  have addr: "nf_addr_has nf (show_addr a) b \<longleftrightarrow> b = a" for b
    using f by (simp add: in_force_def addr_texts_def)
  have default: "marking nf ?rs (Suc d) pk
      (if b then [mk c [MAddr s (show_addr a)] (Jump NWPLCY_DEFAULT)] else []) (b \<and> pk_addr s pk = a)" for b s
    using marking_jump [of "[MAddr s (show_addr a)]", OF _ default_chain_marks, of enc nf api w d pk c] f
    by (auto simp: in_force_def addr marking_Nil)
  show ?thesis
    unfolding pod_ip_jumps_def
    using pols default [of "\<not> has_ingress pols" Dst] default [of "\<not> has_egress pols" Src]
    by (intro marking_append marking_map policy_jump_marks f) auto
qed

lemma pod_chain_tail:
  "eval_rules nf rs d pk [mk c [MMark True MARK_MATCHED] Nflog, mk c [MMark True MARK_MATCHED] (reject_target family),
      mk c [] (SetMark ''0/0x10000''), mk c [] (SetMark MARK_ACCEPTED)] mark
     = Some (if is_matched mark then Next (mark_accepted mark) else Final Rejected)"
  by (cases family) (simp_all add: has_mark_matched set_mark_accepted)

text \<open>The chain of a pod accepts a new packet exactly when its policies admit it.\<close>

lemma pod_chain_decides:
  assumes f: "in_force api enc nf w" and p: "p \<in> set (fw_pods w)"
    and pk: "opens pk" "\<not> pk_src_local pk" and m: "\<not> is_matched mark"
  shows "eval_chain nf (fp_rules (plan_of api enc w)) (Suc d) pk (pod_chain enc (pi_version w) p) mark
    = Some (if pod_admits api nf w pk p then Next (mark_accepted mark) else Final Rejected)"
proof -
  let ?rs = "fp_rules (plan_of api enc w)" and ?c = "pod_chain enc (pi_version w) p"
  let ?pols = "selecting (pi_policies w) p" and ?addrs = "family_addrs p (pi_family w)"
  have w: "wide enc" "w_names_distinct enc w" using f by (simp_all add: in_force_def)
  have common: "marking nf ?rs (Suc d) pk [mk ?c [] (Jump NWPLCY_COMMON)] False"
    using marking_jump [of "[]", OF _ common_chain_passes [OF w(1) pk(1)]] by simp
  have "eval_rules nf ?rs (Suc d) pk (map (\<lambda>ip. mk ?c [MLocal Src, MAddr Dst ip] Accept) ips) mark = Some (Next mark)"
    for ips mark using pk(2) by (intro eval_no_hit) auto
  then have loc: "marking nf ?rs (Suc d) pk (map (\<lambda>ip. mk ?c [MLocal Src, MAddr Dst ip] Accept) ips) False" for ips
    by (simp add: marking_def)
  have jumps: "marking nf ?rs (Suc d) pk
      (concat (map (\<lambda>a. pod_ip_jumps enc (pi_version w) (pi_family w) ?c ?pols (show_addr a)) ?addrs))
      (pod_admits api nf w pk p)"
    unfolding pod_admits_def Let_def by (intro marking_concat pod_ip_jumps_mark f) (auto simp: selecting_def)
  have "marking nf ?rs (Suc d) pk ([mk ?c [] (Jump NWPLCY_COMMON)]
      @ map (\<lambda>ip. mk ?c [MLocal Src, MAddr Dst ip] Accept) (pod_family_ips p (pi_family w))
      @ concat (map (pod_ip_jumps enc (pi_version w) (pi_family w) ?c ?pols) (pod_family_ips p (pi_family w))))
      (pod_admits api nf w pk p)"
    using marking_append [OF common marking_append [OF loc [of "pod_family_ips p (pi_family w)"] jumps]] by (simp add: pod_family_ips_addrs comp_def)
  note marking_then [OF this, unfolded append_assoc]
  then show ?thesis
    unfolding pod_chain_of_plan [OF w p] pod_chain_rules_def by (simp only: pod_chain_tail) (simp add: m)
qed


section \<open>The FORWARD chain\<close>

definition endpoint :: "'n plan_input \<Rightarrow> packet \<Rightarrow> pod \<Rightarrow> bool" where
  "endpoint w pk p \<longleftrightarrow> (\<exists>a\<in>set (family_addrs p (pi_family w)). pk_src pk = a \<or> pk_dst pk = a)"

text \<open>\<open>judging\<close>: the rules reject the packet when \<open>deny\<close>, and else leave the accept mark when \<open>hit\<close>.\<close>

definition judging :: "netfilter \<Rightarrow> fw_rule list \<Rightarrow> nat \<Rightarrow> packet \<Rightarrow> fw_rule list \<Rightarrow> bool \<Rightarrow> bool \<Rightarrow> bool" where
  "judging nf rs d pk js hit deny \<longleftrightarrow>
     (\<forall>mark. \<not> is_matched mark \<longrightarrow> eval_rules nf rs d pk js mark =
        Some (if deny then Final Rejected else Next (if hit then mark_accepted mark else mark)))"

lemma judging_Nil: "judging nf rs d pk [] False False"
  by (simp add: judging_def)

lemma judging_append:
  "\<lbrakk> judging nf rs d pk xs h1 d1; judging nf rs d pk ys h2 d2 \<rbrakk> \<Longrightarrow> judging nf rs d pk (xs @ ys) (h1 \<or> h2) (d1 \<or> d2)"
  unfolding judging_def by (auto simp: eval_rules_append)

lemma judging_concat:
  assumes "\<And>x. x \<in> set xs \<Longrightarrow> judging nf rs d pk (f x) (h x) (e x)"
  shows "judging nf rs d pk (concat (map f xs)) (\<exists>x\<in>set xs. h x) (\<exists>x\<in>set xs. e x)"
  using assms
proof (induction xs)
  case (Cons x xs)
  have "judging nf rs d pk (f x @ concat (map f xs)) (h x \<or> (\<exists>x\<in>set xs. h x)) (e x \<or> (\<exists>x\<in>set xs. e x))"
    using Cons by (intro judging_append) auto
  then show ?case by simp
qed (simp add: judging_Nil)

lemma judging_jump:
  assumes "mark_free ms" "\<And>mark. \<not> is_matched mark \<Longrightarrow> eval_chain nf rs d pk c mark
      = Some (if ok then Next (mark_accepted mark) else Final Rejected)"
  shows "judging nf rs (Suc d) pk [mk x ms (Jump c)] (hits nf pk ms) (hits nf pk ms \<and> \<not> ok)"
  using assms by (simp add: judging_def hits_eval)

lemma judging_cong: "\<lbrakk> judging nf rs d pk js h e; h = h'; e = e' \<rbrakk> \<Longrightarrow> judging nf rs d pk js h' e'"
  by simp

definition forward_jumps :: "string \<Rightarrow> string \<Rightarrow> fw_rule list" where
  "forward_jumps podchain ip =
     [mk ROUTER_FORWARD [MAddr Dst ip] (Jump podchain)] @ [mk ROUTER_FORWARD [MBridged, MAddr Dst ip] (Jump podchain)]
     @ [mk ROUTER_FORWARD [MAddr Src ip] (Jump podchain)] @ [mk ROUTER_FORWARD [MBridged, MAddr Src ip] (Jump podchain)]"

lemma forward_chain_of_plan:
  assumes "wide enc"
  shows "chain_rules (fp_rules (plan_of api enc w)) ROUTER_FORWARD =
    concat (map (\<lambda>p. concat (map (\<lambda>a. forward_jumps (pod_chain enc (pi_version w) p) (show_addr a))
      (family_addrs p (pi_family w)))) (fw_pods w)) @ [mk ROUTER_FORWARD [] (Jump NWPLCY_TAIL)]"
proof -
  have b: "ROUTER_FORWARD \<in> set base_chains" by (simp add: base_chains_def)
  have pc: "pod_chain enc v p \<noteq> ROUTER_FORWARD" for v p
    using chain_names_apart(1) [OF assms, of v p] by (auto simp: base_chains_def)
  have "chain_rules (pod_chain_rules enc v f (pod_chain enc v p) pols ips) ROUTER_FORWARD = []"
    for v f p ips and pols :: "'a network_policy list"
    using pc [of v p] by (intro chain_rules_other)
      (auto simp: pod_chain_rules_def pod_ip_jumps_def policy_jump_def split: if_splits)
  then have pods: "chain_rules (w_pod_rules enc w p) ROUTER_FORWARD =
      concat (map (\<lambda>a. forward_jumps (pod_chain enc (pi_version w) p) (show_addr a)) (family_addrs p (pi_family w)))" for p
    by (simp add: pod_rules_def Let_def chain_rules_append chain_rules_concat pod_family_ips_addrs comp_def
      intercept_rules_def forward_jumps_def)
  have "chain_rules (common_rules (pi_family w)) ROUTER_FORWARD = []"
    by (intro chain_rules_other) (auto dest!: r_chain_common)
  moreover have "chain_rules (input_rules api (pi_family w) (pi_cluster_ranges w) (pi_node_ports w)) ROUTER_FORWARD = []"
    by (intro chain_rules_other) (auto dest!: r_chain_input)
  moreover have "chain_rules (tail_rules api (pi_family w) (pi_default_deny w) (pi_pod_cidrs w)) ROUTER_FORWARD = []"
    by (intro chain_rules_other) (auto dest!: r_chain_tail)
  ultimately show ?thesis
    by (simp add: plan_rules chain_rules_append base_chain_of_policies [OF assms b])
       (simp add: chain_rules_concat pods comp_def)
qed

lemma forward_pods_judge:
  assumes f: "in_force api enc nf w" and pk: "opens pk" "\<not> pk_src_local pk"
  shows "judging nf (fp_rules (plan_of api enc w)) (Suc (Suc d)) pk
    (concat (map (\<lambda>p. concat (map (\<lambda>a. forward_jumps (pod_chain enc (pi_version w) p) (show_addr a))
      (family_addrs p (pi_family w)))) (fw_pods w)))
    (\<exists>p\<in>set (fw_pods w). endpoint w pk p) (\<exists>p\<in>set (fw_pods w). endpoint w pk p \<and> \<not> pod_admits api nf w pk p)"
proof (rule judging_concat)
  fix p assume p: "p \<in> set (fw_pods w)"
  have addr: "nf_addr_has nf (show_addr a) b \<longleftrightarrow> b = a" for a b
    using f by (simp add: in_force_def addr_texts_def)
  have jump: "judging nf (fp_rules (plan_of api enc w)) (Suc (Suc d)) pk
      [mk ROUTER_FORWARD ms (Jump (pod_chain enc (pi_version w) p))] (hits nf pk ms)
      (hits nf pk ms \<and> \<not> pod_admits api nf w pk p)" if "mark_free ms" for ms
    using that by (rule judging_jump) (rule pod_chain_decides [OF f p pk])
  have "judging nf (fp_rules (plan_of api enc w)) (Suc (Suc d)) pk
      (forward_jumps (pod_chain enc (pi_version w) p) (show_addr a))
      (pk_src pk = a \<or> pk_dst pk = a) ((pk_src pk = a \<or> pk_dst pk = a) \<and> \<not> pod_admits api nf w pk p)" for a
    unfolding forward_jumps_def
    by (rule judging_cong [OF judging_append [OF jump judging_append [OF jump judging_append [OF jump jump]]]])
       (auto simp: addr)
  from judging_concat [OF this]
  show "judging nf (fp_rules (plan_of api enc w)) (Suc (Suc d)) pk
      (concat (map (\<lambda>a. forward_jumps (pod_chain enc (pi_version w) p) (show_addr a)) (family_addrs p (pi_family w))))
      (endpoint w pk p) (endpoint w pk p \<and> \<not> pod_admits api nf w pk p)"
    by (rule judging_cong) (auto simp: endpoint_def)
qed


section \<open>The tail chain\<close>

definition programmed :: "'n plan_input \<Rightarrow> ip_addr \<Rightarrow> bool" where
  "programmed w a \<longleftrightarrow> (\<exists>p\<in>set (fw_pods w). a \<in> set (family_addrs p (pi_family w)))"

definition in_pod_cidr :: "'n ipnet_api \<Rightarrow> netfilter \<Rightarrow> 'n plan_input \<Rightarrow> ip_addr \<Rightarrow> bool" where
  "in_pod_cidr api nf w a \<longleftrightarrow>
     (\<exists>c\<in>set (pi_pod_cidrs w). net_family api c = pi_family w \<and> nf_addr_has nf (net_to_string api c) a)"

text \<open>The decision at the end of each top-level chain.\<close>

definition tail_outcome :: "'n ipnet_api \<Rightarrow> netfilter \<Rightarrow> 'n plan_input \<Rightarrow> packet \<Rightarrow> u32 \<Rightarrow> outcome" where
  "tail_outcome api nf w pk mark =
     (if pi_default_deny w \<and> (\<exists>a\<in>{pk_src pk, pk_dst pk}. in_pod_cidr api nf w a \<and> \<not> programmed w a) then Final Rejected
      else if has_mark MARK_ACCEPTED mark then Final Accepted
      else if pi_default_deny w \<and> (\<exists>a\<in>{pk_src pk, pk_dst pk}. in_pod_cidr api nf w a) then Final Rejected
      else Next mark)"

lemma eval_rejects:
  assumes "\<And>r. r \<in> set rl \<Longrightarrow> mark_free (r_matches r) \<and> r_target r = reject_target family"
  shows "eval_rules nf rs d pk rl mark
    = Some (if \<exists>r\<in>set rl. hits nf pk (r_matches r) then Final Rejected else Next mark)"
  using assms
proof (induction rl)
  case (Cons r rl)
  have "eval_rules nf rs d pk rl mark = Some (if \<exists>r\<in>set rl. hits nf pk (r_matches r) then Final Rejected else Next mark)"
    using Cons by auto
  moreover have "mark_free (r_matches r)" "r_target r = reject_target family" using Cons.prems by auto
  ultimately show ?case by (cases family) (simp_all add: hits_eval)
qed simp

lemma local_pods_loaded:
  assumes "in_force api enc nf w" "pi_default_deny w" "of_addr a = pi_family w"
  shows "nf_set_has nf (local_pods_set (pi_family w)) a = programmed w a"
proof -
  let ?st = "\<lparr> is_name = local_pods_set (pi_family w), is_type = HashIp, is_family = pi_family w,
    is_entries = concat (map (\<lambda>p. pod_family_ips p (pi_family w)) (fw_pods w)) \<rparr>"
  have "?st \<in> set (fp_ipsets (plan_of api enc w))"
    using assms(2) by (simp add: plan_of_def build_plan_def Let_def fw_pods_def)
  from loadedD [OF _ this, of nf a] assms(1)
  show ?thesis
    by (auto simp: in_force_def set_holds_def programmed_def show_addr_mem_family family_addrs_def)
qed

lemma tail_chain_decides:
  assumes f: "in_force api enc nf w" and fam: "of_addr (pk_src pk) = pi_family w" "of_addr (pk_dst pk) = pi_family w"
  shows "eval_chain nf (fp_rules (plan_of api enc w)) d pk NWPLCY_TAIL mark = Some (tail_outcome api nf w pk mark)"
proof -
  let ?cs = "map (net_to_string api) (filter (\<lambda>c. net_family api c = pi_family w) (pi_pod_cidrs w))"
  let ?l = "local_pods_set (pi_family w)" and ?rej = "reject_target (pi_family w)"
  have w: "wide enc" using f by (simp add: in_force_def)
  have cs: "(\<exists>c\<in>set ?cs. nf_addr_has nf c a \<and> P) \<longleftrightarrow> in_pod_cidr api nf w a \<and> P" for a P
    by (auto simp: in_pod_cidr_def)
  have head: "eval_rules nf rs d pk (concat (map (\<lambda>c. [mk NWPLCY_TAIL [MAddr Src c, MSet True ?l Src] ?rej,
        mk NWPLCY_TAIL [MAddr Dst c, MSet True ?l Dst] ?rej]) ?cs)) m
      = Some (if \<exists>a\<in>{pk_src pk, pk_dst pk}. in_pod_cidr api nf w a \<and> \<not> programmed w a then Final Rejected else Next m)"
    if "pi_default_deny w" for rs m
  proof -
    have "(\<exists>r\<in>set (concat (map (\<lambda>c. [mk NWPLCY_TAIL [MAddr Src c, MSet True ?l Src] ?rej,
        mk NWPLCY_TAIL [MAddr Dst c, MSet True ?l Dst] ?rej]) ?cs)). hits nf pk (r_matches r))
      \<longleftrightarrow> (\<exists>c\<in>set ?cs. nf_addr_has nf c (pk_src pk) \<and> \<not> programmed w (pk_src pk))
        \<or> (\<exists>c\<in>set ?cs. nf_addr_has nf c (pk_dst pk) \<and> \<not> programmed w (pk_dst pk))"
      using local_pods_loaded [OF f that fam(1)] local_pods_loaded [OF f that fam(2)] by auto
    then show ?thesis
      by (subst eval_rejects [where family = "pi_family w"]) (auto simp only: cs, auto)
  qed
  have rest: "eval_rules nf rs d pk (concat (map (\<lambda>c. [mk NWPLCY_TAIL [MAddr Src c] ?rej, mk NWPLCY_TAIL [MAddr Dst c] ?rej]) ?cs)) m
      = Some (if \<exists>a\<in>{pk_src pk, pk_dst pk}. in_pod_cidr api nf w a then Final Rejected else Next m)" for rs m
    using cs [of _ True]
    by (subst eval_rejects [where family = "pi_family w"]) auto
  show ?thesis
    unfolding common_chain_of_plan(3) [OF w] tail_rules_def Let_def eval_rules_append
    by (cases "pi_default_deny w") (simp_all add: head rest tail_outcome_def del: map_map)
qed

text \<open>A netfilter that holds the sets of a plan, for the examples.\<close>

definition nf_for :: "ipset_plan list \<Rightarrow> netfilter" where
  "nf_for sets = \<lparr>
     nf_set_has = (\<lambda>name a. case find (\<lambda>st. is_name st = name) sets of
        None \<Rightarrow> False
      | Some st \<Rightarrow> (case is_type st of HashIp \<Rightarrow> show_addr a \<in> set (is_entries st) | HashNet \<Rightarrow> False)),
     nf_addr_has = (\<lambda>t a. t = show_addr a),
     nf_ports_has = (\<lambda>t n. False),
     nf_net_has = (\<lambda>es a. False) \<rparr>"

lemma find_distinct:
  "\<lbrakk> distinct (map f xs); x \<in> set xs \<rbrakk> \<Longrightarrow> find (\<lambda>y. f y = f x) xs = Some x"
  by (induction xs) (auto simp: image_iff)

lemma nf_for_loaded: "distinct (map is_name sets) \<Longrightarrow> loaded (nf_for sets) sets"
  by (auto simp: loaded_def nf_for_def find_distinct set_holds_def split: set_type.splits)

lemma nf_for_in_force:
  assumes "wide enc" "w_names_distinct enc w" "distinct (map is_name (fp_ipsets (plan_of api enc w)))"
  shows "in_force api enc (nf_for (fp_ipsets (plan_of api enc w))) w"
  using assms by (auto simp: in_force_def nf_for_loaded addr_texts_def) (auto simp: nf_for_def show_addr_inj)

definition demo_enc :: encoder where
  "demo_enc s = s @ replicate 16 CHR ''-''"

lemma demo_enc_wide: "wide demo_enc"
  by (simp add: wide_def demo_enc_def)

definition demo_pod :: "string \<Rightarrow> ip_addr \<Rightarrow> pod" where
  "demo_pod name a = \<lparr> pod_namespace = ''n'', pod_name = name, pod_labels = [(''app'', name)], pod_ips = [a],
     pod_node_name = ''node'', pod_host_network = False, pod_container_ports = [] \<rparr>"

text \<open>A policy that lets the client reach port 80 of the web pod.\<close>

definition demo_policy :: "cidr network_policy" where
  "demo_policy = \<lparr> pol_namespace = ''n'', pol_name = ''p'', pol_pod_selector = from_labels [(''app'', ''web'')],
     pol_types = \<lparr> pt_ingress = True, pt_egress = False \<rparr>,
     pol_ingress = [\<lparr> rule_peers = [Selector None (Some (from_labels [(''app'', ''client'')]))],
                      rule_ports = [\<lparr> ps_protocol = ''tcp'', ps_port = PortNumber 80 \<rparr>] \<rparr>],
     pol_egress = [] \<rparr>"

definition demo_world :: "cidr plan_input" where
  "demo_world = \<lparr> pi_policies = [demo_policy],
     pi_pods = [demo_pod ''web'' (AddrV4 0x0A000002), demo_pod ''client'' (AddrV4 0x0A000003), demo_pod ''other'' (AddrV4 0x0A000004)],
     pi_namespaces = [], pi_node = ''node'', pi_family = V4, pi_version = ''kr'', pi_default_deny = False,
     pi_pod_cidrs = [], pi_cluster_ranges = [], pi_node_ports = None \<rparr>"

definition demo_packet :: "ip_addr \<Rightarrow> packet" where
  "demo_packet a = \<lparr> pk_src = a, pk_dst = AddrV4 0x0A000002, pk_proto = ''tcp'', pk_dport = 80, pk_ctstate = ''NEW'',
     pk_src_local = False, pk_dst_local = False, pk_icmp = None, pk_bridged = False \<rparr>"





end
