(* ===== verification/Kr_NetpolLimits.thy ===== *)
theory Kr_NetpolLimits
  imports Kr_NetpolPlan
begin

text \<open>
  Where the synthesized rules fall short of the policies: a policy with both directions admits by its
  egress rules at the receiver, chain names can collide, and two named ports of one rule share a set.
\<close>

section \<open>Policies with both directions\<close>

definition open_rule :: "'n rule" where
  "open_rule = \<lparr> rule_peers = [], rule_ports = [] \<rparr>"

lemma open_rule_admits:
  "rule_admits api nf pods nss family dir pol pk open_rule = selects_addr pol pods family (pk_addr (target_side dir) pk)"
  by (simp add: rule_admits_def open_rule_def resolve_peers_def peers_admit_def)

definition web_policy :: "cidr rule list \<Rightarrow> cidr rule list \<Rightarrow> cidr network_policy" where
  "web_policy ingress egress = \<lparr> pol_namespace = ''n'', pol_name = ''p'', pol_pod_selector = from_labels [],
     pol_types = \<lparr> pt_ingress = True, pt_egress = True \<rparr>, pol_ingress = ingress, pol_egress = egress \<rparr>"

definition closed_world :: "cidr plan_input" where
  "closed_world = demo_world\<lparr> pi_policies := [web_policy [] [open_rule]] \<rparr>"

text \<open>C20: A pod selected by a policy of both directions whose egress is open accepts every new packet from any
  pod the policy selects, whatever the policy says of ingress (the witness: it allows none). The jump to the
  policy's chain is not gated by direction, and the egress rules of the sender match in the receiver's chain.\<close>

theorem both_directions_open_ingress:
  assumes "in_force api enc nf w" "p \<in> set (fw_pods w)" "opens pk" "\<not> pk_src_local pk" "\<not> is_matched mark"
    and pol: "pol \<in> set (selecting (pi_policies w) p)" "pt_ingress (pol_types pol)" "pt_egress (pol_types pol)"
    and rules: "open_rule \<in> set (pol_egress pol)" "selects_addr pol (pi_pods w) (pi_family w) (pk_src pk)"
  shows "eval_chain nf (fp_rules (plan_of api enc w)) (Suc d) pk (pod_chain enc (pi_version w) p) mark
    = Some (Next (mark_accepted mark))"
proof -
  have "family_addrs p (pi_family w) \<noteq> []"
    using assms(2) by (auto simp: fw_pods_def firewalled_pods_def actionable_def pod_family_ips_addrs)
  then obtain a where "a \<in> set (family_addrs p (pi_family w))"
    by (cases "family_addrs p (pi_family w)") auto
  moreover have "policy_admits api nf (pi_pods w) (pi_namespaces w) (pi_family w) pk pol"
    using pol rules open_rule_admits [of api nf "pi_pods w" "pi_namespaces w" "pi_family w" Egress pol pk]
    by (auto simp: policy_admits_def dir_admits_def)
  ultimately have "pod_admits api nf w pk p"
    using pol by (auto simp: pod_admits_def Let_def)
  then show ?thesis
    by (simp add: pod_chain_decides [OF assms(1-5)])
qed

theorem both_directions_open_ingress_witness:
  "let plan = plan_of cidr_api demo_enc closed_world; nf = nf_for (fp_ipsets plan);
       pol = web_policy [] [open_rule] in
     pol_ingress pol = [] \<and> pt_ingress (pol_types pol)
     \<and> eval_chain nf (fp_rules plan) 1 (demo_packet (AddrV4 0x0A000004))
         (pod_chain demo_enc ''kr'' (demo_pod ''web'' (AddrV4 0x0A000002))) 0 = Some (Next (mark_accepted 0))"
proof -
  let ?plan = "plan_of cidr_api demo_enc closed_world"
  let ?nf = "nf_for (fp_ipsets ?plan)" and ?pol = "web_policy [] [open_rule]"
  let ?pk = "demo_packet (AddrV4 0x0A000004)" and ?p = "demo_pod ''web'' (AddrV4 0x0A000002)"
  have "w_names_distinct demo_enc closed_world" "distinct (map is_name (fp_ipsets ?plan))"
    by code_simp+
  then have f: "in_force cidr_api demo_enc ?nf closed_world"
    by (intro nf_for_in_force demo_enc_wide)
  have pk: "opens ?pk" "\<not> pk_src_local ?pk" "\<not> is_matched 0"
    by (simp_all add: opens_def demo_packet_def) code_simp
  have p: "?p \<in> set (fw_pods closed_world)"
      and pol: "?pol \<in> set (selecting (pi_policies closed_world) ?p)"
        "pt_ingress (pol_types ?pol)" "pt_egress (pol_types ?pol)"
      and rules: "open_rule \<in> set (pol_egress ?pol)"
        "selects_addr ?pol (pi_pods closed_world) (pi_family closed_world) (pk_src ?pk)"
      and v: "pi_version closed_world = ''kr''" "pol_ingress ?pol = []"
    by code_simp+
  show ?thesis
    using both_directions_open_ingress [OF f p pk pol rules, of 0] v pol
    by (simp add: Let_def del: eval_rules.simps)
qed

section \<open>Colliding names\<close>

definition open_policy :: "string \<Rightarrow> cidr network_policy" where
  "open_policy ns = \<lparr> pol_namespace = ns, pol_name = ''p'', pol_pod_selector = from_labels [],
     pol_types = \<lparr> pt_ingress = True, pt_egress = False \<rparr>, pol_ingress = [open_rule], pol_egress = [] \<rparr>"

definition named_pod :: "string \<Rightarrow> string \<Rightarrow> ip_addr \<Rightarrow> pod" where
  "named_pod ns name a = (demo_pod name a)\<lparr> pod_namespace := ns \<rparr>"

definition colliding_world :: "cidr plan_input" where
  "colliding_world = demo_world\<lparr> pi_policies := [open_policy ''ab'', open_policy ''a''],
     pi_pods := [named_pod ''ab'' ''c'' (AddrV4 0x0A000003), named_pod ''a'' ''bc'' (AddrV4 0x0A000002)] \<rparr>"

text \<open>The pods \<open>c\<close> of namespace \<open>ab\<close> and \<open>bc\<close> of namespace \<open>a\<close> get one chain under every name encoder, and a
  packet the policies of the second admit is rejected by the rules of the first.\<close>

theorem colliding_pods_reject_admitted:
  "(\<forall>enc v. pod_chain enc v (named_pod ''ab'' ''c'' x) = pod_chain enc v (named_pod ''a'' ''bc'' y))
   \<and> (let plan = plan_of cidr_api demo_enc colliding_world; nf = nf_for (fp_ipsets plan);
          pk = demo_packet (AddrV4 0x0A000009) in
       \<not> list_ex (\<lambda>p. endpoint colliding_world pk p \<and> \<not> pod_admits cidr_api nf colliding_world pk p) (fw_pods colliding_world)
       \<and> eval_chain nf (fp_rules plan) 2 pk ROUTER_FORWARD 0 = Some (Final Rejected))"
proof
  show "\<forall>enc v. pod_chain enc v (named_pod ''ab'' ''c'' x) = pod_chain enc v (named_pod ''a'' ''bc'' y)"
    by (simp add: pod_chain_def pod_firewall_chain_def named_pod_def demo_pod_def)
  show "let plan = plan_of cidr_api demo_enc colliding_world; nf = nf_for (fp_ipsets plan);
          pk = demo_packet (AddrV4 0x0A000009) in
       \<not> list_ex (\<lambda>p. endpoint colliding_world pk p \<and> \<not> pod_admits cidr_api nf colliding_world pk p) (fw_pods colliding_world)
       \<and> eval_chain nf (fp_rules plan) 2 pk ROUTER_FORWARD 0 = Some (Final Rejected)"
    by code_simp
qed

section \<open>Named ports\<close>

definition port_pod :: "string \<Rightarrow> string \<Rightarrow> u16 \<Rightarrow> ip_addr \<Rightarrow> pod" where
  "port_pod name port n a = (demo_pod name a)\<lparr> pod_container_ports :=
     [\<lparr> cp_name = Some port, cp_protocol = ''tcp'', cp_port = n \<rparr>] \<rparr>"

definition named_rule :: "cidr rule" where
  "named_rule = \<lparr> rule_peers = [],
     rule_ports = [\<lparr> ps_protocol = ''tcp'', ps_port = PortName ''http'' \<rparr>, \<lparr> ps_protocol = ''tcp'', ps_port = PortName ''ftp'' \<rparr>] \<rparr>"

definition named_world :: "cidr plan_input" where
  "named_world = demo_world\<lparr> pi_policies := [(open_policy ''n'')\<lparr> pol_ingress := [named_rule] \<rparr>],
     pi_pods := [port_pod ''web'' ''http'' 80 (AddrV4 0x0A000002), port_pod ''files'' ''ftp'' 21 (AddrV4 0x0A000003)] \<rparr>"

text \<open>The sets of the two named ports of one rule have the same name under every name encoder but hold
  different pods, so no state of the kernel holds the sets of the plan: the set written last replaces the
  other.\<close>

theorem named_ports_share_a_set:
  "\<not> loaded nf (fp_ipsets (plan_of cidr_api enc named_world))"
proof
  let ?sets = "fp_ipsets (plan_of cidr_api enc named_world)"
  let ?name = "indexed_ingress_named_port_set enc ''n'' ''p'' 0 0 V4"
  let ?st = "\<lambda>t. \<lparr> is_name = ?name, is_type = HashIp, is_family = V4, is_entries = [t] \<rparr>"
  assume ld: "loaded nf ?sets"
  have sets: "map (\<lambda>st. (is_type st, is_family st, is_entries st)) ?sets =
      [(HashIp, V4, [''10.0.0.2'', ''10.0.0.3'']), (HashIp, V4, [''10.0.0.2'']), (HashIp, V4, [''10.0.0.3''])]"
    by code_simp
  have names: "map is_name ?sets = [dst_set enc ''n'' ''p'' V4, ?name, ?name]"
    by code_simp
  obtain a b c where abc: "?sets = [a, b, c]"
    using sets by auto
  then have b: "b = ?st ''10.0.0.2''" and c: "c = ?st ''10.0.0.3''"
    using sets names by simp_all
  have "nf_set_has nf ?name x \<longleftrightarrow> show_addr x \<in> {''10.0.0.2''}"
      "nf_set_has nf ?name x \<longleftrightarrow> show_addr x \<in> {''10.0.0.3''}" for x
    using ld unfolding abc b c by (auto simp: set_holds_def)
  moreover have "show_addr (AddrV4 0x0A000002) = ''10.0.0.2''"
    by code_simp
  ultimately have "''10.0.0.2'' = ''10.0.0.3''" by (metis insertI1 singletonD)
  then show False by simp
qed


end
