(* ===== verification/Kr_Ipvs.thy ===== *)
theory Kr_Ipvs
  imports Kr_Text Kr_Netlink
begin

text \<open>
  The service proxy's data and its IPVS layer, \<^verbatim>\<open>crates/proxy/src\<close>: services and endpoints (\<^verbatim>\<open>model.rs\<close>),
  validation of external addresses (\<^verbatim>\<open>validation.rs\<close>), virtual services, command lines, the parser of
  the \<^verbatim>\<open>ipvsadm\<close> listings and the interface to the kernel table (\<^verbatim>\<open>ipvs.rs\<close>), and the queue of draining
  destinations (\<^verbatim>\<open>graceful.rs\<close>). The interface is a locale over the table it programs, with the laws that both
  the in-memory and the kernel implementation keep.
\<close>

section \<open>Services and endpoints\<close>

datatype protocol = Tcp | Udp | Sctp

fun protocol_rank :: "protocol \<Rightarrow> nat" where
  "protocol_rank Tcp = 0"
| "protocol_rank Udp = 1"
| "protocol_rank Sctp = 2"

lemma protocol_rank_inj: "protocol_rank p = protocol_rank q \<longleftrightarrow> p = q"
  by (cases p; cases q) simp_all

text \<open>The derived order follows the declaration.\<close>

instantiation protocol :: linorder
begin

definition less_eq_protocol :: "protocol \<Rightarrow> protocol \<Rightarrow> bool" where
  "less_eq_protocol p q = (protocol_rank p \<le> protocol_rank q)"

definition less_protocol :: "protocol \<Rightarrow> protocol \<Rightarrow> bool" where
  "less_protocol p q = (protocol_rank p < protocol_rank q)"

instance
  by standard (auto simp: less_eq_protocol_def less_protocol_def simp flip: protocol_rank_inj)

end

definition protocol_parse :: "string \<Rightarrow> protocol" where
  "protocol_parse s =
     (let u = map to_upper s in if u = ''UDP'' then Udp else if u = ''SCTP'' then Sctp else Tcp)"

datatype scheduler = Rr | Lc | Sh | Dh | Mh

definition scheduler_parse :: "string \<Rightarrow> scheduler" where
  "scheduler_parse s =
     (let l = map to_lower (trim s) in
      if l = ''lc'' then Lc else if l = ''sh'' then Sh else if l = ''dh'' then Dh else if l = ''mh'' then Mh else Rr)"

fun ipvs_name :: "scheduler \<Rightarrow> string" where
  "ipvs_name Rr = ''rr''"
| "ipvs_name Lc = ''lc''"
| "ipvs_name Sh = ''sh''"
| "ipvs_name Dh = ''dh''"
| "ipvs_name Mh = ''mh''"

record sched_flags =
  flag1 :: bool
  flag2 :: bool
  flag3 :: bool

definition no_flags :: sched_flags where
  "no_flags = \<lparr> flag1 = False, flag2 = False, flag3 = False \<rparr>"

definition sched_flags_parse :: "string \<Rightarrow> sched_flags" where
  "sched_flags_parse value =
     fold (\<lambda>tok f. let t = trim tok in
             if t = ''flag-1'' then f \<lparr> flag1 := True \<rparr>
             else if t = ''flag-2'' then f \<lparr> flag2 := True \<rparr>
             else if t = ''flag-3'' then f \<lparr> flag3 := True \<rparr> else f)
       (split_on CHR '','' value) no_flags"

record service_info =
  si_namespace :: string
  si_name :: string
  si_port_name :: string
  si_protocol :: protocol
  si_port :: u16
  si_node_port :: "u16 option"
  si_cluster_ips :: "ip_addr list"
  si_external_ips :: "ip_addr list"
  si_load_balancer_ips :: "ip_addr list"
  si_scheduler :: scheduler
  si_sched_flags :: sched_flags
  si_session_affinity :: bool
  si_affinity_timeout :: u32
  si_dsr :: bool
  si_internal_traffic_local :: bool
  si_external_traffic_local :: bool
  si_hairpin :: bool
  si_hairpin_external_ips :: bool
  si_health_check_node_port :: "u16 option"

definition service_id :: "service_info \<Rightarrow> string" where
  "service_id s = si_namespace s @ ''/'' @ si_name s @ ''/'' @ si_port_name s"

record endpoint_info =
  ep_ip :: ip_addr
  ep_port :: u16
  ep_is_local :: bool
  ep_ready :: bool

definition validate_external_ip :: "'n ipnet_api \<Rightarrow> ip_addr \<Rightarrow> 'n list \<Rightarrow> 'n list \<Rightarrow> bool \<Rightarrow> bool" where
  "validate_external_ip api ip allowed cluster strict =
     (if \<not> strict then True
      else if list_ex (\<lambda>n. net_contains api n ip) cluster then False
      else list_ex (\<lambda>n. net_contains api n ip) allowed)"

section \<open>Virtual services and destinations\<close>

record ipvs_service =
  is_addr :: ip_addr
  is_protocol :: protocol
  is_port :: u16
  is_scheduler :: scheduler
  is_sched_flags :: sched_flags
  is_persistent :: "u32 option"

definition ipvs_key :: "ipvs_service \<Rightarrow> ip_addr \<times> protocol \<times> u16" where
  "ipvs_key s = (is_addr s, is_protocol s, is_port s)"

type_synonym i32 = "32 word"

record ipvs_destination =
  ds_addr :: ip_addr
  ds_port :: u16
  ds_weight :: i32
  ds_tunnel :: bool

abbreviation dst_key :: "ipvs_destination \<Rightarrow> ip_addr \<times> u16" where
  "dst_key d \<equiv> (ds_addr d, ds_port d)"

definition show_i32 :: "i32 \<Rightarrow> string" where
  "show_i32 w = (if sint w < 0 then ''-'' @ show_nat (nat (- sint w)) else show_nat (nat (sint w)))"

definition show_u32 :: "u32 \<Rightarrow> string" where
  "show_u32 w = show_nat (unat w)"

fun proto_flag :: "protocol \<Rightarrow> string" where
  "proto_flag Tcp = ''-t''"
| "proto_flag Udp = ''-u''"
| "proto_flag Sctp = ''--sctp-service''"

definition vip_port :: "ip_addr \<Rightarrow> u16 \<Rightarrow> string" where
  "vip_port a p = (if is_ipv6 a then ''['' @ show_addr a @ '']:'' @ show_nat (unat p)
                   else show_addr a @ '':'' @ show_nat (unat p))"

definition persistent_args :: "u32 option \<Rightarrow> string list" where
  "persistent_args p = (case p of Some t \<Rightarrow> [''-p'', show_u32 t] | None \<Rightarrow> [])"

definition add_fwmark_service_args :: "u32 \<Rightarrow> scheduler \<Rightarrow> u32 option \<Rightarrow> string list" where
  "add_fwmark_service_args fwmark sched persistent =
     [''-A'', ''-f'', show_u32 fwmark, ''-s'', ipvs_name sched] @ persistent_args persistent"

definition add_fwmark_dest_args :: "u32 \<Rightarrow> ipvs_destination \<Rightarrow> string list" where
  "add_fwmark_dest_args fwmark d =
     [''-a'', ''-f'', show_u32 fwmark, ''-r'', vip_port (ds_addr d) (ds_port d),
      if ds_tunnel d then ''-i'' else ''-m'', ''-w'', show_i32 (ds_weight d)]"

definition add_service_args :: "ipvs_service \<Rightarrow> string list" where
  "add_service_args s =
     (let names = (if flag1 (is_sched_flags s) then [''sh-fallback''] else [])
                  @ (if flag2 (is_sched_flags s) then [''sh-port''] else [])
      in [''-A'', proto_flag (is_protocol s), vip_port (is_addr s) (is_port s), ''-s'', ipvs_name (is_scheduler s)]
         @ (if names \<noteq> [] then [''-b'', join '','' names] else [])
         @ persistent_args (is_persistent s))"

text \<open>What the argument list carries of a service: the third scheduler flag has no name there.\<close>

definition adm_view :: "ipvs_service \<Rightarrow> ipvs_service" where
  "adm_view s = s \<lparr> is_sched_flags := (is_sched_flags s) \<lparr> flag3 := False \<rparr> \<rparr>"

definition edit_service_args :: "ipvs_service \<Rightarrow> string list" where
  "edit_service_args s = (add_service_args s)[0 := ''-E'']"

definition del_service_args :: "ipvs_service \<Rightarrow> string list" where
  "del_service_args s = [''-D'', proto_flag (is_protocol s), vip_port (is_addr s) (is_port s)]"

definition add_dest_args :: "ipvs_service \<Rightarrow> ipvs_destination \<Rightarrow> string list" where
  "add_dest_args s d =
     [''-a'', proto_flag (is_protocol s), vip_port (is_addr s) (is_port s), ''-r'', vip_port (ds_addr d) (ds_port d),
      if ds_tunnel d then ''-i'' else ''-m'', ''-w'', show_i32 (ds_weight d)]"

definition edit_dest_args :: "ipvs_service \<Rightarrow> ipvs_destination \<Rightarrow> string list" where
  "edit_dest_args s d = (add_dest_args s d)[0 := ''-e'']"

definition del_dest_args :: "ipvs_service \<Rightarrow> ipvs_destination \<Rightarrow> string list" where
  "del_dest_args s d =
     [''-d'', proto_flag (is_protocol s), vip_port (is_addr s) (is_port s), ''-r'', vip_port (ds_addr d) (ds_port d)]"

definition conntrack_flush_udp_args :: "ip_addr \<Rightarrow> u16 \<Rightarrow> string list" where
  "conntrack_flush_udp_args a p =
     [''-D'', ''--orig-dst'', show_addr a, ''-p'', ''udp'', ''--dport'', show_nat (unat p)]"

section \<open>Listings\<close>

record service_stats =
  st_connections :: u64
  st_packets_in :: u64
  st_packets_out :: u64
  st_bytes_in :: u64
  st_bytes_out :: u64
  st_cps :: u64
  st_pps_in :: u64
  st_pps_out :: u64
  st_bps_in :: u64
  st_bps_out :: u64

definition parse_addr_port :: "string \<Rightarrow> (ip_addr \<times> u16) option" where
  "parse_addr_port tok =
     Option.bind (case strip_prefix ''['' tok of
         Some rest \<Rightarrow> split_once_str '']:'' rest
       | None \<Rightarrow> rsplit_once CHR '':'' tok) (\<lambda>(addr, port).
     Option.bind (parse_addr addr) (\<lambda>a. Option.bind (parse_u16 port) (\<lambda>p. Some (a, p))))"

definition parse_proto :: "string \<Rightarrow> protocol option" where
  "parse_proto tok =
     (if tok = ''TCP'' then Some Tcp else if tok = ''UDP'' then Some Udp else if tok = ''SCTP'' then Some Sctp else None)"

definition stat_num :: "string \<Rightarrow> u64" where
  "stat_num t = (case parse_u64 t of Some v \<Rightarrow> v | None \<Rightarrow> 0)"

text \<open>The identity and the numbers of a row; rows of destinations and headers have none.\<close>

definition stat_row :: "string \<Rightarrow> ((ip_addr \<times> protocol \<times> u16) \<times> u64 list) option" where
  "stat_row line =
     (let f = split_whitespace line in
      if length f < 7 then None
      else case (parse_proto (f ! 0), parse_addr_port (f ! 1)) of
          (Some proto, Some (addr, port)) \<Rightarrow> Some ((addr, proto, port), map stat_num (take 5 (drop 2 f)))
        | _ \<Rightarrow> None)"

type_synonym stats_map = "((ip_addr \<times> protocol \<times> u16) \<times> service_stats) list"

definition stats_line :: "string \<Rightarrow> stats_map \<Rightarrow> stats_map" where
  "stats_line line m = (case stat_row line of
     Some (k, [a, b, c, d, e]) \<Rightarrow>
       bmap_insert k \<lparr> st_connections = a, st_packets_in = b, st_packets_out = c, st_bytes_in = d, st_bytes_out = e,
         st_cps = 0, st_pps_in = 0, st_pps_out = 0, st_bps_in = 0, st_bps_out = 0 \<rparr> m
   | _ \<Rightarrow> m)"

definition rate_line :: "string \<Rightarrow> stats_map \<Rightarrow> stats_map" where
  "rate_line line m = (case stat_row line of
     Some (k, [a, b, c, d, e]) \<Rightarrow>
       (case map_of m k of
          Some st \<Rightarrow> bmap_insert k (st \<lparr> st_cps := a, st_pps_in := b, st_pps_out := c, st_bps_in := d, st_bps_out := e \<rparr>) m
        | None \<Rightarrow> m)
   | _ \<Rightarrow> m)"

definition parse_ipvsadm_stats :: "string \<Rightarrow> string \<Rightarrow> (ipvs_service \<times> service_stats) list" where
  "parse_ipvsadm_stats stats rate =
     map (\<lambda>((a, p, n), st). (\<lparr> is_addr = a, is_protocol = p, is_port = n, is_scheduler = Rr, is_sched_flags = no_flags,
              is_persistent = None \<rparr>, st))
       (fold rate_line (str_lines rate) (fold stats_line (str_lines stats) []))"

section \<open>The interface to the kernel table\<close>

datatype ipvs_error = IpvsError string

record 's ipvs_ops =
  iv_add_service :: "ipvs_service \<Rightarrow> ('s, ipvs_error, unit) eff"
  iv_edit_service :: "ipvs_service \<Rightarrow> ('s, ipvs_error, unit) eff"
  iv_del_service :: "ipvs_service \<Rightarrow> ('s, ipvs_error, unit) eff"
  iv_add_destination :: "ipvs_service \<Rightarrow> ipvs_destination \<Rightarrow> ('s, ipvs_error, unit) eff"
  iv_del_destination :: "ipvs_service \<Rightarrow> ipvs_destination \<Rightarrow> ('s, ipvs_error, unit) eff"
  iv_update_destination :: "ipvs_service \<Rightarrow> ipvs_destination \<Rightarrow> ('s, ipvs_error, unit) eff"
  iv_dest_conn_stats :: "ipvs_service \<Rightarrow> ipvs_destination \<Rightarrow> ('s, ipvs_error, (u32 \<times> u32) option) eff"
  iv_flush_conntrack_udp :: "ip_addr \<Rightarrow> u16 \<Rightarrow> ('s, ipvs_error, unit) eff"
  iv_service_stats :: "('s, ipvs_error, (ipvs_service \<times> service_stats) list) eff"
  iv_add_fwmark_service :: "u32 \<Rightarrow> scheduler \<Rightarrow> u32 option \<Rightarrow> ('s, ipvs_error, unit) eff"
  iv_add_fwmark_destination :: "u32 \<Rightarrow> ipvs_destination \<Rightarrow> ('s, ipvs_error, unit) eff"

type_synonym svc_key = "ip_addr \<times> protocol \<times> u16"
type_synonym dest_key = "ip_addr \<times> u16"

text \<open>
  The contract on success. Adding a service or a destination that is there may leave it as it is or replace
  it, so the laws fix the keys, and the value of what was not there before; an edit of a service or a
  destination that is there replaces it, a service possibly without the flag that argument lists cannot carry.
\<close>

locale ipvs =
  fixes ops :: "'s ipvs_ops"
    and svcs :: "'s \<Rightarrow> svc_key \<rightharpoonup> ipvs_service"
    and dests :: "'s \<Rightarrow> svc_key \<Rightarrow> dest_key \<rightharpoonup> ipvs_destination"
  assumes add_service_ok: "iv_add_service ops v s = (Inr u, s') \<Longrightarrow>
        dom (svcs s') = insert (ipvs_key v) (dom (svcs s)) \<and> dests s' = dests s"
    and edit_service_ok: "iv_edit_service ops v s = (Inr u, s') \<Longrightarrow> ipvs_key v \<in> dom (svcs s) \<Longrightarrow>
        dom (svcs s') = dom (svcs s) \<and> svcs s' (ipvs_key v) \<in> {Some v, Some (adm_view v)} \<and> dests s' = dests s"
    and del_service_ok: "iv_del_service ops v s = (Inr u, s') \<Longrightarrow>
        svcs s' = (svcs s)(ipvs_key v := None) \<and> dests s' = (dests s)(ipvs_key v := Map.empty)"
    and add_destination_ok: "iv_add_destination ops v d s = (Inr u, s') \<Longrightarrow> ipvs_key v \<in> dom (svcs s) \<Longrightarrow>
        svcs s' = svcs s \<and> (\<exists>d'. dests s' = (dests s)(ipvs_key v := (dests s (ipvs_key v))(dst_key d \<mapsto> d'))
          \<and> (dests s (ipvs_key v) (dst_key d) = None \<longrightarrow> d' = d))"
    and update_destination_ok: "iv_update_destination ops v d s = (Inr u, s') \<Longrightarrow>
        dests s (ipvs_key v) (dst_key d) \<noteq> None \<Longrightarrow>
        svcs s' = svcs s \<and> dests s' = (dests s)(ipvs_key v := (dests s (ipvs_key v))(dst_key d \<mapsto> d))"
    and del_destination_ok: "iv_del_destination ops v d s = (Inr u, s') \<Longrightarrow>
        svcs s' = svcs s \<and> dests s' = (dests s)(ipvs_key v := (dests s (ipvs_key v))(dst_key d := None))"
    and flush_ok: "iv_flush_conntrack_udp ops a p s = (r, s') \<Longrightarrow> svcs s' = svcs s \<and> dests s' = dests s"
    and conn_stats_ok: "iv_dest_conn_stats ops v d s = (r', s') \<Longrightarrow> svcs s' = svcs s \<and> dests s' = dests s"

section \<open>Two tables\<close>

text \<open>
  The state both implementations keep: services and destinations by key. The kernel refuses to add what is
  there and to touch what is not, and the program takes both answers for success; the in-memory table of
  the tests replaces what is there.
\<close>

record ipvs_table =
  it_services :: "(svc_key \<times> ipvs_service) list"
  it_dests :: "((svc_key \<times> dest_key) \<times> ipvs_destination) list"
  it_conns :: "((svc_key \<times> dest_key) \<times> (u32 \<times> u32)) list"
  it_flushes :: "(ip_addr \<times> u16) list"
  it_fwmark_services :: "u32 list"
  it_fwmark_dests :: "(u32 \<times> ipvs_destination) list"

definition it_empty :: ipvs_table where
  "it_empty = \<lparr> it_services = [], it_dests = [], it_conns = [], it_flushes = [], it_fwmark_services = [], it_fwmark_dests = [] \<rparr>"

definition al_drop :: "('k \<Rightarrow> bool) \<Rightarrow> ('k \<times> 'v) list \<Rightarrow> ('k \<times> 'v) list" where
  "al_drop P m = filter (\<lambda>e. \<not> P (fst e)) m"

definition al_put :: "'k \<Rightarrow> 'v \<Rightarrow> ('k \<times> 'v) list \<Rightarrow> ('k \<times> 'v) list" where
  "al_put k v m = (k, v) # al_drop ((=) k) m"

definition it_put_service :: "ipvs_service \<Rightarrow> ipvs_table \<Rightarrow> ipvs_table" where
  "it_put_service v t = t \<lparr> it_services := al_put (ipvs_key v) v (it_services t) \<rparr>"

definition it_drop_service :: "ipvs_service \<Rightarrow> ipvs_table \<Rightarrow> ipvs_table" where
  "it_drop_service v t = t \<lparr> it_services := al_drop (\<lambda>k. k = ipvs_key v) (it_services t),
     it_dests := al_drop (\<lambda>k. fst k = ipvs_key v) (it_dests t) \<rparr>"

definition it_put_dest :: "ipvs_service \<Rightarrow> ipvs_destination \<Rightarrow> ipvs_table \<Rightarrow> ipvs_table" where
  "it_put_dest v d t = t \<lparr> it_dests := al_put (ipvs_key v, dst_key d) d (it_dests t) \<rparr>"

definition it_drop_dest :: "ipvs_service \<Rightarrow> ipvs_destination \<Rightarrow> ipvs_table \<Rightarrow> ipvs_table" where
  "it_drop_dest v d t = t \<lparr> it_dests := al_drop (\<lambda>k. k = (ipvs_key v, dst_key d)) (it_dests t) \<rparr>"

definition it_svcs :: "ipvs_table \<Rightarrow> svc_key \<rightharpoonup> ipvs_service" where
  "it_svcs t = map_of (it_services t)"

definition it_dsts :: "ipvs_table \<Rightarrow> svc_key \<Rightarrow> dest_key \<rightharpoonup> ipvs_destination" where
  "it_dsts t k d = map_of (it_dests t) (k, d)"

definition fw_stats :: "ipvs_table \<Rightarrow> (ipvs_service \<times> service_stats) list" where
  "fw_stats t = map (\<lambda>(_, v). (v, \<lparr> st_connections = 0, st_packets_in = 0, st_packets_out = 0, st_bytes_in = 0,
     st_bytes_out = 0, st_cps = 0, st_pps_in = 0, st_pps_out = 0, st_bps_in = 0, st_bps_out = 0 \<rparr>)) (it_services t)"

definition table_ops :: "bool \<Rightarrow> ipvs_table ipvs_ops" where
  "table_ops upsert = \<lparr>
     iv_add_service = (\<lambda>v t. (Inr (), if upsert \<or> it_svcs t (ipvs_key v) = None then it_put_service v t else t)),
     iv_edit_service = (\<lambda>v t. (Inr (), if upsert \<or> it_svcs t (ipvs_key v) \<noteq> None then it_put_service v t else t)),
     iv_del_service = (\<lambda>v t. (Inr (), it_drop_service v t)),
     iv_add_destination = (\<lambda>v d t. (Inr (),
        if upsert \<or> (it_svcs t (ipvs_key v) \<noteq> None \<and> it_dsts t (ipvs_key v) (dst_key d) = None)
        then it_put_dest v d t else t)),
     iv_del_destination = (\<lambda>v d t. (Inr (), it_drop_dest v d t)),
     iv_update_destination = (\<lambda>v d t. (Inr (),
        if upsert \<or> it_dsts t (ipvs_key v) (dst_key d) \<noteq> None then it_put_dest v d t else t)),
     iv_dest_conn_stats = (\<lambda>v d t. (Inr (map_of (it_conns t) (ipvs_key v, dst_key d)), t)),
     iv_flush_conntrack_udp = (\<lambda>a p t. (Inr (), t \<lparr> it_flushes := it_flushes t @ [(a, p)] \<rparr>)),
     iv_service_stats = (\<lambda>t. (Inr (fw_stats t), t)),
     iv_add_fwmark_service = (\<lambda>m sched p t. (Inr (), t \<lparr> it_fwmark_services := it_fwmark_services t @ [m] \<rparr>)),
     iv_add_fwmark_destination = (\<lambda>m d t. (Inr (), t \<lparr> it_fwmark_dests := it_fwmark_dests t @ [(m, d)] \<rparr>)) \<rparr>"

lemma map_of_al_drop [simp]: "map_of (al_drop P m) k = (if P k then None else map_of m k)"
  by (induction m) (auto simp: al_drop_def)

lemma map_of_al_put [simp]: "map_of (al_put k v m) = (map_of m)(k \<mapsto> v)"
  by (auto simp: al_put_def fun_eq_iff)

lemma it_view_simps [simp]:
  "it_svcs (it_put_service v t) = (it_svcs t)(ipvs_key v \<mapsto> v)"
  "it_dsts (it_put_service v t) = it_dsts t"
  "it_svcs (it_drop_service v t) = (it_svcs t)(ipvs_key v := None)"
  "it_dsts (it_drop_service v t) = (it_dsts t)(ipvs_key v := Map.empty)"
  "it_svcs (it_put_dest v d t) = it_svcs t"
  "it_dsts (it_put_dest v d t) = (it_dsts t)(ipvs_key v := (it_dsts t (ipvs_key v))(dst_key d \<mapsto> d))"
  "it_svcs (it_drop_dest v d t) = it_svcs t"
  "it_dsts (it_drop_dest v d t) = (it_dsts t)(ipvs_key v := (it_dsts t (ipvs_key v))(dst_key d := None))"
  "it_svcs (t \<lparr> it_flushes := fl \<rparr>) = it_svcs t" "it_dsts (t \<lparr> it_flushes := fl \<rparr>) = it_dsts t"
  by (auto simp: it_svcs_def it_dsts_def it_put_service_def it_drop_service_def it_put_dest_def it_drop_dest_def
        fun_eq_iff)

lemma table_ops_ipvs: "ipvs (table_ops upsert) it_svcs it_dsts"
proof (unfold_locales, goal_cases)
  case (4 v d s u s')
  let ?k = "ipvs_key v"
  have keep: "it_dsts s = (it_dsts s)(?k := (it_dsts s ?k)(dst_key d \<mapsto> d'))" if "it_dsts s ?k (dst_key d) = Some d'" for d'
    using that by (simp add: fun_upd_idem)
  show ?case
  proof (cases "upsert \<or> it_dsts s ?k (dst_key d) = None")
    case True
    with 4 have "s' = it_put_dest v d s" by (auto simp: table_ops_def dom_def)
    then show ?thesis by auto
  next
    case False
    then obtain d' where "it_dsts s ?k (dst_key d) = Some d'" by auto
    with 4 False keep show ?thesis by (auto simp: table_ops_def)
  qed
qed (auto simp: table_ops_def dom_def split: if_splits)

interpretation mock_ipvs: ipvs "table_ops True" it_svcs it_dsts
  by (rule table_ops_ipvs)

interpretation kernel_ipvs: ipvs "table_ops False" it_svcs it_dsts
  by (rule table_ops_ipvs)


section \<open>The queue of draining destinations (\<^verbatim>\<open>graceful.rs\<close>)\<close>

record pending_removal =
  pr_svc :: ipvs_service
  pr_dst :: ipvs_destination
  pr_deadline :: int

type_synonym graceful_queue = "pending_removal list"

definition same_dst :: "ipvs_service \<Rightarrow> ipvs_destination \<Rightarrow> ipvs_service \<Rightarrow> ipvs_destination \<Rightarrow> bool" where
  "same_dst a ad b bd = (ipvs_key a = ipvs_key b \<and> ds_addr ad = ds_addr bd \<and> ds_port ad = ds_port bd)"

definition gq_enqueue :: "ipvs_service \<Rightarrow> ipvs_destination \<Rightarrow> int \<Rightarrow> graceful_queue \<Rightarrow> graceful_queue" where
  "gq_enqueue svc dst deadline q =
     (if list_ex (\<lambda>p. same_dst (pr_svc p) (pr_dst p) svc dst) q then q
      else q @ [\<lparr> pr_svc = svc, pr_dst = dst, pr_deadline = deadline \<rparr>])"

definition gq_take :: "graceful_queue \<Rightarrow> pending_removal list \<times> graceful_queue" where
  "gq_take q = (q, [])"

definition gq_requeue :: "pending_removal \<Rightarrow> graceful_queue \<Rightarrow> graceful_queue" where
  "gq_requeue p q = q @ [p]"

definition pr_key :: "pending_removal \<Rightarrow> svc_key \<times> dest_key" where
  "pr_key p = (ipvs_key (pr_svc p), dst_key (pr_dst p))"

definition gq_ok :: "graceful_queue \<Rightarrow> bool" where
  "gq_ok q = distinct (map pr_key q)"

lemma same_dst_key: "same_dst (pr_svc p) (pr_dst p) svc dst \<longleftrightarrow> pr_key p = (ipvs_key svc, dst_key dst)"
  by (auto simp: same_dst_def pr_key_def)

lemma gq_ok_enqueue: "gq_ok q \<Longrightarrow> gq_ok (gq_enqueue svc dst t q)"
  by (auto simp: gq_ok_def gq_enqueue_def list_ex_iff same_dst_key) (auto simp: pr_key_def)

section \<open>Round trip of addresses with ports\<close>

lemma show_nat_free: "to_digit 10 c = None \<Longrightarrow> c \<notin> set (show_nat n)"
  using set_show_base [of 10 n] by auto

lemma show_v4_free: "\<lbrakk> to_digit 10 c = None; c \<noteq> CHR ''.'' \<rbrakk> \<Longrightarrow> c \<notin> set (show_v4 w)"
  using show_nat_free [of c] by (auto simp: show_v4_def dest!: set_join)

lemma show_addr_free:
  assumes "to_digit 16 c = None" "c \<noteq> CHR ''.''" "c \<noteq> CHR '':''"
  shows "c \<notin> set (show_addr a)"
proof -
  have d: "to_digit 10 c = None" using assms(1) by (auto simp: to_digit_def Let_def split: if_splits)
  have f: "c \<noteq> CHR ''f''" using assms(1) by (auto simp: to_digit_def)
  have h: "c \<notin> set (join '':'' (map show_hex gs))" for gs
    using set_show_base [of 16] assms by (fastforce dest!: set_join)
  show ?thesis
    using h show_v4_free [OF d assms(2)] assms f
    by (cases a) (auto simp: show_v6_def Let_def split: prod.splits)
qed

lemma split_once_str_bracket:
  "CHR '']'' \<notin> set a \<Longrightarrow> split_once_str '']:'' (a @ '']:'' @ b) = Some (a, b)"
  by (induction a) auto

text \<open>The parser of \<^verbatim>\<open>ipvsadm\<close> tokens reads back the address and port that the command lines print, for both
  families.\<close>

lemma parse_addr_port_round_trip:
  "parse_addr_port (vip_port a p) = Some (a, p)"
proof (cases "is_ipv6 a")
  case True
  have "CHR '']'' \<notin> set (show_addr a)"
    by (rule show_addr_free) (simp_all add: to_digit_def)
  then show ?thesis
    using True split_once_str_bracket [of "show_addr a" "show_nat (unat p)"]
    by (simp add: vip_port_def parse_addr_port_def parse_addr_show)
next
  case False
  have "CHR ''['' \<notin> set (show_addr a)"
    by (rule show_addr_free) (simp_all add: to_digit_def)
  then have "strip_prefix ''['' (vip_port a p) = None"
    using False show_addr_not_Nil [of a] by (cases "show_addr a") (auto simp: vip_port_def)
  moreover have "rsplit_once CHR '':'' (vip_port a p) = Some (show_addr a, show_nat (unat p))"
    using False rsplit_once_append [OF show_nat_free [of "CHR '':''"]]
    by (simp add: vip_port_def to_digit_def)
  ultimately show ?thesis
    by (simp add: parse_addr_port_def parse_addr_show)
qed


end
