(* ===== verification/Kr_Genetlink.thy ===== *)
theory Kr_Genetlink
  imports Kr_Ipvs
begin

text \<open>
  The IPVS backend that talks generic netlink to the kernel, \<^verbatim>\<open>crates/proxy/src/genetlink.rs\<close>, and
  \<^verbatim>\<open>SystemIpvs\<close> of \<^verbatim>\<open>ipvs.rs\<close>, which tries it first and falls back to the \<^verbatim>\<open>ipvsadm\<close> binary. The socket and the two
  commands are parameters; the locale \<open>ipvs_kernel\<close> states what the kernel and \<^verbatim>\<open>ipvsadm\<close> promise about
  the commands a message or an argument list stands for, and \<open>SystemIpvs\<close> then keeps the contract
  \<open>ipvs\<close> the proxy relies on. Byte order is little-endian, that of the released platform (linux/amd64).
\<close>

section \<open>Attributes\<close>

definition AF_INET :: u16 where "AF_INET = 2"
definition AF_INET6 :: u16 where "AF_INET6 = 10"
definition NLM_F_REQUEST :: u16 where "NLM_F_REQUEST = 1"
definition NLM_F_ACK :: u16 where "NLM_F_ACK = 4"
definition SVC_F_PERSISTENT :: u32 where "SVC_F_PERSISTENT = 1"
definition SVC_F_SCHED1 :: u32 where "SVC_F_SCHED1 = 8"
definition SVC_F_SCHED2 :: u32 where "SVC_F_SCHED2 = 16"
definition SVC_F_SCHED3 :: u32 where "SVC_F_SCHED3 = 32"

fun proto_num :: "protocol \<Rightarrow> u16" where
  "proto_num Tcp = 6"
| "proto_num Udp = 17"
| "proto_num Sctp = 132"

fun addr_bytes :: "ip_addr \<Rightarrow> u8 list" where
  "addr_bytes (AddrV4 a) = octets 4 a"
| "addr_bytes (AddrV6 a) = octets 16 a"

definition af :: "ip_addr \<Rightarrow> u16" where
  "af ip = (if is_ipv6 ip then AF_INET6 else AF_INET)"

text \<open>The loop that pads to a multiple of four bytes pushes at most three zeros.\<close>

definition nla_pad :: "u8 list \<Rightarrow> u8 list" where
  "nla_pad out = out @ replicate ((4 - length out mod 4) mod 4) 0"

definition nla :: "u16 \<Rightarrow> u8 list \<Rightarrow> u8 list" where
  "nla attr_type payload =
     nla_pad (le_bytes 2 (of_nat (4 + length payload) :: u16) @ le_bytes 2 attr_type @ payload)"

definition nla_u16 :: "u16 \<Rightarrow> u16 \<Rightarrow> u8 list" where
  "nla_u16 t v = nla t (le_bytes 2 v)"

definition nla_u32 :: "u16 \<Rightarrow> u32 \<Rightarrow> u8 list" where
  "nla_u32 t v = nla t (le_bytes 4 v)"

definition zero_terminated :: "string \<Rightarrow> u8 list" where
  "zero_terminated s = map (\<lambda>c. of_nat (of_char c)) s @ [0]"

section \<open>Payloads\<close>

definition svc_flags :: "ipvs_service \<Rightarrow> u32" where
  "svc_flags svc =
     (let flags = (if is_persistent svc \<noteq> None then SVC_F_PERSISTENT else 0);
          flags = (if flag1 (is_sched_flags svc) then flags OR SVC_F_SCHED1 else flags);
          flags = (if flag2 (is_sched_flags svc) then flags OR SVC_F_SCHED2 else flags)
      in if flag3 (is_sched_flags svc) then flags OR SVC_F_SCHED3 else flags)"

definition flags_buf :: "u32 \<Rightarrow> u8 list" where
  "flags_buf flags = le_bytes 4 flags @ le_bytes 4 (0xFFFFFFFF :: u32)"

definition svc_netmask :: "ip_addr \<Rightarrow> u32" where
  "svc_netmask a = (if is_ipv6 a then 128 else 0xFFFFFFFF)"

definition unwrap_or :: "'a option \<Rightarrow> 'a \<Rightarrow> 'a" where
  "unwrap_or x d = (case x of Some v \<Rightarrow> v | None \<Rightarrow> d)"

definition service_attr :: "ipvs_service \<Rightarrow> u8 list" where
  "service_attr svc = nla 1 (
     nla_u16 1 (af (is_addr svc)) @
     nla_u16 2 (proto_num (is_protocol svc)) @
     nla 3 (addr_bytes (is_addr svc)) @
     nla 4 (octets 2 (is_port svc)) @
     nla 6 (zero_terminated (ipvs_name (is_scheduler svc))) @
     nla 7 (flags_buf (svc_flags svc)) @
     nla_u32 8 (unwrap_or (is_persistent svc) 0) @
     nla_u32 9 (svc_netmask (is_addr svc)))"

definition service_identity_attr :: "ipvs_service \<Rightarrow> u8 list" where
  "service_identity_attr svc = nla 1 (
     nla_u16 1 (af (is_addr svc)) @
     nla_u16 2 (proto_num (is_protocol svc)) @
     nla 3 (addr_bytes (is_addr svc)) @
     nla 4 (octets 2 (is_port svc)) @
     nla_u32 9 (svc_netmask (is_addr svc)))"

definition fwmark_service_attr :: "u32 \<Rightarrow> scheduler \<Rightarrow> u32 option \<Rightarrow> u8 list" where
  "fwmark_service_attr fwmark sched persistent = nla 1 (
     nla_u16 1 AF_INET @
     nla_u32 5 fwmark @
     nla 6 (zero_terminated (ipvs_name sched)) @
     nla 7 (flags_buf (if persistent \<noteq> None then SVC_F_PERSISTENT else 0)) @
     nla_u32 8 (unwrap_or persistent 0) @
     nla_u32 9 0xFFFFFFFF)"

definition dest_attr :: "ipvs_destination \<Rightarrow> u8 list" where
  "dest_attr dst = nla 2 (
     nla 1 (addr_bytes (ds_addr dst)) @
     nla 2 (octets 2 (ds_port dst)) @
     nla_u32 3 (if ds_tunnel dst then 2 else 0) @
     nla_u32 4 (ds_weight dst) @
     nla_u32 5 0 @
     nla_u32 6 0 @
     nla_u16 11 (af (ds_addr dst)))"

section \<open>The socket\<close>

text \<open>What went wrong: an errno of the operating system, or an error of the program's own.\<close>

datatype io_error = OsError int | OtherError string

text \<open>\<^verbatim>\<open>socket\<close> and \<^verbatim>\<open>bind\<close> together, \<^verbatim>\<open>send\<close> and \<^verbatim>\<open>recv\<close> into a buffer of 8192 bytes.\<close>

record 's genl_socket =
  gs_open :: "('s, io_error, unit) eff"
  gs_send :: "u8 list \<Rightarrow> ('s, io_error, unit) eff"
  gs_recv :: "('s, io_error, u8 list) eff"

record genl =
  g_seq :: u32
  g_family :: u16

definition genl_message :: "u32 \<Rightarrow> u16 \<Rightarrow> u8 \<Rightarrow> u8 list \<Rightarrow> u8 list" where
  "genl_message sq family cmd payload =
     (let body = [cmd, 1, 0, 0] @ payload; total = 16 + length body in
      le_bytes 4 (of_nat total :: u32) @ le_bytes 2 family @ le_bytes 2 (NLM_F_REQUEST OR NLM_F_ACK)
      @ le_bytes 4 sq @ le_bytes 4 (0 :: u32) @ body)"

text \<open>The errno in a reply: the first message header says whether it is an error message, zero is an acknowledgement.\<close>

definition reply_errno :: "u8 list \<Rightarrow> int option" where
  "reply_errno buf =
     (if 20 \<le> length buf \<and> of_le_bytes [buf ! 4, buf ! 5] = 2
      then Some (sint (of_nat (of_le_bytes [buf ! 16, buf ! 17, buf ! 18, buf ! 19]) :: i32)) else None)"

definition genl_request :: "'s genl_socket \<Rightarrow> u16 \<Rightarrow> u8 \<Rightarrow> u8 list \<Rightarrow> (genl \<times> 's, io_error, u8 list) eff" where
  "genl_request sk family cmd payload gs = (case gs of (g, s) \<Rightarrow>
     let g' = g \<lparr> g_seq := g_seq g + 1 \<rparr> in
     case gs_send sk (genl_message (g_seq g') family cmd payload) s of
       (Inl e, s1) \<Rightarrow> (Inl e, g', s1)
     | (Inr _, s1) \<Rightarrow>
        (case gs_recv sk s1 of
           (Inl e, s2) \<Rightarrow> (Inl e, g', s2)
         | (Inr buf, s2) \<Rightarrow>
            (case reply_errno buf of
               Some err \<Rightarrow> if err \<noteq> 0 then (Inl (OsError (- err)), g', s2) else (Inr buf, g', s2)
             | None \<Rightarrow> (Inr buf, g', s2))))"

text \<open>The attributes of a reply, scanned for the family id.\<close>

definition align4 :: "nat \<Rightarrow> nat" where
  "align4 n = (n + 3) div 4 * 4"

lemma align4_ge: "n \<le> align4 n"
  unfolding align4_def by presburger

function scan_family_id :: "u8 list \<Rightarrow> u16 option" where
  "scan_family_id attrs =
     (if length attrs < 4 then None
      else let len = of_le_bytes [attrs ! 0, attrs ! 1]; t = of_le_bytes [attrs ! 2, attrs ! 3] in
        if len < 4 \<or> length attrs < len then None
        else if t = 1 \<and> 6 \<le> len then Some (of_nat (of_le_bytes [attrs ! 4, attrs ! 5]))
        else scan_family_id (drop (align4 len) attrs))"
  by pat_completeness auto
termination
proof (relation "measure length", goal_cases)
  case (2 attrs len t)
  then show ?case using align4_ge [of len] by auto
qed simp

declare scan_family_id.simps [simp del]

definition resolve_family :: "'s genl_socket \<Rightarrow> (genl \<times> 's, io_error, u16) eff" where
  "resolve_family sk gs =
     (case genl_request sk 16 3 (nla 2 (zero_terminated ''IPVS'')) gs of
        (Inl e, gs') \<Rightarrow> (Inl e, gs')
      | (Inr resp, gs') \<Rightarrow>
         (case scan_family_id (drop 20 resp) of
            Some f \<Rightarrow> (Inr f, gs')
          | None \<Rightarrow> (Inl (OtherError ''IPVS genl family not found''), gs')))"

definition genl_open :: "'s genl_socket \<Rightarrow> ('s, io_error, genl) eff" where
  "genl_open sk s = (case gs_open sk s of
     (Inl e, s1) \<Rightarrow> (Inl e, s1)
   | (Inr _, s1) \<Rightarrow>
      (case resolve_family sk (\<lparr> g_seq = 0, g_family = 0 \<rparr>, s1) of
         (Inl e, _, s2) \<Rightarrow> (Inl e, s2)
       | (Inr f, g, s2) \<Rightarrow> (Inr (g \<lparr> g_family := f \<rparr>), s2)))"

text \<open>The commands of an open socket.\<close>

type_synonym 's genl_op = "(genl \<times> 's, io_error, unit) eff"

definition genl_cmd :: "'s genl_socket \<Rightarrow> u8 \<Rightarrow> u8 list \<Rightarrow> 's genl_op" where
  "genl_cmd sk cmd p gs = (case genl_request sk (g_family (fst gs)) cmd p gs of
     (Inl e, gs') \<Rightarrow> (Inl e, gs') | (Inr _, gs') \<Rightarrow> (Inr (), gs'))"

definition genl_add_service :: "'s genl_socket \<Rightarrow> ipvs_service \<Rightarrow> 's genl_op" where
  "genl_add_service sk svc = genl_cmd sk 1 (service_attr svc)"

definition genl_set_service :: "'s genl_socket \<Rightarrow> ipvs_service \<Rightarrow> 's genl_op" where
  "genl_set_service sk svc = genl_cmd sk 2 (service_attr svc)"

definition genl_del_service :: "'s genl_socket \<Rightarrow> ipvs_service \<Rightarrow> 's genl_op" where
  "genl_del_service sk svc = genl_cmd sk 3 (service_identity_attr svc)"

definition genl_add_destination :: "'s genl_socket \<Rightarrow> ipvs_service \<Rightarrow> ipvs_destination \<Rightarrow> 's genl_op" where
  "genl_add_destination sk svc dst = genl_cmd sk 5 (service_identity_attr svc @ dest_attr dst)"

definition genl_del_destination :: "'s genl_socket \<Rightarrow> ipvs_service \<Rightarrow> ipvs_destination \<Rightarrow> 's genl_op" where
  "genl_del_destination sk svc dst = genl_cmd sk 7 (service_identity_attr svc @ dest_attr dst)"

definition genl_add_fwmark_service :: "'s genl_socket \<Rightarrow> u32 \<Rightarrow> scheduler \<Rightarrow> u32 option \<Rightarrow> 's genl_op" where
  "genl_add_fwmark_service sk fwmark sched persistent =
     genl_cmd sk 1 (fwmark_service_attr fwmark sched persistent)"

definition genl_add_fwmark_destination :: "'s genl_socket \<Rightarrow> u32 \<Rightarrow> ipvs_destination \<Rightarrow> 's genl_op" where
  "genl_add_fwmark_destination sk fwmark dst =
     genl_cmd sk 5 (fwmark_service_attr fwmark Rr None @ dest_attr dst)"

section \<open>\<^verbatim>\<open>SystemIpvs\<close>\<close>

text \<open>A finished process; a command that cannot be started is an error.\<close>

record cmd_output =
  co_success :: bool
  co_stdout :: string
  co_stderr :: string

type_synonym 's command = "string list \<Rightarrow> ('s, string, cmd_output) eff"

text \<open>The debug text of an argument list (the arguments used here have nothing to escape).\<close>

definition debug_args :: "string list \<Rightarrow> string" where
  "debug_args args = ''['' @ join '', '' (map (\<lambda>a. [CHR 0x22] @ a @ [CHR 0x22]) args) @ '']''"

definition via_genl :: "'s genl_socket \<Rightarrow> ('s genl_socket \<Rightarrow> 's genl_op) \<Rightarrow> 's \<Rightarrow> bool \<times> 's" where
  "via_genl sk f s = (case genl_open sk s of
     (Inl e, s1) \<Rightarrow> (False, s1)
   | (Inr g, s1) \<Rightarrow>
      (case f sk (g, s1) of
         (Inr _, _, s2) \<Rightarrow> (True, s2)
       | (Inl (OsError n), _, s2) \<Rightarrow> (n = 17 \<or> n = 2, s2)
       | (Inl (OtherError _), _, s2) \<Rightarrow> (False, s2)))"

definition run_ipvsadm :: "'s command \<Rightarrow> string list \<Rightarrow> ('s, ipvs_error, unit) eff" where
  "run_ipvsadm adm args s = (case adm args s of
     (Inl e, s1) \<Rightarrow> (Inl (IpvsError (''spawn ipvsadm '' @ debug_args args @ '': '' @ e)), s1)
   | (Inr out, s1) \<Rightarrow>
      if co_success out then (Inr (), s1)
      else if str_contains (co_stderr out) ''already exists'' \<or> str_contains (co_stderr out) ''No such'' then (Inr (), s1)
      else (Inl (IpvsError (''ipvsadm '' @ debug_args args @ '': '' @ trim (co_stderr out))), s1))"

definition run_out :: "'s command \<Rightarrow> string list \<Rightarrow> ('s, ipvs_error, string) eff" where
  "run_out adm args s = (case adm args s of
     (Inl e, s1) \<Rightarrow> (Inl (IpvsError (''spawn ipvsadm '' @ debug_args args @ '': '' @ e)), s1)
   | (Inr out, s1) \<Rightarrow>
      if \<not> co_success out then (Inl (IpvsError (''ipvsadm '' @ debug_args args @ '': '' @ trim (co_stderr out))), s1)
      else (Inr (co_stdout out), s1))"

definition genl_or_adm ::
  "'s genl_socket \<Rightarrow> 's command \<Rightarrow> ('s genl_socket \<Rightarrow> 's genl_op) \<Rightarrow> string list \<Rightarrow> ('s, ipvs_error, unit) eff" where
  "genl_or_adm sk adm f args s =
     (case via_genl sk f s of (True, s1) \<Rightarrow> (Inr (), s1) | (False, s1) \<Rightarrow> run_ipvsadm adm args s1)"

definition sys_service_stats :: "'s command \<Rightarrow> ('s, ipvs_error, (ipvs_service \<times> service_stats) list) eff" where
  "sys_service_stats adm =
     eff_bind (run_out adm [''-Ln'', ''--stats'', ''--exact'']) (\<lambda>stats.
     eff_bind (run_out adm [''-Ln'', ''--rate'', ''--exact'']) (\<lambda>rate.
     eff_ok (parse_ipvsadm_stats stats rate)))"

definition sys_flush_conntrack_udp :: "'s command \<Rightarrow> ip_addr \<Rightarrow> u16 \<Rightarrow> ('s, ipvs_error, unit) eff" where
  "sys_flush_conntrack_udp ct addr port s = (let args = conntrack_flush_udp_args addr port in case ct args s of
     (Inl e, s1) \<Rightarrow> (Inl (IpvsError (''spawn conntrack '' @ debug_args args @ '': '' @ e)), s1)
   | (Inr out, s1) \<Rightarrow>
      if co_success out then (Inr (), s1)
      else if str_contains (co_stdout out @ co_stderr out) ''0 flow entries'' then (Inr (), s1)
      else (Inl (IpvsError (''conntrack '' @ debug_args args @ '': '' @ trim (co_stdout out @ co_stderr out))), s1))"

definition system_ipvs :: "'s genl_socket \<Rightarrow> 's command \<Rightarrow> 's command \<Rightarrow> 's ipvs_ops" where
  "system_ipvs sk adm ct = \<lparr>
     iv_add_service = (\<lambda>v. genl_or_adm sk adm (\<lambda>k. genl_add_service k v) (add_service_args v)),
     iv_edit_service = (\<lambda>v. genl_or_adm sk adm (\<lambda>k. genl_set_service k v) (edit_service_args v)),
     iv_del_service = (\<lambda>v. genl_or_adm sk adm (\<lambda>k. genl_del_service k v) (del_service_args v)),
     iv_add_destination = (\<lambda>v d. genl_or_adm sk adm (\<lambda>k. genl_add_destination k v d) (add_dest_args v d)),
     iv_del_destination = (\<lambda>v d. genl_or_adm sk adm (\<lambda>k. genl_del_destination k v d) (del_dest_args v d)),
     iv_update_destination = (\<lambda>v d. run_ipvsadm adm (edit_dest_args v d)),
     iv_dest_conn_stats = (\<lambda>v d. eff_ok None),
     iv_flush_conntrack_udp = sys_flush_conntrack_udp ct,
     iv_service_stats = sys_service_stats adm,
     iv_add_fwmark_service = (\<lambda>m sched p.
        genl_or_adm sk adm (\<lambda>k. genl_add_fwmark_service k m sched p) (add_fwmark_service_args m sched p)),
     iv_add_fwmark_destination = (\<lambda>m d.
        genl_or_adm sk adm (\<lambda>k. genl_add_fwmark_destination k m d) (add_fwmark_dest_args m d)) \<rparr>"

section \<open>Reading messages\<close>

text \<open>
  The kernel's reading of an attribute stream (\<^verbatim>\<open>linux/netlink.h\<close>): length and type, payload, padding to
  four bytes; and of the commands the program sends (\<^verbatim>\<open>linux/ip_vs.h\<close>). This is the specification
  side of the encoders above.
\<close>

function nla_list :: "u8 list \<Rightarrow> (u16 \<times> u8 list) list" where
  "nla_list bs =
     (if length bs < 4 then []
      else let len = of_le_bytes [bs ! 0, bs ! 1] in
        if len < 4 \<or> length bs < len then []
        else (of_nat (of_le_bytes [bs ! 2, bs ! 3]), take (len - 4) (drop 4 bs)) # nla_list (drop (align4 len) bs))"
  by pat_completeness auto
termination
proof (relation "measure length", goal_cases)
  case (2 bs len)
  then show ?case using align4_ge [of len] by auto
qed simp

declare nla_list.simps [simp del]

definition nla_fits :: "u8 list \<Rightarrow> bool" where
  "nla_fits payload = (length payload < 65532)"

lemma le_bytes_2: "le_bytes 2 w = [ucast w, ucast (drop_bit 8 w)]"
  by (simp add: numeral_2_eq_2)

lemma of_le_bytes_u16:
  fixes w :: u16
  shows "of_le_bytes [ucast w, ucast (drop_bit 8 w)] = unat w"
proof -
  have "of_le_bytes (le_bytes 2 w) = unat w"
    using unsigned_less [of w, where ?'a=nat] by (simp add: of_le_bytes_le_bytes)
  then show ?thesis by (simp add: le_bytes_2)
qed

lemma align4_pad: "align4 n = n + (4 - n mod 4) mod 4"
proof -
  define q r where "q = n div 4" and "r = n mod 4"
  then have n: "n = 4 * q + r" and m: "n mod 4 = r" and "r < 4" by simp_all
  have d: "(n + 3) div 4 = q + (r + 3) div 4" by (simp add: n)
  consider "r = 0" | "r = 1" | "r = 2" | "r = 3" using \<open>r < 4\<close> by linarith
  then show ?thesis unfolding align4_def d m by cases (simp_all add: n)
qed

lemma length_nla: "length (nla t p) = align4 (4 + length p)"
  using align4_pad [of "4 + length p"] by (simp add: nla_def nla_pad_def)

text \<open>The scan takes the encoded attribute off the front of any stream.\<close>

lemma nla_front:
  assumes "nla_fits p"
  obtains pad l where "nla t p @ rest = [ucast l, ucast (drop_bit 8 l), ucast t, ucast (drop_bit 8 t)] @ p @ pad @ rest"
    "unat (l :: u16) = 4 + length p"
    "align4 (4 + length p) = 4 + length p + length pad"
proof -
  define pad :: "u8 list" where "pad = replicate ((4 - (4 + length p) mod 4) mod 4) 0"
  have e: "nla t p @ rest = [ucast l, ucast (drop_bit 8 l), ucast t, ucast (drop_bit 8 t)] @ p @ pad @ rest"
    if "l = (of_nat (4 + length p) :: u16)" for l
    using that by (simp add: nla_def nla_pad_def le_bytes_2 pad_def)
  have u: "unat (of_nat (4 + length p) :: u16) = 4 + length p"
    using assms by (simp add: nla_fits_def unat_of_nat take_bit_nat_eq_self del: of_nat_add)
  have "align4 (4 + length p) = 4 + length p + length pad"
    unfolding pad_def length_replicate by (rule align4_pad)
  then show ?thesis by (rule that [OF e [OF refl] u])
qed

lemma nla_list_Nil [simp]: "nla_list [] = []"
  by (simp add: nla_list.simps)

lemma nla_list_front [simp]:
  assumes "nla_fits p"
  shows "nla_list (nla t p @ rest) = (t, p) # nla_list rest"
proof -
  obtain pad l where e: "nla t p @ rest = [ucast l, ucast (drop_bit 8 l), ucast t, ucast (drop_bit 8 t)] @ p @ pad @ rest"
    and l: "unat (l :: u16) = 4 + length p" and a: "align4 (4 + length p) = 4 + length p + length pad"
    by (rule nla_front [OF assms, of t rest])
  have "drop (align4 (unat l)) (nla t p @ rest) = rest"
    unfolding e l a by (simp add: numeral_eq_Suc)
  moreover have "take (length p) (drop 4 (nla t p @ rest)) = p"
    unfolding e by simp
  moreover have "length (nla t p @ rest) \<ge> unat l"
    unfolding e l by simp
  moreover have "of_le_bytes [(nla t p @ rest) ! 0, (nla t p @ rest) ! 1] = unat l"
    "of_le_bytes [(nla t p @ rest) ! 2, (nla t p @ rest) ! 3] = unat t"
    unfolding e using of_le_bytes_u16 [of l] of_le_bytes_u16 [of t] by simp_all
  ultimately show ?thesis
    by (subst nla_list.simps) (auto simp: Let_def l)
qed

lemma nla_list_one [simp]: "nla_fits p \<Longrightarrow> nla_list (nla t p) = [(t, p)]"
  using nla_list_front [of p t "[]"] by simp

lemma scan_family_id_front:
  assumes "nla_fits p"
  shows "scan_family_id (nla t p @ rest) =
    (if t = 1 \<and> 2 \<le> length p then Some (of_nat (of_le_bytes (take 2 p))) else scan_family_id rest)"
proof -
  obtain pad l where e: "nla t p @ rest = [ucast l, ucast (drop_bit 8 l), ucast t, ucast (drop_bit 8 t)] @ p @ pad @ rest"
    and l: "unat (l :: u16) = 4 + length p" and a: "align4 (4 + length p) = 4 + length p + length pad"
    by (rule nla_front [OF assms, of t rest])
  have d: "drop (align4 (unat l)) (nla t p @ rest) = rest"
    unfolding e l a by (simp add: numeral_eq_Suc)
  have "of_le_bytes [(nla t p @ rest) ! 0, (nla t p @ rest) ! 1] = unat l"
    "of_le_bytes [(nla t p @ rest) ! 2, (nla t p @ rest) ! 3] = unat t"
    unfolding e using of_le_bytes_u16 [of l] of_le_bytes_u16 [of t] by simp_all
  moreover have "length (nla t p @ rest) \<ge> unat l"
    unfolding e l by simp
  moreover have "[(nla t p @ rest) ! 4, (nla t p @ rest) ! 5] = take 2 p" if "2 \<le> length p"
    using that by (auto simp: e Suc_le_length_iff numeral_2_eq_2)
  moreover have "t = 1 \<longleftrightarrow> unat t = 1" by (simp add: word_unat_eq_iff)
  ultimately show ?thesis
    by (subst scan_family_id.simps) (auto simp: Let_def l length_nla)
qed


text \<open>A command, as the kernel and \<^verbatim>\<open>ipvsadm\<close> understand it.\<close>

datatype ipvs_cmd =
    NewService ipvs_service
  | SetService ipvs_service
  | DelService svc_key
  | NewDest svc_key ipvs_destination
  | SetDest svc_key ipvs_destination
  | DelDest svc_key dest_key

definition decode_u16 :: "u8 list \<Rightarrow> u16" where
  "decode_u16 bs = of_nat (of_le_bytes bs)"

definition decode_u32 :: "u8 list \<Rightarrow> u32" where
  "decode_u32 bs = of_nat (of_le_bytes bs)"

definition decode_addr :: "u16 \<Rightarrow> u8 list \<Rightarrow> ip_addr option" where
  "decode_addr family bs =
     (if family = 2 \<and> length bs = 4 then Some (AddrV4 (of_octets bs))
      else if family = 10 \<and> length bs = 16 then Some (AddrV6 (of_octets bs)) else None)"

definition decode_proto :: "u16 \<Rightarrow> protocol option" where
  "decode_proto n = (if n = 6 then Some Tcp else if n = 17 then Some Udp else if n = 132 then Some Sctp else None)"

definition decode_sched :: "u8 list \<Rightarrow> scheduler option" where
  "decode_sched bs = find (\<lambda>x. zero_terminated (ipvs_name x) = bs) [Rr, Lc, Sh, Dh, Mh]"

definition decode_key :: "(u16 \<times> u8 list) list \<Rightarrow> svc_key option" where
  "decode_key attrs =
     (case (map_of attrs 1, map_of attrs 2, map_of attrs 3, map_of attrs 4) of
        (Some f, Some pr, Some a, Some p) \<Rightarrow>
          Option.bind (decode_addr (decode_u16 f) a) (\<lambda>addr.
          Option.bind (decode_proto (decode_u16 pr)) (\<lambda>proto. Some (addr, proto, of_octets p)))
      | _ \<Rightarrow> None)"

definition decode_service :: "(u16 \<times> u8 list) list \<Rightarrow> ipvs_service option" where
  "decode_service attrs =
     Option.bind (decode_key attrs) (\<lambda>(addr, proto, port).
     (case (map_of attrs 6, map_of attrs 7, map_of attrs 8) of
        (Some sc, Some fl, Some tm) \<Rightarrow>
          Option.bind (decode_sched sc) (\<lambda>sched.
            let flags = decode_u32 (take 4 fl) AND decode_u32 (drop 4 fl) in
            Some \<lparr> is_addr = addr, is_protocol = proto, is_port = port, is_scheduler = sched,
              is_sched_flags = \<lparr> flag1 = bit flags 3, flag2 = bit flags 4, flag3 = bit flags 5 \<rparr>,
              is_persistent = (if bit flags 0 then Some (decode_u32 tm) else None) \<rparr>)
      | _ \<Rightarrow> None))"

definition decode_dest :: "(u16 \<times> u8 list) list \<Rightarrow> ipvs_destination option" where
  "decode_dest attrs =
     (case (map_of attrs 1, map_of attrs 2, map_of attrs 3, map_of attrs 4, map_of attrs 11) of
        (Some a, Some p, Some fwd, Some w, Some f) \<Rightarrow>
          (if map_of attrs 5 = None \<or> map_of attrs 6 = None then None
           else Option.bind (decode_addr (decode_u16 f) a) (\<lambda>addr.
             Some \<lparr> ds_addr = addr, ds_port = of_octets p, ds_weight = decode_u32 w,
               ds_tunnel = (decode_u32 fwd = 2) \<rparr>))
      | _ \<Rightarrow> None)"

definition decode_message :: "u8 list \<Rightarrow> (u16 \<times> u8 \<times> (u16 \<times> u8 list) list) option" where
  "decode_message msg =
     (if length msg < 20 \<or> of_le_bytes (take 4 msg) \<noteq> length msg then None
      else Some (decode_u16 (take 2 (drop 4 msg)), msg ! 16, nla_list (drop 20 msg)))"

definition decode_command :: "u8 \<Rightarrow> (u16 \<times> u8 list) list \<Rightarrow> ipvs_cmd option" where
  "decode_command c attrs = Option.bind (map_of attrs 1) (\<lambda>sb. let sv = nla_list sb in
     if c = 1 then map_option NewService (decode_service sv)
     else if c = 2 then map_option SetService (decode_service sv)
     else if c = 3 then map_option DelService (decode_key sv)
     else Option.bind (map_of attrs 2) (\<lambda>db. let dv = nla_list db in
       Option.bind (decode_key sv) (\<lambda>k.
       if c = 5 then map_option (NewDest k) (decode_dest dv)
       else if c = 7 then map_option (\<lambda>d. DelDest k (dst_key d)) (decode_dest dv)
       else None)))"

section \<open>Encoding and decoding are inverse\<close>

lemma decode_encode_words [simp]:
  "decode_u16 (le_bytes 2 w) = w" "decode_u32 (le_bytes 4 v) = v"
proof -
  show "decode_u16 (le_bytes 2 w) = w"
    using unsigned_less [of w, where ?'a=nat] by (simp add: decode_u16_def of_le_bytes_le_bytes)
  show "decode_u32 (le_bytes 4 v) = v"
    using unsigned_less [of v, where ?'a=nat] by (simp add: decode_u32_def of_le_bytes_le_bytes)
qed

lemma decode_addr_bytes [simp]: "decode_addr (af a) (addr_bytes a) = Some a"
  by (cases a) (simp_all add: decode_addr_def af_def AF_INET_def AF_INET6_def of_octets_octets)

lemma decode_proto_num [simp]: "decode_proto (proto_num p) = Some p"
  by (cases p) (simp_all add: decode_proto_def)

lemma decode_sched_name [simp]: "decode_sched (zero_terminated (ipvs_name x)) = Some x"
  by (cases x) (simp_all add: decode_sched_def zero_terminated_def)

lemma of_octets_port [simp]: "of_octets (octets 2 (p :: u16)) = p"
  by (simp add: of_octets_octets)

lemma nla_fits_simps [simp]:
  "nla_fits (le_bytes 2 w)" "nla_fits (le_bytes 4 v)" "nla_fits (octets 2 p)" "nla_fits (addr_bytes a)"
  "nla_fits (zero_terminated (ipvs_name x))" "nla_fits (flags_buf f)"
  by (cases a; cases x; simp add: nla_fits_def zero_terminated_def flags_buf_def)+

lemma length_nla_le: "length (nla t p) \<le> length p + 7"
  by (simp add: length_nla align4_pad)

lemma svc_flags_bits:
  "bit (svc_flags v) 0 = (is_persistent v \<noteq> None)"
  "bit (svc_flags v) 3 = flag1 (is_sched_flags v)"
  "bit (svc_flags v) 4 = flag2 (is_sched_flags v)"
  "bit (svc_flags v) 5 = flag3 (is_sched_flags v)"
  by (simp_all add: svc_flags_def Let_def SVC_F_PERSISTENT_def SVC_F_SCHED1_def SVC_F_SCHED2_def SVC_F_SCHED3_def
        bit_or_iff)

lemma flags_buf_parts [simp]:
  "decode_u32 (take 4 (flags_buf f)) = f" "decode_u32 (drop 4 (flags_buf f)) = - 1"
proof -
  show "decode_u32 (take 4 (flags_buf f)) = f" by (simp add: flags_buf_def)
  have "decode_u32 (drop 4 (flags_buf f)) = (0xFFFFFFFF :: u32)"
    unfolding flags_buf_def by (simp del: le_bytes.simps)
  then show "decode_u32 (drop 4 (flags_buf f)) = - 1" by simp
qed


lemma nla_fits_nested: "length b < 65000 \<Longrightarrow> nla_fits b"
  by (simp add: nla_fits_def)

lemma addr_bytes_length: "length (addr_bytes a) \<le> 16"
  by (cases a) simp_all

lemma sched_length: "length (zero_terminated (ipvs_name x)) = 3"
  by (cases x) (simp_all add: zero_terminated_def)

lemma addr_attr_length: "length (nla t (addr_bytes a)) < 24"
  by (cases a) (simp_all add: length_nla align4_pad)

lemma attr_length_bounds:
  "length (nla_u16 t w) = 8" "length (nla_u32 t v) = 8"
  "length (nla t (octets 2 p)) = 8" "length (nla t (zero_terminated (ipvs_name x))) = 8"
  "length (nla t (flags_buf f)) = 12"
  by (simp_all add: length_nla align4_pad sched_length flags_buf_def nla_u16_def nla_u32_def)

lemma service_attr_decode:
  obtains b where "service_attr v = nla 1 b" "nla_fits b" "decode_service (nla_list b) = Some v"
proof (rule that)
  show "service_attr v = nla 1 (
     nla_u16 1 (af (is_addr v)) @ nla_u16 2 (proto_num (is_protocol v)) @ nla 3 (addr_bytes (is_addr v)) @
     nla 4 (octets 2 (is_port v)) @ nla 6 (zero_terminated (ipvs_name (is_scheduler v))) @
     nla 7 (flags_buf (svc_flags v)) @ nla_u32 8 (unwrap_or (is_persistent v) 0) @
     nla_u32 9 (svc_netmask (is_addr v)))" (is "_ = nla 1 ?b")
    by (simp add: service_attr_def)
  show "nla_fits ?b"
    using addr_attr_length [of 3 "is_addr v"] by (intro nla_fits_nested) (simp add: attr_length_bounds)
  have "is_persistent v \<noteq> None \<longrightarrow> Some (unwrap_or (is_persistent v) 0) = is_persistent v"
    by (auto simp: unwrap_or_def)
  then show "decode_service (nla_list ?b) = Some v"
    by (simp add: nla_u16_def nla_u32_def decode_service_def decode_key_def Let_def svc_flags_bits)
qed

lemma service_identity_attr_decode:
  obtains b where "service_identity_attr v = nla 1 b" "nla_fits b" "decode_key (nla_list b) = Some (ipvs_key v)"
proof (rule that)
  show "service_identity_attr v = nla 1 (
     nla_u16 1 (af (is_addr v)) @ nla_u16 2 (proto_num (is_protocol v)) @ nla 3 (addr_bytes (is_addr v)) @
     nla 4 (octets 2 (is_port v)) @ nla_u32 9 (svc_netmask (is_addr v)))" (is "_ = nla 1 ?b")
    by (simp add: service_identity_attr_def)
  show "nla_fits ?b"
    using addr_attr_length [of 3 "is_addr v"] by (intro nla_fits_nested) (simp add: attr_length_bounds)
  show "decode_key (nla_list ?b) = Some (ipvs_key v)"
    by (simp add: nla_u16_def nla_u32_def decode_key_def ipvs_key_def)
qed

lemma dest_attr_decode:
  obtains b where "dest_attr d = nla 2 b" "nla_fits b" "decode_dest (nla_list b) = Some d"
proof (rule that)
  show "dest_attr d = nla 2 (
     nla 1 (addr_bytes (ds_addr d)) @ nla 2 (octets 2 (ds_port d)) @ nla_u32 3 (if ds_tunnel d then 2 else 0) @
     nla_u32 4 (ds_weight d) @ nla_u32 5 0 @ nla_u32 6 0 @ nla_u16 11 (af (ds_addr d)))" (is "_ = nla 2 ?b")
    by (simp add: dest_attr_def)
  show "nla_fits ?b"
    using addr_attr_length [of 1 "ds_addr d"] by (intro nla_fits_nested) (simp add: attr_length_bounds)
  show "decode_dest (nla_list ?b) = Some d"
    by (simp add: nla_u16_def nla_u32_def decode_dest_def)
qed

text \<open>The message of a request, read back.\<close>

lemma decode_genl_message:
  assumes "length p < 65536"
  shows "decode_message (genl_message sq family c p) = Some (family, c, nla_list p)"
proof -
  have "of_le_bytes (le_bytes 4 (of_nat (20 + length p) :: u32)) = 20 + length p"
    using assms by (simp add: of_le_bytes_le_bytes unat_of_nat take_bit_nat_eq_self del: of_nat_add)
  moreover have "length (genl_message sq family c p) = 20 + length p"
    by (simp add: genl_message_def)
  moreover have "genl_message sq family c p ! 16 = c"
    by (simp add: genl_message_def nth_append)
  moreover have "take 4 (genl_message sq family c p) = le_bytes 4 (of_nat (20 + length p) :: u32)"
    by (simp add: genl_message_def)
  moreover have "take 2 (drop 4 (genl_message sq family c p)) = le_bytes 2 family"
    by (simp add: genl_message_def)
  moreover have "drop 20 (genl_message sq family c p) = p"
    by (simp add: genl_message_def)
  ultimately show ?thesis
    by (simp add: decode_message_def)
qed

section \<open>What a command does\<close>

text \<open>The tables before and after. A command that has nothing to do is refused, and the tables stay.\<close>

type_synonym ipvs_tabs = "(svc_key \<rightharpoonup> ipvs_service) \<times> (svc_key \<Rightarrow> dest_key \<rightharpoonup> ipvs_destination)"

fun cmd_effect :: "ipvs_cmd \<Rightarrow> ipvs_tabs \<Rightarrow> ipvs_tabs" where
  "cmd_effect (NewService v) (sv, ds) = (sv(ipvs_key v \<mapsto> v), ds)"
| "cmd_effect (SetService v) (sv, ds) = (sv(ipvs_key v \<mapsto> v), ds)"
| "cmd_effect (DelService k) (sv, ds) = (sv(k := None), ds(k := Map.empty))"
| "cmd_effect (NewDest k d) (sv, ds) = (sv, ds(k := (ds k)(dst_key d \<mapsto> d)))"
| "cmd_effect (SetDest k d) (sv, ds) = (sv, ds(k := (ds k)(dst_key d \<mapsto> d)))"
| "cmd_effect (DelDest k dk) (sv, ds) = (sv, ds(k := (ds k)(dk := None)))"

fun cmd_void :: "ipvs_cmd \<Rightarrow> ipvs_tabs \<Rightarrow> bool" where
  "cmd_void (NewService v) (sv, ds) = (sv (ipvs_key v) \<noteq> None)"
| "cmd_void (SetService v) (sv, ds) = (sv (ipvs_key v) = None)"
| "cmd_void (DelService k) (sv, ds) = (sv k = None \<and> ds k = Map.empty)"
| "cmd_void (NewDest k d) (sv, ds) = (sv k = None \<or> ds k (dst_key d) \<noteq> None)"
| "cmd_void (SetDest k d) (sv, ds) = (ds k (dst_key d) = None)"
| "cmd_void (DelDest k dk) (sv, ds) = (ds k dk = None)"

definition cmd_settled :: "ipvs_cmd \<Rightarrow> ipvs_tabs \<Rightarrow> ipvs_tabs \<Rightarrow> bool" where
  "cmd_settled c t t' = (t' = cmd_effect c t \<or> t' = t \<and> cmd_void c t)"

text \<open>
  The reading of an argument list by \<^verbatim>\<open>ipvsadm\<close>, for the forms the program uses.
\<close>

definition parse_i32 :: "string \<Rightarrow> i32 option" where
  "parse_i32 s = (case s of
     c # cs \<Rightarrow> if c = CHR ''-'' then map_option uminus (parse_u32 cs) else parse_u32 s
   | [] \<Rightarrow> None)"

definition decode_flag :: "string \<Rightarrow> protocol option" where
  "decode_flag f = find (\<lambda>p. proto_flag p = f) [Tcp, Udp, Sctp]"

definition decode_name :: "string \<Rightarrow> scheduler option" where
  "decode_name n = find (\<lambda>x. ipvs_name x = n) [Rr, Lc, Sh, Dh, Mh]"

definition decode_persist :: "string list \<Rightarrow> u32 option option" where
  "decode_persist as = (case as of
     [] \<Rightarrow> Some None
   | [p, t] \<Rightarrow> if p = ''-p'' then map_option Some (parse_u32 t) else None
   | _ \<Rightarrow> None)"

definition decode_options :: "string list \<Rightarrow> (sched_flags \<times> u32 option) option" where
  "decode_options as = (case as of
     b # n # rest \<Rightarrow>
       if b = ''-b''
       then map_option (Pair \<lparr> flag1 = (''sh-fallback'' \<in> set (split_on CHR '','' n)),
                               flag2 = (''sh-port'' \<in> set (split_on CHR '','' n)), flag3 = False \<rparr>) (decode_persist rest)
       else map_option (Pair no_flags) (decode_persist as)
   | _ \<Rightarrow> map_option (Pair no_flags) (decode_persist as))"

definition decode_service_args :: "svc_key \<Rightarrow> string list \<Rightarrow> ipvs_service option" where
  "decode_service_args k as = (case as of
     s # n # rest \<Rightarrow>
       if s = ''-s''
       then Option.bind (decode_name n) (\<lambda>sched. Option.bind (decode_options rest) (\<lambda>(fl, pers).
         Some \<lparr> is_addr = fst k, is_protocol = fst (snd k), is_port = snd (snd k), is_scheduler = sched,
           is_sched_flags = fl, is_persistent = pers \<rparr>))
       else None
   | _ \<Rightarrow> None)"

definition decode_dest_args :: "string list \<Rightarrow> ipvs_destination option" where
  "decode_dest_args as = (case as of
     [r, vp, fwd, w, n] \<Rightarrow>
       if r = ''-r'' \<and> w = ''-w''
       then Option.bind (parse_addr_port vp) (\<lambda>(a, p). Option.bind (parse_i32 n) (\<lambda>wt.
         Some \<lparr> ds_addr = a, ds_port = p, ds_weight = wt, ds_tunnel = (fwd = ''-i'') \<rparr>))
       else None
   | _ \<Rightarrow> None)"

definition decode_args :: "string list \<Rightarrow> ipvs_cmd option" where
  "decode_args as = (case as of
     verb # f # vp # rest \<Rightarrow>
       Option.bind (decode_flag f) (\<lambda>proto. Option.bind (parse_addr_port vp) (\<lambda>(a, p). let k = (a, proto, p) in
         if verb = ''-A'' then map_option NewService (decode_service_args k rest)
         else if verb = ''-E'' then map_option SetService (decode_service_args k rest)
         else if verb = ''-D'' then (if rest = [] then Some (DelService k) else None)
         else if verb = ''-a'' then map_option (NewDest k) (decode_dest_args rest)
         else if verb = ''-e'' then map_option (SetDest k) (decode_dest_args rest)
         else if verb = ''-d'' then
           (case rest of [r, d] \<Rightarrow> if r = ''-r'' then map_option (DelDest k) (parse_addr_port d) else None | _ \<Rightarrow> None)
         else None))
   | _ \<Rightarrow> None)"

lemma parse_u32_show [simp]: "parse_u32 (show_nat (unat w)) = Some w"
  using unsigned_less [of w, where ?'a=nat] by (simp add: parse_u32_def parse_uint_show)

lemma unat_of_int_small: "0 \<le> i \<Longrightarrow> i < 2 ^ 32 \<Longrightarrow> unat (word_of_int i :: 32 word) = nat i"
  by (simp add: unat_eq_nat_uint uint_word_of_int_eq take_bit_int_eq_self)

lemma nat_sint:
  fixes w :: i32
  shows "sint w < 0 \<Longrightarrow> nat (- sint w) = unat (- w)" and "\<not> sint w < 0 \<Longrightarrow> nat (sint w) = unat w"
  using unat_of_int_small [of "- sint w"] unat_of_int_small [of "sint w"] sint_ge [of w] sint_lt [of w] by simp_all

lemma parse_i32_show [simp]: "parse_i32 (show_i32 w) = Some w"
proof (cases "sint w < 0")
  case True
  have "parse_u32 (show_nat (unat (- w))) = Some (- w)" by (rule parse_u32_show)
  with True nat_sint(1) show ?thesis by (simp add: show_i32_def parse_i32_def)
next
  case False
  obtain c cs where c: "show_nat (unat w) = c # cs" by (cases "show_nat (unat w)") auto
  with show_nat_free [of "CHR ''-''" "unat w"] have "c \<noteq> CHR ''-''" by (auto simp: to_digit_def)
  with c False show ?thesis
    using parse_u32_show [of w] nat_sint(2) [OF False]
    by (simp add: show_i32_def parse_i32_def)
qed

lemma decode_flag_name [simp]: "decode_flag (proto_flag p) = Some p" "decode_name (ipvs_name x) = Some x"
  by (cases p; simp add: decode_flag_def) (cases x; simp add: decode_name_def)

lemma decode_persist_args [simp]: "decode_persist (persistent_args p) = Some p"
  by (cases p) (simp_all add: persistent_args_def decode_persist_def show_u32_def)

lemma decode_options_persist: "decode_options (persistent_args p) = Some (no_flags, p)"
  using decode_persist_args [of p] by (cases p) (simp_all add: persistent_args_def decode_options_def)

lemma decode_service_args_add:
  "decode_service_args (ipvs_key v) (drop 3 (add_service_args v)) = Some (adm_view v)"
  by (cases "flag1 (is_sched_flags v)"; cases "flag2 (is_sched_flags v)")
     (simp_all add: add_service_args_def Let_def decode_service_args_def ipvs_key_def decode_options_persist
        adm_view_def no_flags_def decode_options_def [of "_ # _"])

lemma decode_args_commands [simp]:
  "decode_args (add_service_args v) = Some (NewService (adm_view v))"
  "decode_args (edit_service_args v) = Some (SetService (adm_view v))"
  "decode_args (del_service_args v) = Some (DelService (ipvs_key v))"
  "decode_args (add_dest_args v d) = Some (NewDest (ipvs_key v) d)"
  "decode_args (edit_dest_args v d) = Some (SetDest (ipvs_key v) d)"
  "decode_args (del_dest_args v d) = Some (DelDest (ipvs_key v) (dst_key d))"
proof -
  have v: "add_service_args v = ''-A'' # proto_flag (is_protocol v) # vip_port (is_addr v) (is_port v) # drop 3 (add_service_args v)"
    by (simp add: add_service_args_def Let_def)
  have e: "edit_service_args v = ''-E'' # proto_flag (is_protocol v) # vip_port (is_addr v) (is_port v) # drop 3 (add_service_args v)"
    by (simp add: edit_service_args_def add_service_args_def Let_def)
  note k = decode_service_args_add [of v, unfolded ipvs_key_def]
  show "decode_args (add_service_args v) = Some (NewService (adm_view v))"
    unfolding decode_args_def by (subst v) (simp add: parse_addr_port_round_trip k)
  show "decode_args (edit_service_args v) = Some (SetService (adm_view v))"
    unfolding decode_args_def by (subst e) (simp add: parse_addr_port_round_trip k)
qed (simp_all add: decode_args_def del_service_args_def add_dest_args_def edit_dest_args_def del_dest_args_def
      parse_addr_port_round_trip decode_dest_args_def ipvs_key_def)

text \<open>The payloads of the genetlink backend.\<close>

definition payload_for :: "u8 \<Rightarrow> u8 list \<Rightarrow> ipvs_cmd \<Rightarrow> bool" where
  "payload_for c p cmd = (length p < 65536 \<and> decode_command c (nla_list p) = Some cmd)"

lemma service_payloads:
  "payload_for 1 (service_attr v) (NewService v)"
  "payload_for 2 (service_attr v) (SetService v)"
  "payload_for 3 (service_identity_attr v) (DelService (ipvs_key v))"
proof -
  obtain b where b: "service_attr v = nla 1 b" "nla_fits b" "decode_service (nla_list b) = Some v"
    by (rule service_attr_decode)
  have "length (service_attr v) < 65536"
    using addr_attr_length [of 3 "is_addr v"] length_nla_le [of 1] b(2)
    by (simp add: service_attr_def attr_length_bounds le_less_trans [OF length_nla_le])
  with b show "payload_for 1 (service_attr v) (NewService v)" "payload_for 2 (service_attr v) (SetService v)"
    by (simp_all add: payload_for_def decode_command_def Let_def)
  obtain i where i: "service_identity_attr v = nla 1 i" "nla_fits i" "decode_key (nla_list i) = Some (ipvs_key v)"
    by (rule service_identity_attr_decode)
  have "length (service_identity_attr v) < 65536"
    using addr_attr_length [of 3 "is_addr v"]
    by (simp add: service_identity_attr_def attr_length_bounds le_less_trans [OF length_nla_le])
  with i show "payload_for 3 (service_identity_attr v) (DelService (ipvs_key v))"
    by (simp add: payload_for_def decode_command_def Let_def)
qed

lemma dest_payloads:
  "payload_for 5 (service_identity_attr v @ dest_attr d) (NewDest (ipvs_key v) d)"
  "payload_for 7 (service_identity_attr v @ dest_attr d) (DelDest (ipvs_key v) (dst_key d))"
proof -
  obtain i where i: "service_identity_attr v = nla 1 i" "nla_fits i" "decode_key (nla_list i) = Some (ipvs_key v)"
    by (rule service_identity_attr_decode)
  obtain b where b: "dest_attr d = nla 2 b" "nla_fits b" "decode_dest (nla_list b) = Some d"
    by (rule dest_attr_decode)
  have s: "length (service_identity_attr v) < 1000"
    using addr_attr_length [of 3 "is_addr v"]
    by (simp add: service_identity_attr_def attr_length_bounds le_less_trans [OF length_nla_le])
  have "length (dest_attr d) < 1000"
    using addr_attr_length [of 1 "ds_addr d"]
    by (simp add: dest_attr_def attr_length_bounds le_less_trans [OF length_nla_le])
  with s have "length (service_identity_attr v @ dest_attr d) < 65536" by simp
  with i b show "payload_for 5 (service_identity_attr v @ dest_attr d) (NewDest (ipvs_key v) d)"
    "payload_for 7 (service_identity_attr v @ dest_attr d) (DelDest (ipvs_key v) (dst_key d))"
    by (simp_all add: payload_for_def decode_command_def Let_def)
qed


section \<open>The kernel behind the socket\<close>

text \<open>
  Generic netlink as documented (\<^verbatim>\<open>netlink(7)\<close>, RFC 3549): answers queue up in order on the socket, one \<^verbatim>\<open>recv\<close> takes
  one of them, and a request with \<^verbatim>\<open>NLM_F_ACK\<close> that has an answer is answered by it and then by the
  acknowledgement.
\<close>

locale netlink_socket =
  fixes sk :: "'s genl_socket"
    and tabs :: "'s \<Rightarrow> ipvs_tabs"
    and inbox :: "'s \<Rightarrow> u8 list list"
    and loaded :: "'s \<Rightarrow> bool"
    and fam :: u16
  assumes open_keeps: "gs_open sk s = (r, s') \<Longrightarrow> tabs s' = tabs s"
    and open_fresh: "gs_open sk s = (Inr u, s') \<Longrightarrow> inbox s' = []"
    and recv_keeps: "gs_recv sk s = (b, s') \<Longrightarrow> tabs s' = tabs s"
    and recv_first: "inbox s = buf # rest \<Longrightarrow> \<exists>s'. gs_recv sk s = (Inr buf, s') \<and> inbox s' = rest"
    and send_fails: "gs_send sk m s = (Inl e, s') \<Longrightarrow> tabs s' = tabs s \<and> e \<noteq> OsError 17 \<and> e \<noteq> OsError 2"
    and getfamily_keeps: "decode_message m = Some (16, 3, [(2, zero_terminated ''IPVS'')]) \<Longrightarrow> gs_send sk m s = (r, s') \<Longrightarrow>
        tabs s' = tabs s"
    and getfamily_found: "decode_message m = Some (16, 3, [(2, zero_terminated ''IPVS'')]) \<Longrightarrow>
        gs_send sk m s = (Inr u, s') \<Longrightarrow> loaded s' \<Longrightarrow>
        \<exists>reply ack. inbox s' = inbox s @ [reply, ack] \<and> reply_errno reply = None
          \<and> scan_family_id (drop 20 reply) = Some fam \<and> reply_errno ack = Some 0"
    and getfamily_absent: "decode_message m = Some (16, 3, [(2, zero_terminated ''IPVS'')]) \<Longrightarrow>
        gs_send sk m s = (Inr u, s') \<Longrightarrow> \<not> loaded s' \<Longrightarrow>
        \<exists>err e. inbox s' = inbox s @ [err] \<and> reply_errno err = Some e \<and> e \<noteq> 0"
    and command_answered: "decode_message m = Some (fam, c, attrs) \<Longrightarrow> gs_send sk m s = (Inr u, s') \<Longrightarrow>
        \<exists>ans. inbox s' = inbox s @ [ans]"
begin

lemma getfamily_decode:
  "decode_message (genl_message sq 16 3 (nla 2 (zero_terminated ''IPVS''))) = Some (16, 3, [(2, zero_terminated ''IPVS'')])"
proof -
  have "length (nla 2 (zero_terminated ''IPVS'')) < 65536" and "nla_fits (zero_terminated ''IPVS'')"
    by (simp_all add: length_nla align4_pad zero_terminated_def nla_fits_def)
  then show ?thesis using decode_genl_message by simp
qed

lemma request_keeps:
  assumes "genl_request sk f c p (g, s) = (r, g', s')"
    and "\<And>sq q s1. gs_send sk (genl_message sq f c p) s = (q, s1) \<Longrightarrow> tabs s1 = tabs s"
  shows "tabs s' = tabs s"
proof -
  obtain q s1 where s1: "gs_send sk (genl_message (g_seq g + 1) f c p) s = (q, s1)"
    by (cases "gs_send sk (genl_message (g_seq g + 1) f c p) s")
  obtain b s2 where s2: "gs_recv sk s1 = (b, s2)" by (cases "gs_recv sk s1")
  from assms(1) s1 s2 have "s' = s1 \<or> s' = s2"
    by (auto simp: genl_request_def Let_def split: sum.splits option.splits if_splits)
  then show ?thesis using assms(2) [OF s1] recv_keeps [OF s2] by auto
qed

text \<open>After opening, with the family loaded, the socket still holds the acknowledgement of the lookup.\<close>

lemma open_leaves_ack:
  assumes "genl_open sk s = (Inr g, s')"
  shows "tabs s' = tabs s" and "g_family g = fam" and "\<exists>ack. inbox s' = [ack] \<and> reply_errno ack = Some 0"
proof -
  let ?g = "\<lparr> g_seq = 0, g_family = 0 \<rparr>"
  let ?m = "genl_message 1 16 3 (nla 2 (zero_terminated ''IPVS''))"
  obtain s1 where o: "gs_open sk s = (Inr (), s1)"
    using assms by (cases "gs_open sk s") (auto simp: genl_open_def split: sum.splits)
  obtain q s2 where m: "gs_send sk ?m s1 = (q, s2)" by (cases "gs_send sk ?m s1")
  with assms o have q: "q = Inr ()"
    by (cases q) (auto simp: genl_open_def resolve_family_def genl_request_def)
  have l: "loaded s2"
  proof (rule ccontr)
    assume "\<not> loaded s2"
    then obtain err e where "inbox s2 = inbox s1 @ [err]" and e: "reply_errno err = Some e" "e \<noteq> 0"
      using getfamily_absent [OF getfamily_decode m [unfolded q]] by blast
    then obtain s3 where "gs_recv sk s2 = (Inr err, s3)"
      using recv_first [of s2 err "[]"] open_fresh [OF o] by auto
    with assms o m q e show False
      by (auto simp: genl_open_def resolve_family_def genl_request_def)
  qed
  then obtain reply ack where i: "inbox s2 = [reply, ack]" and reply: "reply_errno reply = None"
    "scan_family_id (drop 20 reply) = Some fam" and ack: "reply_errno ack = Some 0"
    using getfamily_found [OF getfamily_decode m [unfolded q]] open_fresh [OF o] by auto
  obtain s3 where s3: "gs_recv sk s2 = (Inr reply, s3)" "inbox s3 = [ack]"
    using recv_first [OF i] by blast
  with assms o m q reply have "s' = s3" "g_family g = fam"
    by (auto simp: genl_open_def resolve_family_def genl_request_def)
  then show "g_family g = fam" "\<exists>ack. inbox s' = [ack] \<and> reply_errno ack = Some 0"
    using s3 ack by auto
  show "tabs s' = tabs s"
    using \<open>s' = s3\<close> recv_keeps [OF s3(1)] getfamily_keeps [OF getfamily_decode m] open_keeps [OF o] by simp
qed

text \<open>So the first command on the socket is told that it succeeded, whatever the kernel made of it.\<close>

lemma command_reads_old_ack:
  assumes "genl_open sk s = (Inr g, s1)" and "length p < 65536"
    and "gs_send sk (genl_message (g_seq g + 1) fam c p) s1 = (Inr (), s2)"
  shows "\<exists>g' s'. genl_cmd sk c p (g, s1) = (Inr (), g', s') \<and> tabs s' = tabs s2"
proof -
  obtain ack where i: "inbox s1 = [ack]" and ack: "reply_errno ack = Some 0"
    using open_leaves_ack(3) [OF assms(1)] by blast
  obtain ans where "inbox s2 = [ack, ans]"
    using command_answered [OF decode_genl_message [OF assms(2)] assms(3)] i by auto
  then obtain s3 where s3: "gs_recv sk s2 = (Inr ack, s3)"
    using recv_first by blast
  then show ?thesis
    using assms(3) open_leaves_ack(2) [OF assms(1)] recv_keeps [OF s3] ack
    by (auto simp: genl_cmd_def genl_request_def Let_def)
qed

end


text \<open>
  What the commands do: the kernel carries a command out unless it has nothing to do, so does
  \<^verbatim>\<open>ipvsadm\<close>, which says so in its message, and \<^verbatim>\<open>conntrack\<close> does not touch the tables.
\<close>

locale ipvs_kernel = netlink_socket +
  fixes adm :: "'s command"
    and ct :: "'s command"
  assumes command_settles: "decode_message m = Some (fam, c, attrs) \<Longrightarrow> decode_command c attrs = Some cmd \<Longrightarrow>
        gs_send sk m s = (Inr u, s') \<Longrightarrow> cmd_settled cmd (tabs s) (tabs s')"
    and adm_spawn: "adm args s = (Inl e, s') \<Longrightarrow> tabs s' = tabs s"
    and adm_done: "decode_args args = Some cmd \<Longrightarrow> adm args s = (Inr out, s') \<Longrightarrow> co_success out \<Longrightarrow>
        tabs s' = cmd_effect cmd (tabs s)"
    and adm_refused: "decode_args args = Some cmd \<Longrightarrow> adm args s = (Inr out, s') \<Longrightarrow> \<not> co_success out \<Longrightarrow>
        tabs s' = tabs s \<and> (str_contains (co_stderr out) ''already exists'' \<or> str_contains (co_stderr out) ''No such''
          \<longrightarrow> cmd_void cmd (tabs s))"
    and ct_keeps: "ct args s = (r', s') \<Longrightarrow> tabs s' = tabs s"
begin

lemma open_fails_keeps:
  assumes "genl_open sk s = (Inl e, s')"
  shows "tabs s' = tabs s"
proof -
  let ?g = "\<lparr> g_seq = 0, g_family = 0 \<rparr>"
  obtain q s1 where o: "gs_open sk s = (q, s1)" by (cases "gs_open sk s")
  obtain r g' s2 where f: "genl_request sk 16 3 (nla 2 (zero_terminated ''IPVS'')) (?g, s1) = (r, g', s2)"
    by (metis surj_pair)
  have "tabs s2 = tabs s1"
    by (rule request_keeps [OF f]) (rule getfamily_keeps [OF getfamily_decode])
  moreover have "s' = s1 \<or> s' = s2"
    using assms o f by (auto simp: genl_open_def resolve_family_def split: sum.splits option.splits)
  ultimately show ?thesis using open_keeps [OF o] by auto
qed

lemma run_settles:
  assumes "decode_args args = Some cmd" and "run_ipvsadm adm args s = (Inr u, s')"
  shows "cmd_settled cmd (tabs s) (tabs s')"
proof -
  from assms(2) obtain out where out: "adm args s = (Inr out, s')"
    and "co_success out \<or> str_contains (co_stderr out) ''already exists'' \<or> str_contains (co_stderr out) ''No such''"
    by (auto simp: run_ipvsadm_def split: prod.splits sum.splits if_splits)
  then show ?thesis
    using adm_done [OF assms(1) out] adm_refused [OF assms(1) out] by (auto simp: cmd_settled_def)
qed

lemma via_genl_settles:
  assumes "payload_for c p cmd" and v: "via_genl sk (\<lambda>k. genl_cmd k c p) s = (handled, s')"
  shows "if handled then cmd_settled cmd (tabs s) (tabs s') else tabs s' = tabs s"
proof (cases "genl_open sk s")
  case (Pair r s1)
  show ?thesis
  proof (cases r)
    case (Inl e)
    then show ?thesis using open_fails_keeps [of s e s1] Pair v by (auto simp: via_genl_def)
  next
    case (Inr g)
    with Pair have o: "genl_open sk s = (Inr g, s1)" by simp
    from assms(1) have p: "length p < 65536" "decode_command c (nla_list p) = Some cmd"
      by (auto simp: payload_for_def)
    obtain q s2 where m: "gs_send sk (genl_message (g_seq g + 1) fam c p) s1 = (q, s2)"
      by (cases "gs_send sk (genl_message (g_seq g + 1) fam c p) s1")
    show ?thesis
    proof (cases q)
      case (Inr u)
      with m have m: "gs_send sk (genl_message (g_seq g + 1) fam c p) s1 = (Inr (), s2)" by simp
      obtain g' s3 where r: "genl_cmd sk c p (g, s1) = (Inr (), g', s3)" "tabs s3 = tabs s2"
        using command_reads_old_ack [OF o p(1) m] by blast
      with v o have "s' = s3" and "handled" by (simp_all add: via_genl_def)
      with r command_settles [OF decode_genl_message [OF p(1)] p(2) m] open_leaves_ack(1) [OF o]
      show ?thesis by simp
    next
      case (Inl e)
      with m o open_leaves_ack(2) [OF o] v send_fails [of _ s1 e s2] open_leaves_ack(1) [OF o]
      show ?thesis by (auto simp: via_genl_def genl_cmd_def genl_request_def Let_def split: io_error.splits)
    qed
  qed
qed

lemma genl_or_adm_settles:
  assumes p: "payload_for c p cmd" and a: "decode_args args = Some cmd'"
    and r: "genl_or_adm sk adm (\<lambda>k. genl_cmd k c p) args s = (Inr u, s')"
  shows "cmd_settled cmd (tabs s) (tabs s') \<or> cmd_settled cmd' (tabs s) (tabs s')"
proof -
  obtain handled s1 where v: "via_genl sk (\<lambda>k. genl_cmd k c p) s = (handled, s1)"
    by (cases "via_genl sk (\<lambda>k. genl_cmd k c p) s")
  with r via_genl_settles [OF p v] show ?thesis
    by (cases handled) (auto simp: genl_or_adm_def dest!: run_settles [OF a])
qed

end

lemma adm_view_key [simp]: "ipvs_key (adm_view v) = ipvs_key v"
  by (simp add: adm_view_def ipvs_key_def)

sublocale ipvs_kernel \<subseteq> sys: ipvs "system_ipvs sk adm ct" "\<lambda>s. fst (tabs s)" "\<lambda>s. snd (tabs s)"
proof (unfold_locales, goal_cases)
  case (1 v s u s')
  then have "cmd_settled (NewService v) (tabs s) (tabs s') \<or> cmd_settled (NewService (adm_view v)) (tabs s) (tabs s')"
    by (simp add: system_ipvs_def genl_add_service_def genl_or_adm_settles [OF service_payloads(1) decode_args_commands(1)])
  then show ?case by (cases "tabs s") (auto simp: cmd_settled_def)
next
  case (2 v s u s')
  then have "cmd_settled (SetService v) (tabs s) (tabs s') \<or> cmd_settled (SetService (adm_view v)) (tabs s) (tabs s')"
    by (simp add: system_ipvs_def genl_set_service_def genl_or_adm_settles [OF service_payloads(2) decode_args_commands(2)])
  with 2(2) show ?case by (cases "tabs s") (auto simp: cmd_settled_def split: if_splits)
next
  case (3 v s u s')
  then have "cmd_settled (DelService (ipvs_key v)) (tabs s) (tabs s')"
    using genl_or_adm_settles [OF service_payloads(3) [of v] decode_args_commands(3) [of v], of s u s']
    by (simp add: system_ipvs_def genl_del_service_def)
  then show ?case by (cases "tabs s") (auto simp: cmd_settled_def fun_upd_idem)
next
  case (4 v d s u s')
  then have "cmd_settled (NewDest (ipvs_key v) d) (tabs s) (tabs s')"
    using genl_or_adm_settles [OF dest_payloads(1) [of v d] decode_args_commands(4) [of v d], of s u s']
    by (simp add: system_ipvs_def genl_add_destination_def)
  with 4(2) consider "tabs s' = cmd_effect (NewDest (ipvs_key v) d) (tabs s)"
    | d' where "tabs s' = tabs s" "snd (tabs s) (ipvs_key v) (dst_key d) = Some d'"
    by (cases "tabs s") (auto simp: cmd_settled_def)
  then show ?case
  proof cases
    case 1
    then show ?thesis by (cases "tabs s") auto
  next
    case (2 d')
    then show ?thesis by (auto simp: fun_upd_idem intro!: exI [of _ d'])
  qed
next
  case (5 v d s u s')
  then have "cmd_settled (SetDest (ipvs_key v) d) (tabs s) (tabs s')"
    by (simp add: system_ipvs_def run_settles [OF decode_args_commands(5)])
  with 5(2) show ?case by (cases "tabs s") (auto simp: cmd_settled_def)
next
  case (6 v d s u s')
  then have "cmd_settled (DelDest (ipvs_key v) (dst_key d)) (tabs s) (tabs s')"
    using genl_or_adm_settles [OF dest_payloads(2) [of v d] decode_args_commands(6) [of v d], of s u s']
    by (simp add: system_ipvs_def genl_del_destination_def)
  then show ?case by (cases "tabs s") (auto simp: cmd_settled_def fun_upd_idem)
next
  case (7 a p s r s')
  then have "tabs s' = tabs s"
    by (auto simp: system_ipvs_def sys_flush_conntrack_udp_def Let_def dest: ct_keeps
          split: prod.splits sum.splits if_splits)
  then show ?case by simp
next
  case (8 v d s r' s')
  then show ?case by (simp add: system_ipvs_def eff_ok_def)
qed

context ipvs_kernel
begin

lemmas contract = sys.ipvs_axioms

end

section \<open>A kernel\<close>

text \<open>
  An executable kernel with its socket and its \<^verbatim>\<open>ipvsadm\<close>: the commands act on a table, and a command in
  the list of refused schedulers is answered by \<^verbatim>\<open>ENOENT\<close>, as the kernel answers when the module of a
  scheduler is not there.
\<close>

record kworld =
  kw_tab :: ipvs_table
  kw_inbox :: "u8 list list"
  kw_loaded :: bool

definition kw_tabs :: "kworld \<Rightarrow> ipvs_tabs" where
  "kw_tabs w = (it_svcs (kw_tab w), it_dsts (kw_tab w))"

text \<open>The table after a command, and the errno the kernel answers with.\<close>

fun tab_apply :: "scheduler list \<Rightarrow> ipvs_cmd \<Rightarrow> ipvs_table \<Rightarrow> int \<times> ipvs_table" where
  "tab_apply missing (NewService v) t =
     (if is_scheduler v \<in> set missing then (- 2, t)
      else if it_svcs t (ipvs_key v) \<noteq> None then (- 17, t) else (0, it_put_service v t))"
| "tab_apply missing (SetService v) t =
     (if it_svcs t (ipvs_key v) = None then (- 3, t)
      else if is_scheduler v \<in> set missing then (- 2, t) else (0, it_put_service v t))"
| "tab_apply missing (DelService k) t =
     (0, t \<lparr> it_services := al_drop (\<lambda>k'. k' = k) (it_services t), it_dests := al_drop (\<lambda>k'. fst k' = k) (it_dests t) \<rparr>)"
| "tab_apply missing (NewDest k d) t =
     (if it_svcs t k = None then (- 3, t)
      else if it_dsts t k (dst_key d) \<noteq> None then (- 17, t)
      else (0, t \<lparr> it_dests := al_put (k, dst_key d) d (it_dests t) \<rparr>))"
| "tab_apply missing (SetDest k d) t =
     (if it_dsts t k (dst_key d) = None then (- 2, t)
      else (0, t \<lparr> it_dests := al_put (k, dst_key d) d (it_dests t) \<rparr>))"
| "tab_apply missing (DelDest k dk) t =
     (if it_dsts t k dk = None then (- 2, t)
      else (0, t \<lparr> it_dests := al_drop (\<lambda>k'. k' = (k, dk)) (it_dests t) \<rparr>))"

text \<open>An error message: header, errno, and nothing of the request.\<close>

definition ack_message :: "int \<Rightarrow> u8 list" where
  "ack_message e = le_bytes 4 (20 :: u32) @ le_bytes 2 (2 :: u16) @ replicate 10 0 @ le_bytes 4 (of_int e :: i32)"

definition family_reply :: "u8 list" where
  "family_reply = le_bytes 4 (28 :: u32) @ le_bytes 2 (16 :: u16) @ replicate 14 0 @ nla_u16 1 28"

definition kw_send :: "scheduler list \<Rightarrow> u8 list \<Rightarrow> (kworld, io_error, unit) eff" where
  "kw_send missing m w = (case decode_message m of
     Some (f, c, attrs) \<Rightarrow>
       if f = 28 then
         (case decode_command c attrs of
           Some cmd \<Rightarrow> (case tab_apply missing cmd (kw_tab w) of (e, t) \<Rightarrow>
              (Inr (), w \<lparr> kw_tab := t, kw_inbox := kw_inbox w @ [ack_message e] \<rparr>))
         | None \<Rightarrow> (Inr (), w \<lparr> kw_inbox := kw_inbox w @ [ack_message (- 22)] \<rparr>))
       else (Inr (), w \<lparr> kw_inbox := kw_inbox w @ (if kw_loaded w then [family_reply, ack_message 0] else [ack_message (- 2)]) \<rparr>)
   | None \<Rightarrow> (Inl (OsError 22), w))"

definition kw_recv :: "(kworld, io_error, u8 list) eff" where
  "kw_recv w = (case kw_inbox w of [] \<Rightarrow> (Inl (OsError 11), w) | b # bs \<Rightarrow> (Inr b, w \<lparr> kw_inbox := bs \<rparr>))"

definition kw_socket :: "scheduler list \<Rightarrow> kworld genl_socket" where
  "kw_socket missing =
     \<lparr> gs_open = (\<lambda>w. (Inr (), w \<lparr> kw_inbox := [] \<rparr>)), gs_send = kw_send missing, gs_recv = kw_recv \<rparr>"

definition kw_adm :: "kworld command" where
  "kw_adm args w = (case decode_args args of
     None \<Rightarrow> (Inr \<lparr> co_success = False, co_stdout = [], co_stderr = ''invalid arguments'' \<rparr>, w)
   | Some cmd \<Rightarrow> (case tab_apply [] cmd (kw_tab w) of (e, t) \<Rightarrow>
       (Inr \<lparr> co_success = (e = 0), co_stdout = [],
          co_stderr = (if e = 0 then [] else if e = - 17 then ''Service already exists'' else ''No such service'') \<rparr>,
        w \<lparr> kw_tab := t \<rparr>)))"

definition kw_conntrack :: "kworld command" where
  "kw_conntrack args w = (Inr \<lparr> co_success = True, co_stdout = [], co_stderr = [] \<rparr>, w)"

lemma list4: "length xs = 4 \<Longrightarrow> [xs ! 0, xs ! 1, xs ! 2, xs ! 3] = xs"
  by (auto simp: length_Suc_conv numeral_eq_Suc)

lemma reply_errno_ack: "reply_errno (ack_message e) = Some (sint (of_int e :: i32))"
proof -
  define w where "w = (of_int e :: i32)"
  define pre where "pre = le_bytes 4 (20 :: u32) @ le_bytes 2 (2 :: u16) @ replicate 10 0"
  have a: "ack_message e = pre @ le_bytes 4 w" and l: "length pre = 16"
    by (simp_all add: ack_message_def pre_def w_def)
  have "ack_message e ! (16 + k) = le_bytes 4 w ! k" for k
    by (simp add: a nth_append l)
  from this [of 0] this [of 1] this [of 2] this [of 3]
  have "[ack_message e ! 16, ack_message e ! 17, ack_message e ! 18, ack_message e ! 19] = le_bytes 4 w"
    using list4 [of "le_bytes 4 w"] by simp
  moreover have "of_le_bytes (le_bytes 4 w) = unat w"
    using unsigned_less [of w, where ?'a=nat] by (simp add: of_le_bytes_le_bytes)
  moreover have "pre ! 4 = 2" "pre ! 5 = 0"
    by (simp_all add: pre_def nth_append le_bytes_2)
  ultimately show ?thesis
    unfolding reply_errno_def w_def [symmetric] by (simp add: a l nth_append del: of_le_bytes.simps) simp
qed

lemma family_reply_facts:
  "reply_errno family_reply = None" "scan_family_id (drop 20 family_reply) = Some 28"
proof -
  show "reply_errno family_reply = None"
    by (simp add: reply_errno_def family_reply_def nth_append le_bytes_2)
  have "drop 20 family_reply = nla 1 (le_bytes 2 (28 :: u16)) @ []"
    by (simp add: family_reply_def nla_u16_def)
  then show "scan_family_id (drop 20 family_reply) = Some 28"
    using scan_family_id_front [of "le_bytes 2 (28 :: u16)" 1 "[]"] by (simp add: le_bytes_2 nla_fits_def)
qed

text \<open>A command of the table is the effect of the specification, or is refused because it has nothing to do.\<close>

lemma tab_apply_settles:
  assumes "tab_apply [] cmd t = (e, t')"
  shows "cmd_settled cmd (it_svcs t, it_dsts t) (it_svcs t', it_dsts t')"
    and "e = 0 \<Longrightarrow> (it_svcs t', it_dsts t') = cmd_effect cmd (it_svcs t, it_dsts t)"
    and "e \<noteq> 0 \<Longrightarrow> t' = t \<and> cmd_void cmd (it_svcs t, it_dsts t)"
proof -
  show z: "e = 0 \<Longrightarrow> (it_svcs t', it_dsts t') = cmd_effect cmd (it_svcs t, it_dsts t)"
    using assms by (cases cmd) (auto simp: it_svcs_def it_dsts_def fun_eq_iff it_put_service_def split: if_splits)
  show n: "e \<noteq> 0 \<Longrightarrow> t' = t \<and> cmd_void cmd (it_svcs t, it_dsts t)"
    using assms by (cases cmd) (auto split: if_splits)
  show "cmd_settled cmd (it_svcs t, it_dsts t) (it_svcs t', it_dsts t')"
    using z n by (cases "e = 0") (auto simp: cmd_settled_def)
qed

lemma kw_netlink_socket: "netlink_socket (kw_socket missing) kw_tabs kw_inbox kw_loaded 28"
  by unfold_locales
     (auto simp: kw_socket_def kw_tabs_def kw_send_def kw_recv_def family_reply_facts reply_errno_ack
        split: list.splits option.splits prod.splits if_splits)

interpretation kw: ipvs_kernel "kw_socket []" kw_tabs kw_inbox kw_loaded 28 kw_adm kw_conntrack
proof (intro ipvs_kernel.intro kw_netlink_socket ipvs_kernel_axioms.intro, goal_cases)
  case (1 m c attrs cmd s u s')
  then show ?case
    by (auto simp: kw_socket_def kw_send_def kw_tabs_def split: prod.splits dest: tab_apply_settles(1))
next
  case (3 args cmd s out s')
  then show ?case
    by (auto simp: kw_adm_def kw_tabs_def split: prod.splits dest: tab_apply_settles(2))
next
  case (4 args cmd s out s')
  then show ?case
    by (auto simp: kw_adm_def kw_tabs_def split: prod.splits dest: tab_apply_settles(3))
qed (auto simp: kw_adm_def kw_conntrack_def split: option.splits prod.splits)


section \<open>Properties\<close>



text \<open>Looking the family up leaves its acknowledgement unread on the socket, and the command that follows takes that
  acknowledgement for its own: whenever the socket opens and the message is sent, the operation reports success and
  \<^verbatim>\<open>ipvsadm\<close> is not tried, whatever the kernel answered. A refused command leaves the tables as they were.\<close>

theorem genl_refusal_unseen:
  assumes "netlink_socket sk tabs inbox loaded fam"
    and "genl_open sk s = (Inr g, s1)" and "length p < 65536"
    and "gs_send sk (genl_message (g_seq g + 1) fam c p) s1 = (Inr (), s2)"
  shows "\<exists>s'. genl_or_adm sk adm (\<lambda>k. genl_cmd k c p) args s = (Inr (), s') \<and> tabs s' = tabs s2"
proof -
  obtain g' s' where "genl_cmd sk c p (g, s1) = (Inr (), g', s')" "tabs s' = tabs s2"
    using netlink_socket.command_reads_old_ack [OF assms] by blast
  with assms(2) show ?thesis by (auto simp: genl_or_adm_def via_genl_def)
qed

text \<open>A node without the module of the scheduler: the service is not there, and the operation has succeeded.\<close>

definition kw_start :: kworld where
  "kw_start = \<lparr> kw_tab = it_empty, kw_inbox = [], kw_loaded = True \<rparr>"

definition mh_service :: ipvs_service where
  "mh_service = \<lparr> is_addr = AddrV4 0x0A600001, is_protocol = Tcp, is_port = 80, is_scheduler = Mh,
     is_sched_flags = no_flags, is_persistent = None \<rparr>"

text \<open>The mark of a DSR service is registered as an IPv4 mark, whatever the family of its address.\<close>

theorem fwmark_service_is_ipv4:
  "\<exists>b. fwmark_service_attr m sched p = nla 1 b \<and> nla_fits b \<and> map_of (nla_list b) 1 = Some (le_bytes 2 AF_INET)"
proof (intro exI conjI)
  show "fwmark_service_attr m sched p = nla 1 (
     nla_u16 1 AF_INET @ nla_u32 5 m @ nla 6 (zero_terminated (ipvs_name sched)) @
     nla 7 (flags_buf (if p \<noteq> None then SVC_F_PERSISTENT else 0)) @ nla_u32 8 (unwrap_or p 0) @
     nla_u32 9 0xFFFFFFFF)" (is "_ = nla 1 ?b")
    by (simp add: fwmark_service_attr_def)
  show "nla_fits ?b" by (intro nla_fits_nested) (simp add: attr_length_bounds)
  show "map_of (nla_list ?b) 1 = Some (le_bytes 2 AF_INET)" by (simp add: nla_u16_def)
qed



lemma mh_refused:
  "\<exists>g s1 s2. genl_open (kw_socket [Mh]) kw_start = (Inr g, s1)
     \<and> gs_send (kw_socket [Mh]) (genl_message (g_seq g + 1) 28 1 (service_attr mh_service)) s1 = (Inr (), s2)
     \<and> kw_tabs s2 = kw_tabs kw_start"
proof -
  have p: "length (service_attr mh_service) < 65536"
    and d: "decode_command 1 (nla_list (service_attr mh_service)) = Some (NewService mh_service)"
    using service_payloads(1) [of mh_service] by (auto simp: payload_for_def)
  show ?thesis
    by (simp add: genl_open_def resolve_family_def genl_request_def kw_socket_def kw_start_def kw_send_def kw_recv_def
          decode_genl_message [OF p] d netlink_socket.getfamily_decode [OF kw_netlink_socket] family_reply_facts
          kw_tabs_def, simp add: mh_service_def)
qed

theorem genl_refusal_unseen_witness:
  "\<exists>w. iv_add_service (system_ipvs (kw_socket [Mh]) kw_adm kw_conntrack) mh_service kw_start = (Inr (), w)
     \<and> kw_tabs w = (Map.empty, \<lambda>_. Map.empty)"
proof -
  obtain g s1 s2 where s: "genl_open (kw_socket [Mh]) kw_start = (Inr g, s1)"
    "gs_send (kw_socket [Mh]) (genl_message (g_seq g + 1) 28 1 (service_attr mh_service)) s1 = (Inr (), s2)"
    and t: "kw_tabs s2 = kw_tabs kw_start"
    using mh_refused by blast
  have p: "length (service_attr mh_service) < 65536"
    using service_payloads(1) [of mh_service] by (simp add: payload_for_def)
  have e: "kw_tabs kw_start = (Map.empty, \<lambda>_. Map.empty)"
    by (simp add: kw_tabs_def kw_start_def it_svcs_def it_dsts_def it_empty_def fun_eq_iff)
  show ?thesis
    using genl_refusal_unseen [OF kw_netlink_socket s(1) p s(2), of kw_adm "add_service_args mh_service"] t e
    by (simp add: system_ipvs_def genl_add_service_def)
qed


end
