(* ===== verification/Kr_Iptables.thy ===== *)
theory Kr_Iptables
  imports Kr_Ipvs
begin

text \<open>
  The iptables layers of the service proxy: the operations on the nat, mangle and filter tables
  (\<^verbatim>\<open>SystemNat\<close> of \<^verbatim>\<open>hairpin.rs\<close>, \<^verbatim>\<open>SystemMangle\<close> of \<^verbatim>\<open>tcpmss.rs\<close>, \<^verbatim>\<open>SystemFwIptables\<close> of \<^verbatim>\<open>firewall.rs\<close>) as
  sequences of command runs. The command is a parameter; the locale \<open>iptables\<close> states what its documentation says,
  and the lemmas derive what the operations then do to the chains.
\<close>

section \<open>The command\<close>

text \<open>A run takes the arguments and gives whether the exit status was zero, or an error when it cannot start.\<close>

type_synonym 's ipt_run = "string list \<Rightarrow> ('s, string, bool) eff"

type_synonym ipt_view = "string \<Rightarrow> string \<rightharpoonup> string list list"

abbreviation on_table :: "string \<Rightarrow> string list \<Rightarrow> string list" where
  "on_table t args \<equiv> [''-w'', ''-t'', t] @ args"

definition chain_upd :: "ipt_view \<Rightarrow> string \<Rightarrow> string \<Rightarrow> string list list option \<Rightarrow> ipt_view" where
  "chain_upd v t c x = v(t := (v t)(c := x))"

lemma chain_upd_same [simp]: "chain_upd v t c x t c = x"
  by (simp add: chain_upd_def)

lemma chain_upd_other [simp]: "c' \<noteq> c \<Longrightarrow> chain_upd v t c x t c' = v t c'"
  by (simp add: chain_upd_def)

lemma chain_upd_table [simp]: "t' \<noteq> t \<Longrightarrow> chain_upd v t c x t' = v t'"
  by (simp add: chain_upd_def)

lemma chain_upd_upd [simp]: "chain_upd (chain_upd v t c x) t c y = chain_upd v t c y"
  by (auto simp: chain_upd_def)

locale iptables =
  fixes run :: "'s ipt_run"
    and view :: "'s \<Rightarrow> ipt_view"
  assumes new_chain: "run (on_table t [''-N'', c]) s = (Inr b, s') \<Longrightarrow>
        b = (view s t c = None) \<and> view s' = (if b then chain_upd (view s) t c (Some []) else view s)"
    and check_rule: "run (on_table t (''-C'' # c # args)) s = (Inr b, s') \<Longrightarrow>
        b = (\<exists>rs. view s t c = Some rs \<and> args \<in> set rs) \<and> view s' = view s"
    and append_rule: "run (on_table t (''-A'' # c # args)) s = (Inr b, s') \<Longrightarrow>
        view s' = (if b then chain_upd (view s) t c (map_option (\<lambda>rs. rs @ [args]) (view s t c)) else view s)
        \<and> (b \<longrightarrow> view s t c \<noteq> None)"
    and insert_rule: "run (on_table t (''-I'' # c # ''1'' # args)) s = (Inr b, s') \<Longrightarrow>
        view s' = (if b then chain_upd (view s) t c (map_option (\<lambda>rs. args # rs) (view s t c)) else view s)
        \<and> (b \<longrightarrow> view s t c \<noteq> None)"
    and flush: "run (on_table t [''-F'', c]) s = (Inr b, s') \<Longrightarrow>
        b = (view s t c \<noteq> None) \<and> view s' = (if b then chain_upd (view s) t c (Some []) else view s)"
    and delete_rule: "run (on_table t (''-D'' # c # args)) s = (Inr b, s') \<Longrightarrow>
        view s' = (if b then chain_upd (view s) t c (map_option (remove1 args) (view s t c)) else view s)
        \<and> (b = (\<exists>rs. view s t c = Some rs \<and> args \<in> set rs))"

section \<open>Operations\<close>

datatype ipt_error = IptError string

definition map_fail :: "('e \<Rightarrow> 'f) \<Rightarrow> ('s, 'e, 'a) eff \<Rightarrow> ('s, 'f, 'a) eff" where
  "map_fail g m s = (case m s of (Inl e, s') \<Rightarrow> (Inl (g e), s') | (Inr a, s') \<Rightarrow> (Inr a, s'))"

definition ipt_run :: "'s ipt_run \<Rightarrow> string \<Rightarrow> string list \<Rightarrow> ('s, ipt_error, bool) eff" where
  "ipt_run run table args = map_fail IptError (run (on_table table args))"

text \<open>\<^verbatim>\<open>ensure_chain\<close>: the status is ignored.\<close>

definition ipt_ensure_chain :: "'s ipt_run \<Rightarrow> string \<Rightarrow> string \<Rightarrow> ('s, ipt_error, unit) eff" where
  "ipt_ensure_chain run table c = eff_bind (ipt_run run table [''-N'', c]) (\<lambda>_. eff_ok ())"

definition append_failure :: "string \<Rightarrow> string \<Rightarrow> string" where
  "append_failure table c =
     (if table = ''filter'' then ''failed to append to '' @ c else ''failed to append '' @ table @ '' '' @ c @ '' rule'')"

definition ipt_append_unique :: "'s ipt_run \<Rightarrow> string \<Rightarrow> string \<Rightarrow> string list \<Rightarrow> ('s, ipt_error, unit) eff" where
  "ipt_append_unique run table c args =
     eff_bind (ipt_run run table (''-C'' # c # args)) (\<lambda>present.
       if present then eff_ok ()
       else eff_bind (ipt_run run table (''-A'' # c # args)) (\<lambda>done.
         if \<not> done then eff_fail (IptError (append_failure table c)) else eff_ok ()))"

definition ipt_flush_chain :: "'s ipt_run \<Rightarrow> string \<Rightarrow> string \<Rightarrow> ('s, ipt_error, unit) eff" where
  "ipt_flush_chain run table c = eff_bind (ipt_run run table [''-F'', c]) (\<lambda>_. eff_ok ())"

definition ipt_delete :: "'s ipt_run \<Rightarrow> string \<Rightarrow> string \<Rightarrow> string list \<Rightarrow> ('s, ipt_error, unit) eff" where
  "ipt_delete run table c args = eff_bind (ipt_run run table (''-D'' # c # args)) (\<lambda>_. eff_ok ())"

definition ipt_clear_chain :: "'s ipt_run \<Rightarrow> string \<Rightarrow> string \<Rightarrow> ('s, ipt_error, unit) eff" where
  "ipt_clear_chain run table c =
     eff_bind (ipt_run run table [''-N'', c]) (\<lambda>_.
     eff_bind (ipt_run run table [''-F'', c]) (\<lambda>done.
       if \<not> done then eff_fail (IptError (''failed to flush '' @ c)) else eff_ok ()))"

definition ipt_ensure_top :: "'s ipt_run \<Rightarrow> string \<Rightarrow> string \<Rightarrow> string list \<Rightarrow> ('s, ipt_error, unit) eff" where
  "ipt_ensure_top run table c args =
     eff_bind (ipt_run run table (''-C'' # c # args)) (\<lambda>present.
       if present then eff_ok ()
       else eff_bind (ipt_run run table (''-I'' # c # ''1'' # args)) (\<lambda>done.
         if \<not> done then eff_fail (IptError (''failed to insert into '' @ c)) else eff_ok ()))"

record 's nat_ops =
  na_ensure_chain :: "string \<Rightarrow> ('s, ipt_error, unit) eff"
  na_append_unique :: "string \<Rightarrow> string list \<Rightarrow> ('s, ipt_error, unit) eff"
  na_flush_chain :: "string \<Rightarrow> ('s, ipt_error, unit) eff"
  na_delete :: "string \<Rightarrow> string list \<Rightarrow> ('s, ipt_error, unit) eff"

definition system_nat :: "'s ipt_run \<Rightarrow> 's nat_ops" where
  "system_nat run = \<lparr> na_ensure_chain = ipt_ensure_chain run ''nat'', na_append_unique = ipt_append_unique run ''nat'',
     na_flush_chain = ipt_flush_chain run ''nat'', na_delete = ipt_delete run ''nat'' \<rparr>"

record 's mangle_ops =
  ma_append_unique :: "string \<Rightarrow> string list \<Rightarrow> ('s, ipt_error, unit) eff"
  ma_delete :: "string \<Rightarrow> string list \<Rightarrow> ('s, ipt_error, unit) eff"

definition system_mangle :: "'s ipt_run \<Rightarrow> 's mangle_ops" where
  "system_mangle run = \<lparr> ma_append_unique = ipt_append_unique run ''mangle'', ma_delete = ipt_delete run ''mangle'' \<rparr>"

record 's fw_iptables =
  fi_clear_chain :: "string \<Rightarrow> ('s, ipt_error, unit) eff"
  fi_append_unique :: "string \<Rightarrow> string list \<Rightarrow> ('s, ipt_error, unit) eff"
  fi_ensure_top :: "string \<Rightarrow> string list \<Rightarrow> ('s, ipt_error, unit) eff"
  fi_delete :: "string \<Rightarrow> string list \<Rightarrow> ('s, ipt_error, unit) eff"

definition system_fw_iptables :: "'s ipt_run \<Rightarrow> 's fw_iptables" where
  "system_fw_iptables run = \<lparr> fi_clear_chain = ipt_clear_chain run ''filter'', fi_append_unique = ipt_append_unique run ''filter'',
     fi_ensure_top = ipt_ensure_top run ''filter'', fi_delete = ipt_delete run ''filter'' \<rparr>"

section \<open>What the operations do\<close>

definition add_unique :: "'a \<Rightarrow> 'a list \<Rightarrow> 'a list" where
  "add_unique x xs = (if x \<in> set xs then xs else xs @ [x])"

lemma set_fold_add_unique [simp]: "set (fold add_unique xs ys) = set ys \<union> set xs"
  by (induction xs arbitrary: ys) (auto simp: add_unique_def)

lemma distinct_fold_add_unique: "distinct ys \<Longrightarrow> distinct (fold add_unique xs ys)"
  by (induction xs arbitrary: ys) (auto simp: add_unique_def)

lemma fold_add_unique_distinct: "distinct (ys @ xs) \<Longrightarrow> fold add_unique xs ys = ys @ xs"
  by (induction xs arbitrary: ys) (auto simp: add_unique_def)

lemma eff_bind_okE:
  assumes "eff_bind m f s = (Inr b, s')"
  obtains a s1 where "m s = (Inr a, s1)" "f a s1 = (Inr b, s')"
  using assms by (auto simp: eff_bind_def split: prod.splits sum.splits)

lemma map_fail_okE:
  assumes "map_fail g m s = (Inr a, s')"
  obtains "m s = (Inr a, s')"
  using assms by (auto simp: map_fail_def split: prod.splits sum.splits)

context iptables
begin

lemma run_okE:
  assumes "ipt_run run t args s = (Inr b, s')"
  obtains "run (on_table t args) s = (Inr b, s')"
  using assms unfolding ipt_run_def by (elim map_fail_okE)

lemma ensure_chain_ok:
  assumes "ipt_ensure_chain run t c s = (Inr u, s')"
  shows "view s' = (if view s t c = None then chain_upd (view s) t c (Some []) else view s)"
proof -
  obtain b where 1: "run (on_table t [''-N'', c]) s = (Inr b, s')"
    using assms unfolding ipt_ensure_chain_def by (auto simp: eff_ok_def elim!: eff_bind_okE run_okE)
  show ?thesis using new_chain [OF 1] by simp
qed

lemma append_unique_ok:
  assumes "ipt_append_unique run t c args s = (Inr u, s')"
  obtains rs where "view s t c = Some rs" "view s' = chain_upd (view s) t c (Some (add_unique args rs))"
proof -
  obtain b s1 where 1: "run (on_table t (''-C'' # c # args)) s = (Inr b, s1)"
    and rest: "(if b then eff_ok () else eff_bind (ipt_run run t (''-A'' # c # args)) (\<lambda>done.
         if \<not> done then eff_fail (IptError (append_failure t c)) else eff_ok ())) s1 = (Inr u, s')"
    using assms unfolding ipt_append_unique_def by (elim eff_bind_okE run_okE) blast
  have idem: "chain_upd (view s) t c (Some rs) = view s" if "view s t c = Some rs" for rs
    using that by (simp add: chain_upd_def fun_upd_idem)
  show ?thesis
  proof (cases b)
    case True
    then show ?thesis
      using rest check_rule [OF 1] idem that by (auto simp: eff_ok_def add_unique_def)
  next
    case False
    then obtain b2 where "run (on_table t (''-A'' # c # args)) s1 = (Inr b2, s')" "b2"
      using rest by (auto simp: eff_ok_def eff_fail_def elim!: eff_bind_okE run_okE split: if_splits)
    then show ?thesis
      using append_rule check_rule [OF 1] False that by (fastforce simp: add_unique_def)
  qed
qed

lemma append_all_ok:
  assumes "for_each (ipt_append_unique run t c) rules s = (Inr u, s')" "view s t c = Some rs"
  shows "view s' = chain_upd (view s) t c (Some (fold add_unique rules rs))"
  using assms
proof (induction rules arbitrary: s rs)
  case Nil
  then show ?case by (simp add: chain_upd_def fun_upd_idem)
next
  case (Cons r rules)
  then obtain u1 s1 where 1: "ipt_append_unique run t c r s = (Inr u1, s1)"
    and 2: "for_each (ipt_append_unique run t c) rules s1 = (Inr u, s')"
    by (auto split: prod.splits sum.splits)
  from append_unique_ok [OF 1] Cons.prems(2)
  have v: "view s1 = chain_upd (view s) t c (Some (add_unique r rs))" by auto
  then show ?case using Cons.IH [OF 2, of "add_unique r rs"] by simp
qed

lemma flush_chain_ok:
  assumes "ipt_flush_chain run t c s = (Inr u, s')"
  shows "view s' = (if view s t c = None then view s else chain_upd (view s) t c (Some []))"
proof -
  obtain b where 1: "run (on_table t [''-F'', c]) s = (Inr b, s')"
    using assms unfolding ipt_flush_chain_def by (auto simp: eff_ok_def elim!: eff_bind_okE run_okE)
  show ?thesis using flush [OF 1] by simp
qed

lemma clear_chain_ok:
  assumes "ipt_clear_chain run t c s = (Inr u, s')"
  shows "view s' = chain_upd (view s) t c (Some [])"
proof -
  obtain b1 b2 s1 where 1: "run (on_table t [''-N'', c]) s = (Inr b1, s1)"
    and 2: "run (on_table t [''-F'', c]) s1 = (Inr b2, s')"
    using assms unfolding ipt_clear_chain_def
    by (auto simp: eff_ok_def eff_fail_def elim!: eff_bind_okE run_okE split: if_splits)
  show ?thesis using new_chain [OF 1] flush [OF 2] by (auto simp: chain_upd_def split: if_splits)
qed

lemma delete_ok:
  assumes "ipt_delete run t c args s = (Inr u, s')"
  shows "view s' = chain_upd (view s) t c (map_option (remove1 args) (view s t c))"
proof -
  obtain b where 1: "run (on_table t (''-D'' # c # args)) s = (Inr b, s')"
    using assms unfolding ipt_delete_def by (auto simp: eff_ok_def elim!: eff_bind_okE run_okE)
  show ?thesis
  proof (cases b)
    case False
    then have "map_option (remove1 args) (view s t c) = view s t c"
      using delete_rule [OF 1] by (cases "view s t c") (auto simp: remove1_idem)
    then show ?thesis using delete_rule [OF 1] False by (simp add: chain_upd_def)
  qed (use delete_rule [OF 1] in simp)
qed

lemma ensure_top_ok:
  assumes "ipt_ensure_top run t c args s = (Inr u, s')"
  obtains rs where "view s t c = Some rs"
    "view s' = chain_upd (view s) t c (Some (if args \<in> set rs then rs else args # rs))"
proof -
  obtain b s1 where 1: "run (on_table t (''-C'' # c # args)) s = (Inr b, s1)"
    and rest: "(if b then eff_ok () else eff_bind (ipt_run run t (''-I'' # c # ''1'' # args)) (\<lambda>done.
         if \<not> done then eff_fail (IptError (''failed to insert into '' @ c)) else eff_ok ())) s1 = (Inr u, s')"
    using assms unfolding ipt_ensure_top_def by (elim eff_bind_okE run_okE) blast
  have idem: "chain_upd (view s) t c (Some rs) = view s" if "view s t c = Some rs" for rs
    using that by (simp add: chain_upd_def fun_upd_idem)
  show ?thesis
  proof (cases b)
    case True
    then show ?thesis using rest check_rule [OF 1] idem that by (auto simp: eff_ok_def)
  next
    case False
    then obtain b2 where "run (on_table t (''-I'' # c # ''1'' # args)) s1 = (Inr b2, s')" "b2"
      using rest by (auto simp: eff_ok_def eff_fail_def elim!: eff_bind_okE run_okE split: if_splits)
    then show ?thesis using insert_rule check_rule [OF 1] False that by fastforce
  qed
qed

end

section \<open>A table in memory\<close>

type_synonym ipt_tables = "((string \<times> string) \<times> string list list) list"

definition ipt_view_of :: "ipt_tables \<Rightarrow> ipt_view" where
  "ipt_view_of s t c = map_of s (t, c)"

fun ipt_exec :: "ipt_tables ipt_run" where
  "ipt_exec (w # dt # t # verb # c # args) s =
     (case map_of s (t, c) of
        None \<Rightarrow> if verb = ''-N'' then (Inr True, al_put (t, c) [] s) else (Inr False, s)
      | Some rs \<Rightarrow>
          if verb = ''-C'' then (Inr (args \<in> set rs), s)
          else if verb = ''-A'' then (Inr True, al_put (t, c) (rs @ [args]) s)
          else if verb = ''-I'' then (Inr True, al_put (t, c) (tl args # rs) s)
          else if verb = ''-F'' then (Inr True, al_put (t, c) [] s)
          else if verb = ''-D'' \<and> args \<in> set rs then (Inr True, al_put (t, c) (remove1 args rs) s)
          else (Inr False, s))"
| "ipt_exec _ s = (Inr False, s)"

lemma ipt_view_put: "ipt_view_of (al_put (t, c) rs s) = chain_upd (ipt_view_of s) t c (Some rs)"
  by (auto simp: ipt_view_of_def chain_upd_def fun_eq_iff)

interpretation ipt_mem: iptables ipt_exec ipt_view_of
  by unfold_locales (auto simp: ipt_view_put ipt_view_of_def split: option.splits if_splits)


end
