(* ===== verification/Kr_ProxyRules.thy ===== *)
theory Kr_ProxyRules
  imports Kr_Iptables
begin

text \<open>
  The rule sets of the service proxy: hairpin SNAT (\<^verbatim>\<open>hairpin.rs\<close>), masquerading (\<^verbatim>\<open>masquerade.rs\<close>), MSS
  clamping (\<^verbatim>\<open>tcpmss.rs\<close>), the service firewall (\<^verbatim>\<open>firewall.rs\<close>), node-port health checks (\<^verbatim>\<open>nodeport_hc.rs\<close>) and
  the listing of local addresses (\<^verbatim>\<open>local_ips.rs\<close>).
\<close>

section \<open>Hairpin\<close>

definition HAIRPIN_CHAIN :: string where "HAIRPIN_CHAIN = ''KUBE-ROUTER-HAIRPIN''"

definition cidr_self :: "ip_addr \<Rightarrow> string" where
  "cidr_self ip = show_addr ip @ (if is_ipv6 ip then ''/128'' else ''/32'')"

definition show_u16 :: "u16 \<Rightarrow> string" where
  "show_u16 p = show_nat (unat p)"

definition hairpin_snat_args :: "ip_addr \<Rightarrow> ip_addr \<Rightarrow> u16 \<Rightarrow> string list" where
  "hairpin_snat_args ep vip port =
     [''-s'', cidr_self ep, ''-d'', cidr_self ep, ''-m'', ''ipvs'', ''--vaddr'', show_addr vip, ''--vport'', show_u16 port,
      ''-j'', ''SNAT'', ''--to-source'', show_addr vip]"

definition hairpin_jump_args :: "string list" where
  "hairpin_jump_args = [''-m'', ''ipvs'', ''--vdir'', ''ORIGINAL'', ''-j'', HAIRPIN_CHAIN]"

type_synonym services = "(service_info \<times> endpoint_info list) list"

definition hairpin_vips :: "service_info \<Rightarrow> bool \<Rightarrow> ip_addr list" where
  "hairpin_vips svc ipv6 =
     filter (\<lambda>v. is_ipv6 v = ipv6)
       (si_cluster_ips svc @ (if si_hairpin_external_ips svc then si_external_ips svc else []))"

definition hairpin_service_rules :: "bool \<Rightarrow> bool \<Rightarrow> service_info \<Rightarrow> endpoint_info list \<Rightarrow> string list list" where
  "hairpin_service_rules global ipv6 svc eps =
     (if \<not> (global \<or> si_hairpin svc) then []
      else concat (map (\<lambda>ep. if \<not> ep_is_local ep \<or> \<not> ep_ready ep \<or> is_ipv6 (ep_ip ep) \<noteq> ipv6 then []
             else map (\<lambda>vip. hairpin_snat_args (ep_ip ep) vip (si_port svc)) (hairpin_vips svc ipv6)) eps))"

definition hairpin_rules_for_family :: "services \<Rightarrow> bool \<Rightarrow> bool \<Rightarrow> string list list" where
  "hairpin_rules_for_family services global ipv6 =
     fold add_unique (concat (map (\<lambda>(svc, eps). hairpin_service_rules global ipv6 svc eps) services)) []"

definition sync_hairpin :: "'s nat_ops \<Rightarrow> string list list \<Rightarrow> ('s, ipt_error, unit) eff" where
  "sync_hairpin ops rules =
     eff_bind (na_ensure_chain ops HAIRPIN_CHAIN) (\<lambda>_.
     eff_bind (na_append_unique ops ''POSTROUTING'' hairpin_jump_args) (\<lambda>_.
     eff_bind (na_flush_chain ops HAIRPIN_CHAIN) (\<lambda>_.
     for_each (na_append_unique ops HAIRPIN_CHAIN) rules)))"

section \<open>Masquerading\<close>

definition masquerade_args :: "ip_addr \<Rightarrow> string option \<Rightarrow> bool \<Rightarrow> string list" where
  "masquerade_args primary cidr random_fully =
     [''-m'', ''ipvs'', ''--ipvs'', ''--vdir'', ''ORIGINAL'', ''--vmethod'', ''MASQ'']
     @ (case cidr of Some c \<Rightarrow> [''!'', ''-s'', c, ''!'', ''-d'', c] | None \<Rightarrow> [])
     @ [''-j'', ''SNAT'', ''--to-source'', show_addr primary]
     @ (if random_fully then [''--random-fully''] else [])"

definition sync_masquerade :: "'s nat_ops \<Rightarrow> ip_addr \<Rightarrow> string list \<Rightarrow> bool \<Rightarrow> bool \<Rightarrow> ('s, ipt_error, unit) eff" where
  "sync_masquerade ops primary pod_cidrs masquerade_all random_fully =
     eff_bind ((if masquerade_all then na_append_unique ops else na_delete ops) ''POSTROUTING''
        (masquerade_args primary None random_fully)) (\<lambda>_.
     for_each (\<lambda>cidr. na_append_unique ops ''POSTROUTING'' (masquerade_args primary (Some cidr) random_fully)) pod_cidrs)"

section \<open>MSS clamping\<close>

definition KUBE_BRIDGE :: string where "KUBE_BRIDGE = ''kube-bridge''"
definition IPV4_HEADER_LEN :: i32 where "IPV4_HEADER_LEN = 20"
definition IPV6_HEADER_LEN :: i32 where "IPV6_HEADER_LEN = 40"
definition TCP_HEADER_MIN_LEN :: i32 where "TCP_HEADER_MIN_LEN = 20"

definition tcp_mss :: "i32 \<Rightarrow> bool \<Rightarrow> i32" where
  "tcp_mss mtu ipv6 =
     (let ip_header = (if ipv6 then IPV6_HEADER_LEN else IPV4_HEADER_LEN) in mtu - (2 * ip_header + TCP_HEADER_MIN_LEN))"

definition tcpmss_mangle_args :: "ip_addr \<Rightarrow> u16 \<Rightarrow> i32 \<Rightarrow> string list" where
  "tcpmss_mangle_args ip port mss =
     [''-s'', show_addr ip, ''-m'', ''tcp'', ''-p'', ''tcp'', ''--sport'', show_u16 port, ''-i'', KUBE_BRIDGE,
      ''--tcp-flags'', ''SYN,RST'', ''SYN'', ''-j'', ''TCPMSS'', ''--set-mss'', show_i32 mss]"

definition ensure_tcpmss :: "'s mangle_ops \<Rightarrow> ip_addr \<Rightarrow> u16 \<Rightarrow> i32 \<Rightarrow> ('s, ipt_error, unit) eff" where
  "ensure_tcpmss ops ip port mtu =
     ma_append_unique ops ''PREROUTING'' (tcpmss_mangle_args ip port (tcp_mss mtu (is_ipv6 ip)))"

definition remove_tcpmss :: "'s mangle_ops \<Rightarrow> ip_addr \<Rightarrow> u16 \<Rightarrow> i32 \<Rightarrow> ('s, ipt_error, unit) eff" where
  "remove_tcpmss ops ip port mtu =
     ma_delete ops ''PREROUTING'' (tcpmss_mangle_args ip port (tcp_mss mtu (is_ipv6 ip)))"

section \<open>Service firewall\<close>

definition LOCAL_IPS_SET :: string where "LOCAL_IPS_SET = ''kube-router-local-ips''"
definition SERVICE_IPS_SET :: string where "SERVICE_IPS_SET = ''kube-router-svip''"
definition SERVICE_IP_PORTS_SET :: string where "SERVICE_IP_PORTS_SET = ''kube-router-svip-prt''"
definition FIREWALL_CHAIN :: string where "FIREWALL_CHAIN = ''KUBE-ROUTER-SERVICES''"

definition ipset_name :: "string \<Rightarrow> bool \<Rightarrow> string" where
  "ipset_name base ipv6 = (if ipv6 then ''inet6:'' @ base else base)"

fun fw_proto_name :: "protocol \<Rightarrow> string" where
  "fw_proto_name Tcp = ''tcp''"
| "fw_proto_name Udp = ''udp''"
| "fw_proto_name Sctp = ''132''"

definition icmp_accept_rules :: "bool \<Rightarrow> string list list" where
  "icmp_accept_rules ipv6 =
     map (\<lambda>(t, comment).
         [''-m'', ''comment'', ''--comment'', comment, ''-p'', if ipv6 then ''ipv6-icmp'' else ''icmp'',
          if ipv6 then ''--icmpv6-type'' else ''--icmp-type'', t, ''-j'', ''ACCEPT''])
       ([(''echo-request'', ''allow icmp echo requests''),
         (''destination-unreachable'', ''allow icmp destination unreachable messages''),
         (''time-exceeded'', ''allow icmp time exceeded messages'')]
        @ (if ipv6 then [(''neighbor-solicitation'', ''allow icmp neighbor solicitation messages''),
             (''neighbor-advertisement'', ''allow icmp neighbor advertisement messages''),
             (''echo-reply'', ''allow icmp echo reply messages'')] else []))"

definition service_accept_rule :: "bool \<Rightarrow> string list" where
  "service_accept_rule ipv6 =
     [''-m'', ''comment'', ''--comment'', ''allow input traffic to ipvs services'', ''-m'', ''set'', ''--match-set'',
      ipset_name SERVICE_IP_PORTS_SET ipv6, ''dst,dst'', ''-j'', ''ACCEPT'']"

definition reject_rule :: "bool \<Rightarrow> string list" where
  "reject_rule ipv6 =
     [''-m'', ''comment'', ''--comment'', ''reject all unexpected traffic to service IPs'', ''-m'', ''set'', ''!'', ''--match-set'',
      ipset_name LOCAL_IPS_SET ipv6, ''dst'', ''-j'', ''REJECT'', ''--reject-with'',
      if ipv6 then ''icmp6-port-unreachable'' else ''icmp-port-unreachable'']"

definition input_jump_rule :: "bool \<Rightarrow> string list" where
  "input_jump_rule ipv6 =
     [''-m'', ''comment'', ''--comment'', ''handle traffic to IPVS service IPs in custom chain'', ''-m'', ''set'', ''--match-set'',
      ipset_name SERVICE_IPS_SET ipv6, ''dst'', ''-j'', FIREWALL_CHAIN]"

definition fw_create :: "bool \<Rightarrow> string \<Rightarrow> string \<Rightarrow> string" where
  "fw_create ipv6 name kind =
     ''create '' @ name @ '' '' @ kind @ '' family '' @ (if ipv6 then ''inet6'' else ''inet'') @ '' timeout 0 -exist'' @ nl
     @ ''flush '' @ name @ nl"

definition fw_ipset_restore_payload :: "ip_addr list \<Rightarrow> svc_key list \<Rightarrow> bool \<Rightarrow> string" where
  "fw_ipset_restore_payload local_ips vips ipv6 =
     fw_create ipv6 (ipset_name LOCAL_IPS_SET ipv6) ''hash:ip''
     @ fw_create ipv6 (ipset_name SERVICE_IPS_SET ipv6) ''hash:ip''
     @ fw_create ipv6 (ipset_name SERVICE_IP_PORTS_SET ipv6) ''hash:ip,port''
     @ concat (map (\<lambda>ip. ''add '' @ ipset_name LOCAL_IPS_SET ipv6 @ '' '' @ show_addr ip @ nl)
         (filter (\<lambda>ip. is_ipv6 ip = ipv6) local_ips))
     @ concat (map (\<lambda>(ip, proto, port). ''add '' @ ipset_name SERVICE_IPS_SET ipv6 @ '' '' @ show_addr ip @ nl
           @ ''add '' @ ipset_name SERVICE_IP_PORTS_SET ipv6 @ '' '' @ show_addr ip @ '','' @ fw_proto_name proto @ '':''
           @ show_u16 port @ nl)
         (filter (\<lambda>(ip, _, _). is_ipv6 ip = ipv6) vips))"

definition setup_firewall :: "'s fw_iptables \<Rightarrow> bool \<Rightarrow> bool \<Rightarrow> ('s, ipt_error, unit) eff" where
  "setup_firewall ipt ipv6 permit_all =
     eff_bind (fi_clear_chain ipt FIREWALL_CHAIN) (\<lambda>_.
       if permit_all then fi_delete ipt ''INPUT'' (input_jump_rule ipv6)
       else eff_bind (for_each (fi_append_unique ipt FIREWALL_CHAIN) (icmp_accept_rules ipv6)) (\<lambda>_.
            eff_bind (fi_append_unique ipt FIREWALL_CHAIN (service_accept_rule ipv6)) (\<lambda>_.
            eff_bind (fi_append_unique ipt FIREWALL_CHAIN (reject_rule ipv6)) (\<lambda>_.
            fi_ensure_top ipt ''INPUT'' (input_jump_rule ipv6)))))"

definition sync_firewall_sets ::
  "(string \<Rightarrow> ('s, ipt_error, unit) eff) \<Rightarrow> ip_addr list \<Rightarrow> svc_key list \<Rightarrow> bool \<Rightarrow> ('s, ipt_error, unit) eff" where
  "sync_firewall_sets restore local_ips vips ipv6 = restore (fw_ipset_restore_payload local_ips vips ipv6)"

section \<open>Node-port health checks\<close>

definition active_local_counts :: "services \<Rightarrow> (u16 \<times> nat) list" where
  "active_local_counts services =
     fold (\<lambda>(svc, eps) out. case si_health_check_node_port svc of
            None \<Rightarrow> out
          | Some port \<Rightarrow> bmap_insert port ((case map_of out port of Some n \<Rightarrow> n | None \<Rightarrow> 0)
               + length (filter (\<lambda>e. ep_is_local e \<and> ep_ready e) eps)) out) services []"

record http_response =
  hr_status :: u16
  hr_content_type :: string
  hr_body :: string

definition nphc_response :: "string \<Rightarrow> u16 \<Rightarrow> (u16 \<times> nat) list \<Rightarrow> http_response" where
  "nphc_response path port counts =
     (if \<not> starts_with ''/healthz'' path then \<lparr> hr_status = 404, hr_content_type = ''text/plain'', hr_body = ''not found'' \<rparr>
      else let active = (case map_of counts port of Some n \<Rightarrow> n | None \<Rightarrow> 0) in
        if active > 0 then \<lparr> hr_status = 200, hr_content_type = ''text/plain'',
             hr_body = show_nat active @ '' Service Endpoints found'' @ nl \<rparr>
        else \<lparr> hr_status = 503, hr_content_type = ''text/plain'', hr_body = ''No Service Endpoints Found'' @ nl \<rparr>)"

text \<open>One server per port; binding may fail, stopping cannot.\<close>

record nphc =
  nh_counts :: "(u16 \<times> nat) list"
  nh_servers :: "u16 list"
  nh_bind_host :: string

definition nphc_new :: nphc where
  "nphc_new = \<lparr> nh_counts = [], nh_servers = [], nh_bind_host = ''0.0.0.0'' \<rparr>"

fun nphc_start :: "(string \<Rightarrow> ('s, string, unit) eff) \<Rightarrow> u16 list \<Rightarrow> nphc \<Rightarrow> 's \<Rightarrow> (string + unit) \<times> nphc \<times> 's" where
  "nphc_start bind [] h s = (Inr (), h, s)"
| "nphc_start bind (port # ports) h s =
     (if port \<in> set (nh_servers h) then nphc_start bind ports h s
      else case bind (nh_bind_host h @ '':'' @ show_u16 port) s of
          (Inl e, s') \<Rightarrow> (Inl e, h, s')
        | (Inr _, s') \<Rightarrow> nphc_start bind ports (h \<lparr> nh_servers := btree_set (port # nh_servers h) \<rparr>) s')"

definition nphc_sync ::
  "(string \<Rightarrow> ('s, string, unit) eff) \<Rightarrow> (u16 \<times> nat) list \<Rightarrow> nphc \<Rightarrow> 's \<Rightarrow> (string + unit) \<times> nphc \<times> 's" where
  "nphc_sync bind desired h s =
     nphc_start bind (map fst desired)
       (h \<lparr> nh_counts := desired, nh_servers := filter (\<lambda>p. p \<in> fst ` set desired) (nh_servers h) \<rparr>) s"

section \<open>Local addresses\<close>

definition EXCLUDED :: "string list" where
  "EXCLUDED = [''dummy'', ''kube'', ''docker'']"

definition is_loopback :: "ip_addr \<Rightarrow> bool" where
  "is_loopback a = (case a of AddrV4 w \<Rightarrow> drop_bit 24 w = 127 | AddrV6 w \<Rightarrow> w = 1)"

text \<open>The address of a line of \<^verbatim>\<open>ip -o addr show\<close>.\<close>

definition addr_field :: "string list \<Rightarrow> ip_addr option" where
  "addr_field f =
     (if length f < 4 \<or> (f ! 2 \<noteq> ''inet'' \<and> f ! 2 \<noteq> ''inet6'') then None
      else Option.bind (split_once CHR ''/'' (f ! 3)) (\<lambda>(addr, _). parse_addr addr))"

definition parse_ip_addr_output :: "string \<Rightarrow> ip_addr list" where
  "parse_ip_addr_output out =
     fold (\<lambda>line ips.
         let f = split_whitespace line in
         if length f \<ge> 4 \<and> list_ex (\<lambda>e. str_contains (f ! 1) e) EXCLUDED then ips
         else case addr_field f of
             Some ip \<Rightarrow> if \<not> is_loopback ip \<and> ip \<notin> set ips then ips @ [ip] else ips
           | None \<Rightarrow> ips)
       (str_lines out) []"

definition parse_iface_for_ip :: "string \<Rightarrow> ip_addr \<Rightarrow> string option" where
  "parse_iface_for_ip out ip =
     map_option (\<lambda>line. split_whitespace line ! 1) (find (\<lambda>line. addr_field (split_whitespace line) = Some ip) (str_lines out))"

section \<open>Properties\<close>

definition wants_hairpin :: "services \<Rightarrow> bool \<Rightarrow> bool \<Rightarrow> ip_addr \<Rightarrow> ip_addr \<Rightarrow> u16 \<Rightarrow> bool" where
  "wants_hairpin services global ipv6 ep vip port \<longleftrightarrow>
     (\<exists>(svc, eps)\<in>set services. (global \<or> si_hairpin svc) \<and> si_port svc = port
        \<and> vip \<in> set (hairpin_vips svc ipv6) \<and> is_ipv6 ep = ipv6
        \<and> (\<exists>e\<in>set eps. ep_is_local e \<and> ep_ready e \<and> ep_ip e = ep))"

lemma set_hairpin_rules:
  "set (hairpin_rules_for_family services global ipv6) =
     {hairpin_snat_args ep vip port | ep vip port. wants_hairpin services global ipv6 ep vip port}"
proof -
  have one: "set (hairpin_service_rules global ipv6 svc eps) =
      {hairpin_snat_args ep vip (si_port svc) | ep vip. (global \<or> si_hairpin svc) \<and> vip \<in> set (hairpin_vips svc ipv6)
        \<and> is_ipv6 ep = ipv6 \<and> (\<exists>e\<in>set eps. ep_is_local e \<and> ep_ready e \<and> ep_ip e = ep)}" for svc eps
    unfolding hairpin_service_rules_def by (auto split: if_splits)
  have "set (hairpin_rules_for_family services global ipv6)
      = (\<Union>(svc, eps)\<in>set services. set (hairpin_service_rules global ipv6 svc eps))"
    by (auto simp: hairpin_rules_for_family_def)
  also have "\<dots> = {hairpin_snat_args ep vip port | ep vip port. wants_hairpin services global ipv6 ep vip port}"
    unfolding one wants_hairpin_def by (auto; blast)
  finally show ?thesis .
qed

lemma sync_hairpin_view:
  assumes "iptables run view" "sync_hairpin (system_nat run) rules s = (Inr u, s')" "distinct rules"
    and post: "view s ''nat'' ''POSTROUTING'' = Some rs"
  shows "view s' ''nat'' HAIRPIN_CHAIN = Some rules"
    "view s' ''nat'' ''POSTROUTING'' = Some (add_unique hairpin_jump_args rs)"
    "\<And>c. c \<notin> {HAIRPIN_CHAIN, ''POSTROUTING''} \<Longrightarrow> view s' ''nat'' c = view s ''nat'' c"
    "\<And>t. t \<noteq> ''nat'' \<Longrightarrow> view s' t = view s t"
proof -
  have ne: "HAIRPIN_CHAIN \<noteq> ''POSTROUTING''" "''POSTROUTING'' \<noteq> HAIRPIN_CHAIN" by (simp_all add: HAIRPIN_CHAIN_def)
  obtain s1 s2 s3 u1 u2 u3 where
    1: "ipt_ensure_chain run ''nat'' HAIRPIN_CHAIN s = (Inr u1, s1)" and
    2: "ipt_append_unique run ''nat'' ''POSTROUTING'' hairpin_jump_args s1 = (Inr u2, s2)" and
    3: "ipt_flush_chain run ''nat'' HAIRPIN_CHAIN s2 = (Inr u3, s3)" and
    4: "for_each (ipt_append_unique run ''nat'' HAIRPIN_CHAIN) rules s3 = (Inr u, s')"
    using assms(2) unfolding sync_hairpin_def system_nat_def by (auto elim!: eff_bind_okE)
  note v1 = iptables.ensure_chain_ok [OF assms(1) 1]
  obtain rs' where p: "view s1 ''nat'' ''POSTROUTING'' = Some rs'"
    and v2: "view s2 = chain_upd (view s1) ''nat'' ''POSTROUTING'' (Some (add_unique hairpin_jump_args rs'))"
    using iptables.append_unique_ok [OF assms(1) 2] .
  note v3 = iptables.flush_chain_ok [OF assms(1) 3]
  have h2: "view s2 ''nat'' HAIRPIN_CHAIN \<noteq> None" using v1 v2 ne by (simp split: if_splits)
  then have v3': "view s3 = chain_upd (view s2) ''nat'' HAIRPIN_CHAIN (Some [])"
    using v3 by (metis (full_types))
  have v4: "view s' = chain_upd (view s3) ''nat'' HAIRPIN_CHAIN (Some (fold add_unique rules []))"
    using iptables.append_all_ok [OF assms(1) 4, of "[]"] v3' by simp
  show "view s' ''nat'' HAIRPIN_CHAIN = Some rules"
    using v4 fold_add_unique_distinct [of "[]" rules] assms(3) by simp
  show "view s' ''nat'' ''POSTROUTING'' = Some (add_unique hairpin_jump_args rs)"
    using v4 v3' v2 v1 p post ne by (simp split: if_splits)
  show "\<And>c. c \<notin> {HAIRPIN_CHAIN, ''POSTROUTING''} \<Longrightarrow> view s' ''nat'' c = view s ''nat'' c"
    using v4 v3' v2 v1 by (simp split: if_splits)
  show "\<And>t. t \<noteq> ''nat'' \<Longrightarrow> view s' t = view s t"
    using v4 v3' v2 v1 by (simp split: if_splits)
qed

text \<open>C30: A hairpin sync that succeeds leaves the hairpin chain with exactly one SNAT rule for each local ready
  endpoint and each virtual address of its hairpin services in the family, keeps the jump to the chain, and touches
  no other chain.\<close>

theorem hairpin_chain_exact:
  assumes "iptables run view"
    and "sync_hairpin (system_nat run) (hairpin_rules_for_family services global ipv6) s = (Inr u, s')"
    and "view s ''nat'' ''POSTROUTING'' = Some rs"
  shows "(\<exists>rules. view s' ''nat'' HAIRPIN_CHAIN = Some rules \<and> distinct rules
      \<and> set rules = {hairpin_snat_args ep vip port | ep vip port. wants_hairpin services global ipv6 ep vip port})
    \<and> view s' ''nat'' ''POSTROUTING'' = Some (add_unique hairpin_jump_args rs)
    \<and> (\<forall>t c. (t, c) \<notin> {(''nat'', HAIRPIN_CHAIN), (''nat'', ''POSTROUTING'')} \<longrightarrow> view s' t c = view s t c)"
proof -
  have d: "distinct (hairpin_rules_for_family services global ipv6)"
    by (simp add: hairpin_rules_for_family_def distinct_fold_add_unique)
  note v = sync_hairpin_view [of run view, OF assms(1,2) d assms(3)]
  have "view s' t c = view s t c" if "(t, c) \<notin> {(''nat'', HAIRPIN_CHAIN), (''nat'', ''POSTROUTING'')}" for t c
    using v(3,4) that by (cases "t = ''nat''") simp_all
  moreover have "\<exists>rules. view s' ''nat'' HAIRPIN_CHAIN = Some rules \<and> distinct rules
      \<and> set rules = {hairpin_snat_args ep vip port | ep vip port. wants_hairpin services global ipv6 ep vip port}"
    using v(1) d set_hairpin_rules [of services global ipv6] by blast
  ultimately show ?thesis using v(2) by blast
qed

definition demo_service :: service_info where
  "demo_service = \<lparr> si_namespace = ''n'', si_name = ''web'', si_port_name = '''', si_protocol = Tcp, si_port = 80,
     si_node_port = None, si_cluster_ips = [AddrV4 0x0A600001], si_external_ips = [], si_load_balancer_ips = [],
     si_scheduler = Rr, si_sched_flags = no_flags, si_session_affinity = False, si_affinity_timeout = 0, si_dsr = False,
     si_internal_traffic_local = False, si_external_traffic_local = False, si_hairpin = True,
     si_hairpin_external_ips = False, si_health_check_node_port = Some 31000 \<rparr>"

definition demo_endpoint :: "ip_addr \<Rightarrow> endpoint_info" where
  "demo_endpoint a = \<lparr> ep_ip = a, ep_port = 8080, ep_is_local = True, ep_ready = True \<rparr>"

theorem hairpin_chain_exact_witness:
  "let services = [(demo_service, [demo_endpoint (AddrV4 0x0A000002)])]; s = [((''nat'', ''POSTROUTING''), [[''old'']])];
       s' = snd (sync_hairpin (system_nat ipt_exec) (hairpin_rules_for_family services False False) s) in
     ipt_view_of s' ''nat'' HAIRPIN_CHAIN = Some [hairpin_snat_args (AddrV4 0x0A000002) (AddrV4 0x0A600001) 80]
     \<and> ipt_view_of s' ''nat'' ''POSTROUTING'' = Some [[''old''], hairpin_jump_args]"
proof -
  let ?services = "[(demo_service, [demo_endpoint (AddrV4 0x0A000002)])]"
  let ?s = "[((''nat'', ''POSTROUTING''), [[''old'']])] :: ipt_tables"
  let ?rules = "hairpin_rules_for_family ?services False False"
  have run: "fst (sync_hairpin (system_nat ipt_exec) ?rules ?s) = Inr ()"
      and old: "ipt_view_of ?s ''nat'' ''POSTROUTING'' = Some [[''old'']]"
      and rule: "ipt_view_of (snd (sync_hairpin (system_nat ipt_exec) ?rules ?s)) ''nat'' HAIRPIN_CHAIN
        = Some [hairpin_snat_args (AddrV4 0x0A000002) (AddrV4 0x0A600001) 80]"
      and jump: "add_unique hairpin_jump_args [[''old'']] = [[''old''], hairpin_jump_args]"
    by code_simp+
  have "sync_hairpin (system_nat ipt_exec) ?rules ?s = (Inr (), snd (sync_hairpin (system_nat ipt_exec) ?rules ?s))"
    using run by (simp add: prod_eq_iff)
  note hairpin_chain_exact [of ipt_exec ipt_view_of, OF ipt_mem.iptables_axioms this old, THEN conjunct2, THEN conjunct1]
  with rule jump show ?thesis unfolding Let_def by (simp only: simp_thms)
qed


lemma counts_fold:
  fixes services :: services
  defines "step \<equiv> \<lambda>(svc, eps) out. case si_health_check_node_port svc of
            None \<Rightarrow> out
          | Some port \<Rightarrow> bmap_insert port ((case map_of out port of Some n \<Rightarrow> n | None \<Rightarrow> 0)
               + length (filter (\<lambda>e. ep_is_local e \<and> ep_ready e) eps)) out"
  shows "(\<exists>n. map_of (fold step services m) port = Some n \<and> 0 < n) \<longleftrightarrow>
    (\<exists>n. map_of m port = Some n \<and> 0 < n)
    \<or> (\<exists>(svc, eps)\<in>set services. si_health_check_node_port svc = Some port \<and> (\<exists>e\<in>set eps. ep_is_local e \<and> ep_ready e))"
proof (induction services arbitrary: m)
  case (Cons x services)
  obtain svc eps where x: "x = (svc, eps)" by (cases x)
  have "(\<exists>n. map_of (step x m) port = Some n \<and> 0 < n) \<longleftrightarrow> (\<exists>n. map_of m port = Some n \<and> 0 < n)
      \<or> si_health_check_node_port svc = Some port \<and> (\<exists>e\<in>set eps. ep_is_local e \<and> ep_ready e)"
    by (auto simp: x step_def map_of_bmap_insert filter_empty_conv split: option.splits)
  then show ?case using Cons.IH [of "step x m"] by (auto simp: x)
qed simp

text \<open>The health check of a node port answers 200 exactly when it is asked for its health path and some service
  with this health-check port has a ready endpoint on the node.\<close>

theorem nphc_ready_iff_local_endpoint:
  "hr_status (nphc_response path port (active_local_counts services)) = 200 \<longleftrightarrow>
     starts_with ''/healthz'' path
     \<and> (\<exists>(svc, eps)\<in>set services. si_health_check_node_port svc = Some port \<and> (\<exists>e\<in>set eps. ep_is_local e \<and> ep_ready e))"
proof -
  have "hr_status (nphc_response path port counts) = 200 \<longleftrightarrow>
      starts_with ''/healthz'' path \<and> (\<exists>n. map_of counts port = Some n \<and> 0 < n)" for counts
    by (auto simp: nphc_response_def Let_def split: option.splits)
  then show ?thesis
    using counts_fold [of services "[]" port] unfolding active_local_counts_def by simp
qed

text \<open>C31: Setting up the service firewall with success leaves its chain with the ICMP rules, the accept rule of the
  services and the reject rule, in this order and nothing else, and INPUT jumping to it; when everything is permitted
  the chain is empty and one jump is gone from INPUT.\<close>

theorem service_firewall_installed:
  assumes ipt: "iptables run view" and ok: "setup_firewall (system_fw_iptables run) ipv6 permit_all s = (Inr u, s')"
  shows "if permit_all
    then view s' ''filter'' FIREWALL_CHAIN = Some []
      \<and> view s' ''filter'' ''INPUT'' = map_option (remove1 (input_jump_rule ipv6)) (view s ''filter'' ''INPUT'')
    else view s' ''filter'' FIREWALL_CHAIN = Some (icmp_accept_rules ipv6 @ [service_accept_rule ipv6, reject_rule ipv6])
      \<and> (\<exists>rs. view s ''filter'' ''INPUT'' = Some rs
          \<and> view s' ''filter'' ''INPUT'' = Some (if input_jump_rule ipv6 \<in> set rs then rs else input_jump_rule ipv6 # rs))"
proof -
  have ne: "FIREWALL_CHAIN \<noteq> ''INPUT''" "''INPUT'' \<noteq> FIREWALL_CHAIN" by (simp_all add: FIREWALL_CHAIN_def)
  obtain u1 s1 where 1: "ipt_clear_chain run ''filter'' FIREWALL_CHAIN s = (Inr u1, s1)"
    using ok unfolding setup_firewall_def system_fw_iptables_def by (auto elim!: eff_bind_okE)
  note v1 = iptables.clear_chain_ok [OF ipt 1]
  show ?thesis
  proof (cases permit_all)
    case True
    then have "ipt_delete run ''filter'' ''INPUT'' (input_jump_rule ipv6) s1 = (Inr u, s')"
      using ok 1 unfolding setup_firewall_def system_fw_iptables_def by (simp add: eff_simps)
    from iptables.delete_ok [OF ipt this] v1 ne True show ?thesis by simp
  next
    case False
    let ?app = "ipt_append_unique run ''filter'' FIREWALL_CHAIN"
    obtain u2 s2 u3 s3 u4 s4 where
      2: "for_each ?app (icmp_accept_rules ipv6) s1 = (Inr u2, s2)" and
      3: "?app (service_accept_rule ipv6) s2 = (Inr u3, s3)" and
      4: "?app (reject_rule ipv6) s3 = (Inr u4, s4)" and
      5: "ipt_ensure_top run ''filter'' ''INPUT'' (input_jump_rule ipv6) s4 = (Inr u, s')"
      using ok 1 False unfolding setup_firewall_def system_fw_iptables_def
      by (auto simp: eff_simps elim!: eff_bind_okE)
    have v: "view s2 = chain_upd (view s1) ''filter'' FIREWALL_CHAIN (Some (fold add_unique (icmp_accept_rules ipv6) []))"
      using iptables.append_all_ok [OF ipt 2, of "[]"] v1 by simp
    obtain r3 where "view s2 ''filter'' FIREWALL_CHAIN = Some r3"
        "view s3 = chain_upd (view s2) ''filter'' FIREWALL_CHAIN (Some (add_unique (service_accept_rule ipv6) r3))"
      using iptables.append_unique_ok [OF ipt 3] .
    moreover obtain r4 where "view s3 ''filter'' FIREWALL_CHAIN = Some r4"
        "view s4 = chain_upd (view s3) ''filter'' FIREWALL_CHAIN (Some (add_unique (reject_rule ipv6) r4))"
      using iptables.append_unique_ok [OF ipt 4] .
    ultimately have v4: "view s4 = chain_upd (view s) ''filter'' FIREWALL_CHAIN (Some (fold add_unique
        (icmp_accept_rules ipv6 @ [service_accept_rule ipv6, reject_rule ipv6]) []))"
      using v v1 by simp
    have d: "distinct (icmp_accept_rules ipv6 @ [service_accept_rule ipv6, reject_rule ipv6])"
      by (cases ipv6) (simp_all add: icmp_accept_rules_def service_accept_rule_def reject_rule_def)
    note v4 = v4 [unfolded fold_add_unique_distinct [of "[]", unfolded append_Nil, OF d]]
    obtain rs where "view s4 ''filter'' ''INPUT'' = Some rs"
        "view s' = chain_upd (view s4) ''filter'' ''INPUT'' (Some (if input_jump_rule ipv6 \<in> set rs then rs
          else input_jump_rule ipv6 # rs))"
      using iptables.ensure_top_ok [OF ipt 5] .
    then show ?thesis
      using v4 ne False by simp
  qed
qed

theorem service_firewall_installed_witness:
  "let s = [((''filter'', ''INPUT''), [[''old'']])];
       s' = snd (setup_firewall (system_fw_iptables ipt_exec) False False s) in
     ipt_view_of s' ''filter'' FIREWALL_CHAIN
       = Some (icmp_accept_rules False @ [service_accept_rule False, reject_rule False])
     \<and> ipt_view_of s' ''filter'' ''INPUT'' = Some [input_jump_rule False, [''old'']]"
proof -
  let ?s = "[((''filter'', ''INPUT''), [[''old'']])] :: ipt_tables"
  have run: "fst (setup_firewall (system_fw_iptables ipt_exec) False False ?s) = Inr ()"
      and old: "ipt_view_of ?s ''filter'' ''INPUT'' = Some [[''old'']]"
      and new: "input_jump_rule False \<noteq> [''old'']"
    by code_simp+
  have ok: "setup_firewall (system_fw_iptables ipt_exec) False False ?s
      = (Inr (), snd (setup_firewall (system_fw_iptables ipt_exec) False False ?s))"
    using run by (simp add: prod_eq_iff)
  from service_firewall_installed [of ipt_exec ipt_view_of, OF ipt_mem.iptables_axioms ok] old new
  show ?thesis unfolding Let_def if_False by force
qed

text \<open>C32: For every MTU of at least 100 the clamped segment size is the MTU less two IP headers and a TCP header,
  not negative, with no wrap-around.\<close>

theorem tcp_mss_bounds:
  assumes "100 \<le> sint mtu"
  shows "sint (tcp_mss mtu ipv6) = sint mtu - (if ipv6 then 100 else 60) \<and> 0 \<le> sint (tcp_mss mtu ipv6)"
proof -
  have hdr: "2 * (if ipv6 then IPV6_HEADER_LEN else IPV4_HEADER_LEN) + TCP_HEADER_MIN_LEN = (if ipv6 then 100 else 60)"
    by (simp add: IPV6_HEADER_LEN_def IPV4_HEADER_LEN_def TCP_HEADER_MIN_LEN_def)
  have "sint mtu < 2 ^ 31" using sint_lt [of mtu] by simp
  then have "signed_take_bit 31 (sint mtu - (if ipv6 then 100 else 60)) = sint mtu - (if ipv6 then 100 else 60)"
    using assms by (intro signed_take_bit_int_eq_self) auto
  then have eq: "sint (tcp_mss mtu ipv6) = sint mtu - (if ipv6 then 100 else 60)"
    by (simp add: tcp_mss_def Let_def hdr sint_word_ariths split: if_splits)
  have "0 \<le> sint mtu - (if ipv6 then 100 else 60)" using assms by simp
  then show ?thesis unfolding eq by blast
qed

theorem tcp_mss_bounds_witness: "sint (tcp_mss 1500 True) = 1400"
  using tcp_mss_bounds [of 1500 True] by simp


end
