(* ===== verification/Kr_Dsr.thy ===== *)
theory Kr_Dsr
  imports Kr_ProxyRules
begin

text \<open>
  Direct server return, \<^verbatim>\<open>crates/proxy/src/dsr.rs\<close>: the marks of services (a 14-bit FNV-1a hash with salted
  probing), the command lines, and the programming of the host side. The lemmas show that a mark belongs to one
  service and stays with it.
\<close>

section \<open>Marks\<close>

definition MAX_FWMARK :: u32 where "MAX_FWMARK = 0x3FFF"
definition MAX_UNIQUE_FWMARK_INC :: int where "MAX_UNIQUE_FWMARK_INC = 16380"

fun proto_name :: "protocol \<Rightarrow> string" where
  "proto_name Tcp = ''tcp''"
| "proto_name Udp = ''udp''"
| "proto_name Sctp = ''sctp''"

definition fnv1a_32 :: "string \<Rightarrow> u32" where
  "fnv1a_32 s = foldl (\<lambda>h b. (h XOR of_char b) * 0x01000193) 0x811c9dc5 s"

definition generate_fwmark :: "string \<Rightarrow> int \<Rightarrow> u32" where
  "generate_fwmark key increment =
     fnv1a_32 (if increment = 0 then key else key @ ''-'' @ show_nat (nat increment)) AND MAX_FWMARK"

definition service_key :: "string \<Rightarrow> protocol \<Rightarrow> u16 \<Rightarrow> string" where
  "service_key ip proto port = ip @ ''-'' @ proto_name proto @ ''-'' @ show_u16 port"

datatype dsr_error = FwMarkExhausted string int | DsrIpvs ipvs_error | DsrMangle ipt_error

type_synonym fwmark_registry = "(u32 \<times> string) list"

function assign_loop :: "string \<Rightarrow> fwmark_registry \<Rightarrow> int \<Rightarrow> (dsr_error + u32) \<times> fwmark_registry" where
  "assign_loop key m increment =
     (let mark = generate_fwmark key increment in
      case map_of m mark of
        Some found \<Rightarrow>
          if found \<noteq> key then
            (if increment + 1 \<ge> MAX_UNIQUE_FWMARK_INC then (Inl (FwMarkExhausted key MAX_UNIQUE_FWMARK_INC), m)
             else assign_loop key m (increment + 1))
          else (Inr mark, bmap_insert mark key m)
      | None \<Rightarrow> (Inr mark, bmap_insert mark key m))"
  by pat_completeness auto
termination
  by (relation "measure (\<lambda>(key, m, increment). nat (MAX_UNIQUE_FWMARK_INC - increment))") auto

declare assign_loop.simps [simp del]

definition reg_assign :: "string \<Rightarrow> protocol \<Rightarrow> u16 \<Rightarrow> fwmark_registry \<Rightarrow> (dsr_error + u32) \<times> fwmark_registry" where
  "reg_assign ip proto port m = assign_loop (service_key ip proto port) m 0"

definition lookup_by_service :: "string \<Rightarrow> protocol \<Rightarrow> u16 \<Rightarrow> fwmark_registry \<Rightarrow> u32 option" where
  "lookup_by_service ip proto port m = map_option fst (find (\<lambda>(_, v). v = service_key ip proto port) m)"

definition lookup_by_fwmark :: "u32 \<Rightarrow> fwmark_registry \<Rightarrow> (string \<times> string \<times> u16) option" where
  "lookup_by_fwmark fwmark m =
     Option.bind (map_of m fwmark) (\<lambda>key.
       case split_on CHR ''-'' key of
         [ip, proto, port] \<Rightarrow> map_option (\<lambda>p. (ip, proto, p)) (parse_u16 port)
       | _ \<Rightarrow> None)"

definition reg_remove :: "u32 \<Rightarrow> fwmark_registry \<Rightarrow> fwmark_registry" where
  "reg_remove fwmark m = bmap_remove fwmark m"

section \<open>Command lines\<close>

definition KUBE_TUNNEL_IF_V4 :: string where "KUBE_TUNNEL_IF_V4 = ''kube-tunnel-if''"
definition KUBE_TUNNEL_IF_V6 :: string where "KUBE_TUNNEL_IF_V6 = ''kube-tunnel-v6''"

definition dsr_mark_args :: "ip_addr \<Rightarrow> protocol \<Rightarrow> u16 \<Rightarrow> u32 \<Rightarrow> string list" where
  "dsr_mark_args ip proto port fwmark =
     (let p = proto_name proto in
      [''-d'', show_addr ip, ''-m'', p, ''-p'', p, ''--dport'', show_u16 port, ''-j'', ''MARK'', ''--set-mark'', show_u32 fwmark])"

definition ip_rule_fwmark_args :: "string \<Rightarrow> u32 \<Rightarrow> u32 \<Rightarrow> u32 \<Rightarrow> string list" where
  "ip_rule_fwmark_args verb fwmark table priority =
     [''rule'', verb, ''fwmark'', show_u32 fwmark, ''table'', show_u32 table, ''priority'', show_u32 priority]"

definition ip_rule_from_all_args :: "string \<Rightarrow> u32 \<Rightarrow> u32 \<Rightarrow> string list" where
  "ip_rule_from_all_args verb table priority =
     [''rule'', verb, ''from'', ''all'', ''lookup'', show_u32 table, ''priority'', show_u32 priority]"

definition rt_tables_entry :: "u32 \<Rightarrow> string \<Rightarrow> string" where
  "rt_tables_entry i name = show_u32 i @ '' '' @ name"

definition rp_filter_key :: "string \<Rightarrow> string" where
  "rp_filter_key iface = ''net.ipv4.conf.'' @ iface @ ''.rp_filter''"

definition tunnel_setup_commands :: "ip_addr \<Rightarrow> string list list" where
  "tunnel_setup_commands vip =
     (let (name, mode) = (if is_ipv6 vip then (KUBE_TUNNEL_IF_V6, ''ip6tnl'') else (KUBE_TUNNEL_IF_V4, ''ipip''));
          plen = (if is_ipv6 vip then ''128'' else ''32'')
      in [[''link'', ''add'', name, ''type'', mode], [''link'', ''set'', name, ''up''],
          [''addr'', ''add'', show_addr vip @ ''/'' @ plen, ''dev'', name]])"

section \<open>The host side\<close>

definition dsr_dest :: "endpoint_info \<Rightarrow> ipvs_destination" where
  "dsr_dest ep = \<lparr> ds_addr = ep_ip ep, ds_port = ep_port ep, ds_weight = 1, ds_tunnel = True \<rparr>"

text \<open>What is done for one virtual address once it has its mark.\<close>

definition dsr_program ::
  "'s ipvs_ops \<Rightarrow> 's mangle_ops \<Rightarrow> ip_addr \<Rightarrow> protocol \<Rightarrow> u16 \<Rightarrow> endpoint_info list \<Rightarrow> scheduler \<Rightarrow> u32 option \<Rightarrow> u32
     \<Rightarrow> ('s, dsr_error, unit) eff" where
  "dsr_program iv ma vip proto port endpoints sched persistent fwmark =
     eff_bind (map_fail DsrIpvs (iv_add_fwmark_service iv fwmark sched persistent)) (\<lambda>_.
     eff_bind (for_each (\<lambda>ep. map_fail DsrIpvs (iv_add_fwmark_destination iv fwmark (dsr_dest ep))) (filter ep_ready endpoints)) (\<lambda>_.
     eff_bind (map_fail DsrMangle (ma_append_unique ma ''PREROUTING'' (dsr_mark_args vip proto port fwmark))) (\<lambda>_.
     map_fail DsrMangle (ma_append_unique ma ''OUTPUT'' (dsr_mark_args vip proto port fwmark)))))"

fun configure_dsr_host ::
  "'s ipvs_ops \<Rightarrow> 's mangle_ops \<Rightarrow> ip_addr list \<Rightarrow> protocol \<Rightarrow> u16 \<Rightarrow> endpoint_info list \<Rightarrow> scheduler \<Rightarrow> u32 option
     \<Rightarrow> fwmark_registry \<Rightarrow> 's \<Rightarrow> (dsr_error + u32 list) \<times> fwmark_registry \<times> 's" where
  "configure_dsr_host iv ma [] proto port endpoints sched persistent reg s = (Inr [], reg, s)"
| "configure_dsr_host iv ma (vip # vips) proto port endpoints sched persistent reg s =
     (case reg_assign (show_addr vip) proto port reg of
        (Inl e, reg') \<Rightarrow> (Inl e, reg', s)
      | (Inr fwmark, reg') \<Rightarrow>
          (case dsr_program iv ma vip proto port endpoints sched persistent fwmark s of
             (Inl e, s') \<Rightarrow> (Inl e, reg', s')
           | (Inr _, s') \<Rightarrow>
               (case configure_dsr_host iv ma vips proto port endpoints sched persistent reg' s' of
                  (Inl e, reg'', s'') \<Rightarrow> (Inl e, reg'', s'')
                | (Inr marks, reg'', s'') \<Rightarrow> (Inr (fwmark # marks), reg'', s''))))"

section \<open>Uniqueness and stability of marks\<close>

lemma assign_loop_spec:
  assumes "assign_loop key m i = (Inr mark, m')"
  shows "map_of m mark \<in> {None, Some key} \<and> m' = bmap_insert mark key m
    \<and> (\<exists>j. mark = generate_fwmark key j)
    \<and> (\<forall>n. map_of m \<subseteq>\<^sub>m map_of n \<longrightarrow> map_of n mark = Some key \<longrightarrow>
          assign_loop key n i = (Inr mark, bmap_insert mark key n))"
  using assms
proof (induction key m i rule: assign_loop.induct)
  case (1 key m i)
  let ?mk = "generate_fwmark key i"
  show ?case
  proof (cases "\<exists>found. map_of m ?mk = Some found \<and> found \<noteq> key")
    case True
    then obtain found where f: "map_of m ?mk = Some found" "found \<noteq> key" by blast
    with 1(2) have lt: "\<not> i + 1 \<ge> MAX_UNIQUE_FWMARK_INC" and rec: "assign_loop key m (i + 1) = (Inr mark, m')"
      by (auto simp: assign_loop.simps [of key m i] Let_def split: if_splits)
    have "assign_loop key n i = assign_loop key n (i + 1)" if "map_of m \<subseteq>\<^sub>m map_of n" for n
    proof -
      have "map_of n ?mk = Some found" using f that by (auto simp: map_le_def dom_def)
      then show ?thesis using f lt by (simp add: assign_loop.simps [of key n i] Let_def)
    qed
    then show ?thesis using 1(1) [OF refl f(1) f(2) lt rec] by auto
  next
    case False
    then have mk: "mark = ?mk" "m' = bmap_insert ?mk key m" and fr: "map_of m ?mk \<in> {None, Some key}"
      using 1(2) by (auto simp: assign_loop.simps [of key m i] Let_def split: option.splits if_splits)
    then show ?thesis
      by (auto simp: assign_loop.simps [of key _ i] Let_def)
  qed
qed

lemma assign_loop_keeps: "assign_loop key m i = (r, m') \<Longrightarrow> map_of m \<subseteq>\<^sub>m map_of m'"
proof (cases r)
  case (Inr mark)
  assume "assign_loop key m i = (r, m')"
  then have "map_of m mark \<in> {None, Some key}" "m' = bmap_insert mark key m"
    using assign_loop_spec [of key m i mark m'] Inr by auto
  then show ?thesis by (auto simp: map_le_def map_of_bmap_insert)
next
  case (Inl e)
  assume a: "assign_loop key m i = (r, m')"
  have "m' = m" using a Inl
  proof (induction key m i rule: assign_loop.induct)
    case (1 key m i)
    show ?case
    proof (cases "map_of m (generate_fwmark key i)")
      case None
      then show ?thesis using 1(2,3) by (simp add: assign_loop.simps [of key m i] Let_def)
    next
      case (Some found)
      show ?thesis
      proof (cases "found = key \<or> i + 1 \<ge> MAX_UNIQUE_FWMARK_INC")
        case True
        then show ?thesis using 1(2,3) Some by (auto simp: assign_loop.simps [of key m i] Let_def split: if_splits)
      next
        case False
        then show ?thesis
          using 1 Some by (simp add: assign_loop.simps [of key m i] Let_def)
      qed
    qed
  qed
  then show ?thesis by simp
qed

type_synonym mark_request = "ip_addr \<times> protocol \<times> u16"

definition request_key :: "mark_request \<Rightarrow> string" where
  "request_key = (\<lambda>(ip, proto, port). service_key (show_addr ip) proto port)"

definition assign_request :: "mark_request \<Rightarrow> fwmark_registry \<Rightarrow> (dsr_error + u32) \<times> fwmark_registry" where
  "assign_request = (\<lambda>(ip, proto, port) m. reg_assign (show_addr ip) proto port m)"

lemma assign_request_loop: "assign_request r m = assign_loop (request_key r) m 0"
  by (simp add: assign_request_def request_key_def reg_assign_def split: prod.split)

definition serve_requests :: "mark_request list \<Rightarrow> fwmark_registry \<Rightarrow> fwmark_registry" where
  "serve_requests rs m = fold (\<lambda>r m. snd (assign_request r m)) rs m"

lemma serve_requests_keeps: "map_of m \<subseteq>\<^sub>m map_of (serve_requests rs m)"
proof (induction rs arbitrary: m)
  case (Cons r rs)
  have "map_of m \<subseteq>\<^sub>m map_of (snd (assign_request r m))"
    by (metis assign_loop_keeps assign_request_loop surjective_pairing)
  moreover have "map_of (snd (assign_request r m)) \<subseteq>\<^sub>m map_of (serve_requests (r # rs) m)"
    using Cons.IH by (simp add: serve_requests_def)
  ultimately show ?case by (rule map_le_trans)
qed (simp add: serve_requests_def)

lemma split_service_key:
  "split_on CHR ''-'' (service_key (show_addr a) proto port) = [show_addr a, proto_name proto, show_u16 port]"
proof -
  have a: "CHR ''-'' \<notin> set (show_addr a)" by (rule show_addr_free) (simp_all add: to_digit_def)
  have p: "CHR ''-'' \<notin> set (show_u16 port)" using show_nat_free [of "CHR ''-''"] by (simp add: show_u16_def to_digit_def)
  have n: "CHR ''-'' \<notin> set (proto_name proto)" by (cases proto) simp_all
  show ?thesis
    using split_on_append [OF a, of "proto_name proto @ ''-'' @ show_u16 port"] split_on_append [OF n, of "show_u16 port"]
      split_on_free [OF p]
    by (simp add: service_key_def)
qed

lemma request_key_inj: "request_key r = request_key r' \<longleftrightarrow> r = r'"
proof
  assume eq: "request_key r = request_key r'"
  obtain a p n a' p' n' where r: "r = (a, p, n)" "r' = (a', p', n')" by (cases r; cases r') auto
  have "show_addr a = show_addr a' \<and> proto_name p = proto_name p' \<and> show_u16 n = show_u16 n'"
    using arg_cong [OF eq, of "split_on CHR ''-''"] by (simp add: r request_key_def split_service_key)
  moreover have "p = p'" if "proto_name p = proto_name p'" using that by (cases p; cases p') simp_all
  moreover have "n = n'" if "show_u16 n = show_u16 n'" using that parse_u16_show by (metis show_u16_def option.inject)
  ultimately show "r = r'" by (simp add: r show_addr_inj)
qed simp

lemma assigned_mark_kept:
  assumes "assign_request r reg = (Inr mark, reg')"
  shows "map_of (serve_requests rs reg') mark = Some (request_key r)"
proof -
  have "map_of reg' mark = Some (request_key r)"
    using assign_loop_spec [OF assms [unfolded assign_request_loop]] by (auto simp: map_of_bmap_insert)
  then show ?thesis using serve_requests_keeps [of reg' rs] by (auto simp: map_le_def dom_def)
qed

text \<open>C29: A mark that a service got stays its mark: whatever other services ask for marks in between, asking again
  gives the same mark, no other service that gets a mark ever gets this one, and it fits in 14 bits.\<close>

theorem fwmark_unique_and_stable:
  assumes "assign_request r reg = (Inr mark, reg')"
  shows "fst (assign_request r (serve_requests rs reg')) = Inr mark
    \<and> (\<forall>r' mark' reg''. assign_request r' (serve_requests rs reg') = (Inr mark', reg'') \<and> r' \<noteq> r \<longrightarrow> mark' \<noteq> mark)
    \<and> mark \<le> MAX_FWMARK"
proof (intro conjI allI impI)
  let ?n = "serve_requests rs reg'"
  note spec = assign_loop_spec [OF assms [unfolded assign_request_loop]]
  note own = assigned_mark_kept [OF assms, of rs]
  have le: "map_of reg \<subseteq>\<^sub>m map_of ?n"
    using assign_loop_keeps [OF assms [unfolded assign_request_loop]] serve_requests_keeps map_le_trans by blast
  show "fst (assign_request r ?n) = Inr mark"
    using spec le own unfolding assign_request_loop by auto
  show "mark \<le> MAX_FWMARK"
    using spec by (auto simp: generate_fwmark_def word_and_le1)
  fix r' mark' reg''
  assume r': "assign_request r' ?n = (Inr mark', reg'') \<and> r' \<noteq> r"
  show "mark' \<noteq> mark"
  proof
    assume "mark' = mark"
    then have "map_of ?n mark \<in> {None, Some (request_key r')}"
      using assign_loop_spec [OF r' [THEN conjunct1, unfolded assign_request_loop]] by blast
    then show False using own r' by (simp add: request_key_inj)
  qed
qed

definition demo_request :: mark_request where
  "demo_request = (AddrV4 0xCB007105, Tcp, 443)"

theorem fwmark_unique_and_stable_witness:
  "\<exists>mark reg'. assign_request demo_request [] = (Inr mark, reg')
     \<and> fst (assign_request demo_request (serve_requests [(AddrV4 0xCB007106, Udp, 53)] reg')) = Inr mark"
proof -
  obtain mark where m: "assign_request demo_request [] = (Inr mark, snd (assign_request demo_request []))"
    by (simp add: assign_request_loop assign_loop.simps Let_def)
  from fwmark_unique_and_stable [OF m, of "[(AddrV4 0xCB007106, Udp, 53)]"] m show ?thesis by blast
qed

text \<open>The registry gives back the address, protocol and port of the service from its mark, also after other
  services got theirs.\<close>

theorem lookup_by_fwmark_round_trip:
  assumes "assign_request (a, proto, port) reg = (Inr mark, reg')"
  shows "lookup_by_fwmark mark (serve_requests rs reg') = Some (show_addr a, proto_name proto, port)"
  using assigned_mark_kept [OF assms, of rs]
  by (simp add: lookup_by_fwmark_def request_key_def split_service_key) (simp add: show_u16_def)

theorem lookup_by_fwmark_round_trip_witness:
  "\<exists>mark reg'. assign_request (AddrV4 0xCB007105, Tcp, 443) [] = (Inr mark, reg')
     \<and> lookup_by_fwmark mark (serve_requests [(AddrV4 0xCB007106, Udp, 53)] reg') = Some (''203.0.113.5'', ''tcp'', 443)"
proof -
  obtain mark where m: "assign_request (AddrV4 0xCB007105, Tcp, 443) []
      = (Inr mark, snd (assign_request (AddrV4 0xCB007105, Tcp, 443) []))"
    by (simp add: assign_request_loop assign_loop.simps Let_def)
  have "show_addr (AddrV4 0xCB007105) = ''203.0.113.5''" by code_simp
  with lookup_by_fwmark_round_trip [OF m, of "[(AddrV4 0xCB007106, Udp, 53)]"] m show ?thesis by fastforce
qed

end
