(* ===== verification/Kr_ProxyPlan.thy ===== *)
theory Kr_ProxyPlan
  imports Kr_Dsr
begin

text \<open>
  The first half of a service sync, \<^verbatim>\<open>crates/proxy/src/sync.rs\<close>: what the services and endpoints of a snapshot
  ask for, as virtual services with destinations, addresses to bind and queued DSR jobs. The lemmas give the
  plan a description that does not depend on the order in which the services are visited.
\<close>

section \<open>Configuration\<close>

definition DUMMY_IF :: string where "DUMMY_IF = ''kube-dummy-if''"

record masquerade_cfg =
  mq_all :: bool
  mq_random_fully :: bool
  mq_primary :: "(bool \<times> ip_addr) list"
  mq_pod_cidrs :: "string list"

definition parse_port_range :: "string \<Rightarrow> (u16 \<times> u16) option" where
  "parse_port_range s =
     Option.bind (split_once CHR ''-'' s) (\<lambda>(lo, hi).
     Option.bind (parse_u16 (trim lo)) (\<lambda>l. Option.bind (parse_u16 (trim hi)) (\<lambda>h. Some (l, h))))"

record 'n validation_ranges =
  vr_external :: "'n list"
  vr_loadbalancer :: "'n list"
  vr_cluster :: "'n list"
  vr_strict :: bool

record dsr_job =
  dj_vips :: "ip_addr list"
  dj_protocol :: protocol
  dj_port :: u16
  dj_endpoints :: "endpoint_info list"
  dj_scheduler :: scheduler
  dj_persistent :: "u32 option"

definition prefix_len :: "ip_addr \<Rightarrow> u8" where
  "prefix_len ip = (case ip of AddrV4 _ \<Rightarrow> 32 | AddrV6 _ \<Rightarrow> 128)"

fun proto_debug :: "protocol \<Rightarrow> string" where
  "proto_debug Tcp = ''Tcp''"
| "proto_debug Udp = ''Udp''"
| "proto_debug Sctp = ''Sctp''"

text \<open>The debug text of the key triple, by which the maps of the controller are indexed.\<close>

definition svc_key :: "ipvs_service \<Rightarrow> string" where
  "svc_key s = ''('' @ show_addr (is_addr s) @ '', '' @ proto_debug (is_protocol s) @ '', '' @ show_u16 (is_port s) @ '')''"

definition service_wants_sloppy_tcp :: "service_info \<Rightarrow> bool" where
  "service_wants_sloppy_tcp svc = (si_dsr svc \<and> si_scheduler svc = Mh)"

section \<open>The plan of a snapshot\<close>

type_synonym desired_map = "(string \<times> (ipvs_service \<times> ipvs_destination list)) list"

record sync_plan =
  sp_desired :: desired_map
  sp_want_vips :: "ip_addr list"
  sp_meta :: "(string \<times> (string \<times> string)) list"
  sp_dsr_jobs :: "dsr_job list"
  sp_want_sloppy_tcp :: bool

definition plan_empty :: sync_plan where
  "plan_empty = \<lparr> sp_desired = [], sp_want_vips = [], sp_meta = [], sp_dsr_jobs = [], sp_want_sloppy_tcp = False \<rparr>"

text \<open>The part of the controller's configuration that the plan depends on.\<close>

record 'n plan_cfg =
  pc_ranges :: "'n validation_ranges"
  pc_node_ips :: "ip_addr list"
  pc_node_port_range :: "(u16 \<times> u16) option"
  pc_dsr_enabled :: bool

definition svc_dests :: "service_info \<Rightarrow> endpoint_info list \<Rightarrow> bool \<Rightarrow> ipvs_destination list" where
  "svc_dests svc eps local_only =
     map (\<lambda>e. \<lparr> ds_addr = ep_ip e, ds_port = ep_port e, ds_weight = 1, ds_tunnel = si_dsr svc \<rparr>)
       (filter (\<lambda>e. ep_ready e \<and> (\<not> local_only \<or> ep_is_local e)) eps)"

definition persistence :: "service_info \<Rightarrow> u32 option" where
  "persistence svc = (if si_session_affinity svc then Some (si_affinity_timeout svc) else None)"

definition virtual_service :: "service_info \<Rightarrow> ip_addr \<Rightarrow> u16 \<Rightarrow> ipvs_service" where
  "virtual_service svc a port =
     \<lparr> is_addr = a, is_protocol = si_protocol svc, is_port = port, is_scheduler = si_scheduler svc,
       is_sched_flags = si_sched_flags svc, is_persistent = persistence svc \<rparr>"

definition plan_service_at :: "service_info \<Rightarrow> ip_addr \<Rightarrow> u16 \<Rightarrow> ipvs_destination list \<Rightarrow> sync_plan \<Rightarrow> sync_plan" where
  "plan_service_at svc a port ds p =
     (let isvc = virtual_service svc a port; key = svc_key isvc in
      p \<lparr> sp_meta := bmap_insert key (si_namespace svc, si_name svc) (sp_meta p),
          sp_desired := bmap_insert key (isvc, ds) (sp_desired p) \<rparr>)"

definition add_vip :: "service_info \<Rightarrow> endpoint_info list \<Rightarrow> bool \<Rightarrow> ip_addr \<Rightarrow> sync_plan \<Rightarrow> sync_plan" where
  "add_vip svc eps local_only vip p =
     (plan_service_at svc vip (si_port svc) (svc_dests svc eps local_only) p)
       \<lparr> sp_want_vips := btree_set (vip # sp_want_vips p) \<rparr>"

text \<open>External and load-balancer addresses: those that validation lets through, and of them those that take
  the FWMARK path.\<close>

definition valid_external_ips :: "'n ipnet_api \<Rightarrow> 'n plan_cfg \<Rightarrow> service_info \<Rightarrow> ip_addr list" where
  "valid_external_ips api c svc =
     (let r = pc_ranges c in
      filter (\<lambda>ip. validate_external_ip api ip (vr_external r) (vr_cluster r) (vr_strict r)) (si_external_ips svc)
      @ filter (\<lambda>ip. validate_external_ip api ip (vr_loadbalancer r) (vr_cluster r) (vr_strict r)) (si_load_balancer_ips svc))"

definition takes_dsr_path :: "'n plan_cfg \<Rightarrow> service_info \<Rightarrow> bool" where
  "takes_dsr_path c svc = (pc_dsr_enabled c \<and> si_dsr svc)"

definition service_dsr_job :: "service_info \<Rightarrow> endpoint_info list \<Rightarrow> ip_addr list \<Rightarrow> dsr_job" where
  "service_dsr_job svc eps vips =
     \<lparr> dj_vips = vips, dj_protocol = si_protocol svc, dj_port = si_port svc, dj_endpoints = eps,
       dj_scheduler = si_scheduler svc, dj_persistent = persistence svc \<rparr>"

definition plan_external :: "'n ipnet_api \<Rightarrow> 'n plan_cfg \<Rightarrow> service_info \<Rightarrow> endpoint_info list \<Rightarrow> sync_plan \<Rightarrow> sync_plan" where
  "plan_external api c svc eps p =
     (let vips = valid_external_ips api c svc in
      if takes_dsr_path c svc
      then (if vips \<noteq> [] then p \<lparr> sp_dsr_jobs := sp_dsr_jobs p @ [service_dsr_job svc eps vips] \<rparr> else p)
      else fold (add_vip svc eps (si_external_traffic_local svc)) vips p)"

text \<open>The addresses and the port of the node-port services; none when the port is out of range, or when the policy
  asks for local endpoints and there are none.\<close>

definition node_port_in_range :: "'n plan_cfg \<Rightarrow> u16 \<Rightarrow> bool" where
  "node_port_in_range c np = (case pc_node_port_range c of Some (lo, hi) \<Rightarrow> \<not> (np < lo \<or> np > hi) | None \<Rightarrow> True)"

definition plan_node_port :: "'n plan_cfg \<Rightarrow> service_info \<Rightarrow> endpoint_info list \<Rightarrow> sync_plan \<Rightarrow> sync_plan" where
  "plan_node_port c svc eps p =
     (case si_node_port svc of
        None \<Rightarrow> p
      | Some np \<Rightarrow>
          if \<not> node_port_in_range c np then p
          else let local_only = si_external_traffic_local svc; ds = svc_dests svc eps local_only in
            if \<not> (local_only \<and> ds = []) then fold (\<lambda>nip. plan_service_at svc nip np ds) (pc_node_ips c) p else p)"

definition plan_service :: "'n ipnet_api \<Rightarrow> 'n plan_cfg \<Rightarrow> service_info \<times> endpoint_info list \<Rightarrow> sync_plan \<Rightarrow> sync_plan" where
  "plan_service api c = (\<lambda>(svc, eps) p.
     let p = p \<lparr> sp_want_sloppy_tcp := (sp_want_sloppy_tcp p \<or> service_wants_sloppy_tcp svc) \<rparr>;
         p = fold (add_vip svc eps (si_internal_traffic_local svc)) (si_cluster_ips svc) p;
         p = plan_external api c svc eps p
     in plan_node_port c svc eps p)"

definition plan_services :: "'n ipnet_api \<Rightarrow> 'n plan_cfg \<Rightarrow> services \<Rightarrow> sync_plan" where
  "plan_services api c services = fold (plan_service api c) services plan_empty"

section \<open>The plan without its order\<close>

text \<open>The addresses, ports and destinations a service claims, and the entries all services ask for.\<close>

type_synonym claim = "ip_addr \<times> u16 \<times> ipvs_destination list"

definition vip_claims :: "'n ipnet_api \<Rightarrow> 'n plan_cfg \<Rightarrow> service_info \<Rightarrow> endpoint_info list \<Rightarrow> claim list" where
  "vip_claims api c svc eps =
     map (\<lambda>a. (a, si_port svc, svc_dests svc eps (si_internal_traffic_local svc))) (si_cluster_ips svc)
     @ (if takes_dsr_path c svc then []
        else map (\<lambda>a. (a, si_port svc, svc_dests svc eps (si_external_traffic_local svc))) (valid_external_ips api c svc))"

definition node_port_claims :: "'n plan_cfg \<Rightarrow> service_info \<Rightarrow> endpoint_info list \<Rightarrow> claim list" where
  "node_port_claims c svc eps =
     (case si_node_port svc of
        Some np \<Rightarrow>
          if node_port_in_range c np \<and> (si_external_traffic_local svc \<longrightarrow> svc_dests svc eps True \<noteq> [])
          then map (\<lambda>a. (a, np, svc_dests svc eps (si_external_traffic_local svc))) (pc_node_ips c) else []
      | None \<Rightarrow> [])"

definition claim_entry :: "service_info \<Rightarrow> claim \<Rightarrow> string \<times> (ipvs_service \<times> ipvs_destination list)" where
  "claim_entry svc = (\<lambda>(a, port, ds). (svc_key (virtual_service svc a port), (virtual_service svc a port, ds)))"

definition service_entries :: "'n ipnet_api \<Rightarrow> 'n plan_cfg \<Rightarrow> service_info \<times> endpoint_info list \<Rightarrow> desired_map" where
  "service_entries api c = (\<lambda>(svc, eps).
     map (claim_entry svc) (vip_claims api c svc eps @ node_port_claims c svc eps))"

abbreviation insert_entry :: "string \<times> 'v \<Rightarrow> (string \<times> 'v) list \<Rightarrow> (string \<times> 'v) list" where
  "insert_entry \<equiv> (\<lambda>(k, v). bmap_insert k v)"

lemma fold_add_vip:
  "sp_desired (fold (add_vip svc eps lo) vips p)
     = fold insert_entry (map (\<lambda>a. claim_entry svc (a, si_port svc, svc_dests svc eps lo)) vips) (sp_desired p)"
  "set (sp_want_vips (fold (add_vip svc eps lo) vips p)) = set (sp_want_vips p) \<union> set vips"
  "sp_dsr_jobs (fold (add_vip svc eps lo) vips p) = sp_dsr_jobs p"
  by (induction vips arbitrary: p) (auto simp: add_vip_def plan_service_at_def claim_entry_def Let_def)

lemma fold_plan_service_at:
  "sp_desired (fold (\<lambda>nip. plan_service_at svc nip np ds) nips p)
     = fold insert_entry (map (\<lambda>a. claim_entry svc (a, np, ds)) nips) (sp_desired p)"
  "sp_want_vips (fold (\<lambda>nip. plan_service_at svc nip np ds) nips p) = sp_want_vips p"
  "sp_dsr_jobs (fold (\<lambda>nip. plan_service_at svc nip np ds) nips p) = sp_dsr_jobs p"
  by (induction nips arbitrary: p) (auto simp: plan_service_at_def claim_entry_def Let_def)

lemma plan_node_port_parts:
  "sp_desired (plan_node_port c svc eps p)
     = fold insert_entry (map (claim_entry svc) (node_port_claims c svc eps)) (sp_desired p)"
  "sp_want_vips (plan_node_port c svc eps p) = sp_want_vips p"
  "sp_dsr_jobs (plan_node_port c svc eps p) = sp_dsr_jobs p"
  by (auto simp: plan_node_port_def node_port_claims_def Let_def fold_plan_service_at comp_def split: option.split)

definition dsr_vips :: "'n ipnet_api \<Rightarrow> 'n plan_cfg \<Rightarrow> service_info \<Rightarrow> ip_addr list" where
  "dsr_vips api c svc = (if takes_dsr_path c svc then valid_external_ips api c svc else [])"

lemma plan_service_parts:
  "sp_desired (plan_service api c x p) = fold insert_entry (service_entries api c x) (sp_desired p)"
  "set (sp_want_vips (plan_service api c x p))
     = set (sp_want_vips p) \<union> fst ` set (vip_claims api c (fst x) (snd x))"
  "sp_dsr_jobs (plan_service api c x p) = sp_dsr_jobs p
     @ (if dsr_vips api c (fst x) = [] then [] else [service_dsr_job (fst x) (snd x) (dsr_vips api c (fst x))])"
proof -
  obtain svc eps where x: "x = (svc, eps)" by (cases x)
  show "sp_desired (plan_service api c x p) = fold insert_entry (service_entries api c x) (sp_desired p)"
    by (simp add: x plan_service_def Let_def plan_node_port_parts plan_external_def fold_add_vip service_entries_def
        vip_claims_def comp_def)
  show "set (sp_want_vips (plan_service api c x p)) = set (sp_want_vips p) \<union> fst ` set (vip_claims api c (fst x) (snd x))"
    by (auto simp: x plan_service_def Let_def plan_node_port_parts plan_external_def fold_add_vip vip_claims_def image_Un image_image)
  show "sp_dsr_jobs (plan_service api c x p) = sp_dsr_jobs p
     @ (if dsr_vips api c (fst x) = [] then [] else [service_dsr_job (fst x) (snd x) (dsr_vips api c (fst x))])"
    by (simp add: x plan_service_def Let_def plan_node_port_parts plan_external_def fold_add_vip dsr_vips_def)
qed

definition all_entries :: "'n ipnet_api \<Rightarrow> 'n plan_cfg \<Rightarrow> services \<Rightarrow> desired_map" where
  "all_entries api c services = concat (map (service_entries api c) services)"

lemma plan_fold_desired:
  "sp_desired (fold (plan_service api c) services p) = fold insert_entry (all_entries api c services) (sp_desired p)"
  by (induction services arbitrary: p) (simp_all add: all_entries_def plan_service_parts)

lemma plan_fold_vips:
  "set (sp_want_vips (fold (plan_service api c) services p))
     = set (sp_want_vips p) \<union> (\<Union>(svc, eps)\<in>set services. fst ` set (vip_claims api c svc eps))"
  by (induction services arbitrary: p) (auto simp: plan_service_parts)

lemma map_of_plan_desired: "map_of (sp_desired (plan_services api c services)) = map_of (rev (all_entries api c services))"
  using bm.get_fold_insert [of "all_entries api c services" "[]"]
  by (simp add: plan_services_def plan_fold_desired plan_empty_def)

lemma bmap_ok_plan_desired: "bmap_ok (sp_desired (plan_services api c services))"
  using bm.inv_fold_insert [OF bm.inv_empty, of "all_entries api c services"]
  by (simp add: plan_services_def plan_fold_desired plan_empty_def)

lemma set_plan_want_vips:
  "set (sp_want_vips (plan_services api c services)) = (\<Union>(svc, eps)\<in>set services. fst ` set (vip_claims api c svc eps))"
  by (simp add: plan_services_def plan_fold_vips plan_empty_def)

section \<open>Keys\<close>

lemma split_svc_key:
  "split_on CHR '','' (svc_key v) = [''('' @ show_addr (is_addr v), '' '' @ proto_debug (is_protocol v), '' '' @ show_u16 (is_port v) @ '')'']"
proof -
  have a: "CHR '','' \<notin> set (''('' @ show_addr (is_addr v))"
    using show_addr_free [of "CHR '',''" "is_addr v"] by (simp add: to_digit_def)
  have p: "CHR '','' \<notin> set ('' '' @ show_u16 (is_port v) @ '')'')"
    using show_nat_free [of "CHR '',''"] by (simp add: show_u16_def to_digit_def)
  have n: "CHR '','' \<notin> set ('' '' @ proto_debug (is_protocol v))" by (cases "is_protocol v") simp_all
  show ?thesis
    using split_on_append [OF a, of "'' '' @ proto_debug (is_protocol v) @ '', '' @ show_u16 (is_port v) @ '')''"]
      split_on_append [OF n, of "'' '' @ show_u16 (is_port v) @ '')''"] split_on_free [OF p]
    by (simp add: svc_key_def)
qed

lemma svc_key_iff: "svc_key v = svc_key w \<longleftrightarrow> ipvs_key v = ipvs_key w"
proof
  assume eq: "svc_key v = svc_key w"
  have "show_addr (is_addr v) = show_addr (is_addr w) \<and> proto_debug (is_protocol v) = proto_debug (is_protocol w)
      \<and> show_u16 (is_port v) = show_u16 (is_port w)"
    using arg_cong [OF eq, of "split_on CHR '',''"] by (simp add: split_svc_key)
  moreover have "p = q" if "proto_debug p = proto_debug q" for p q using that by (cases p; cases q) simp_all
  moreover have "m = n" if "show_u16 m = show_u16 n" for m n using that parse_u16_show by (metis show_u16_def option.inject)
  ultimately show "ipvs_key v = ipvs_key w" by (simp add: ipvs_key_def show_addr_inj)
qed (simp add: svc_key_def ipvs_key_def)

definition desired_wf :: "desired_map \<Rightarrow> bool" where
  "desired_wf m \<longleftrightarrow> bmap_ok m \<and> (\<forall>(k, v, ds)\<in>set m. k = svc_key v \<and> (\<forall>d\<in>set ds. ds_weight d = 1))"

lemma claim_weights: "(a, n, ds) \<in> set (vip_claims api c svc eps @ node_port_claims c svc eps) \<Longrightarrow> d \<in> set ds \<Longrightarrow> ds_weight d = 1"
  by (auto simp: vip_claims_def node_port_claims_def svc_dests_def split: option.splits if_splits)

lemma all_entries_wf:
  assumes "(k, v, ds) \<in> set (all_entries api c services)"
  shows "k = svc_key v \<and> (\<forall>d\<in>set ds. ds_weight d = 1)"
proof -
  obtain svc eps a n where 1: "(a, n, ds) \<in> set (vip_claims api c svc eps @ node_port_claims c svc eps)"
      and 2: "(k, v, ds) = claim_entry svc (a, n, ds)"
    using assms unfolding all_entries_def service_entries_def by (force simp: claim_entry_def)
  show ?thesis using claim_weights [OF 1] 2 by (simp add: claim_entry_def)
qed

lemma desired_wf_plan: "desired_wf (sp_desired (plan_services api c services))"
proof -
  have "(k, v, ds) \<in> set (all_entries api c services)" if "(k, v, ds) \<in> set (sp_desired (plan_services api c services))" for k v ds
  proof -
    have "map_of (sp_desired (plan_services api c services)) k = Some (v, ds)"
      using that by (simp add: map_of_eq_Some_iff bmap_ok_distinct [OF bmap_ok_plan_desired])
    then show ?thesis using map_of_SomeD by (fastforce simp: map_of_plan_desired)
  qed
  then show ?thesis
    unfolding desired_wf_def using bmap_ok_plan_desired all_entries_wf by blast
qed

section \<open>What is served\<close>

text \<open>A service is to be reached at an address and port.\<close>

definition reached_at :: "'n ipnet_api \<Rightarrow> 'n plan_cfg \<Rightarrow> service_info \<Rightarrow> endpoint_info list \<Rightarrow> ip_addr \<Rightarrow> u16 \<Rightarrow> bool" where
  "reached_at api c svc eps a port \<longleftrightarrow>
     port = si_port svc \<and> (a \<in> set (si_cluster_ips svc) \<or> \<not> takes_dsr_path c svc \<and> a \<in> set (valid_external_ips api c svc))
     \<or> si_node_port svc = Some port \<and> node_port_in_range c port \<and> a \<in> set (pc_node_ips c)
       \<and> (si_external_traffic_local svc \<longrightarrow> (\<exists>e\<in>set eps. ep_ready e \<and> ep_is_local e))"

lemma svc_dests_Nil: "svc_dests svc eps True = [] \<longleftrightarrow> \<not> (\<exists>e\<in>set eps. ep_ready e \<and> ep_is_local e)"
  by (auto simp: svc_dests_def filter_empty_conv)

lemma in_vip_claims:
  "(a, port, ds) \<in> set (vip_claims api c svc eps) \<longleftrightarrow> port = si_port svc
     \<and> (a \<in> set (si_cluster_ips svc) \<and> ds = svc_dests svc eps (si_internal_traffic_local svc)
        \<or> \<not> takes_dsr_path c svc \<and> a \<in> set (valid_external_ips api c svc) \<and> ds = svc_dests svc eps (si_external_traffic_local svc))"
  by (auto simp: vip_claims_def)

lemma in_node_port_claims:
  "(a, port, ds) \<in> set (node_port_claims c svc eps) \<longleftrightarrow> si_node_port svc = Some port \<and> node_port_in_range c port
     \<and> a \<in> set (pc_node_ips c) \<and> (si_external_traffic_local svc \<longrightarrow> (\<exists>e\<in>set eps. ep_ready e \<and> ep_is_local e))
     \<and> ds = svc_dests svc eps (si_external_traffic_local svc)"
  by (auto simp: node_port_claims_def svc_dests_Nil split: option.split)

lemma claims_reached:
  "(\<exists>ds. (a, port, ds) \<in> set (vip_claims api c svc eps @ node_port_claims c svc eps)) \<longleftrightarrow> reached_at api c svc eps a port"
  unfolding set_append Un_iff in_vip_claims in_node_port_claims reached_at_def by blast

lemma claims_dests:
  "(a, port, ds) \<in> set (vip_claims api c svc eps @ node_port_claims c svc eps) \<Longrightarrow>
     \<exists>lo \<in> {si_internal_traffic_local svc, si_external_traffic_local svc}. ds = svc_dests svc eps lo"
  unfolding set_append Un_iff in_vip_claims in_node_port_claims by blast

lemma vip_claim_addrs:
  "fst ` set (vip_claims api c svc eps)
     = set (si_cluster_ips svc) \<union> (if takes_dsr_path c svc then {} else set (valid_external_ips api c svc))"
  by (auto simp: vip_claims_def image_Un image_image)

lemma in_claim_entries:
  "(k, v, ds) \<in> claim_entry svc ` A \<longleftrightarrow> (\<exists>a port. (a, port, ds) \<in> A \<and> v = virtual_service svc a port \<and> k = svc_key v)"
  unfolding claim_entry_def image_iff by (auto simp: Bex_def split_paired_Ex)

lemma set_all_entries:
  "(k, v, ds) \<in> set (all_entries api c services) \<longleftrightarrow>
     (\<exists>(svc, eps)\<in>set services. \<exists>a port. (a, port, ds) \<in> set (vip_claims api c svc eps @ node_port_claims c svc eps)
        \<and> v = virtual_service svc a port \<and> k = svc_key v)"
  by (simp add: all_entries_def service_entries_def split_beta in_claim_entries del: set_append map_append)

lemma plan_key_iff:
  "k \<in> fst ` set (sp_desired (plan_services api c services)) \<longleftrightarrow> k \<in> fst ` set (all_entries api c services)"
  by (metis map_of_eq_None_iff map_of_plan_desired set_rev)

lemma plan_entry_claimed:
  "(k, v, ds) \<in> set (sp_desired (plan_services api c services)) \<Longrightarrow> (k, v, ds) \<in> set (all_entries api c services)"
  using map_of_SomeD [of "rev (all_entries api c services)" k "(v, ds)"]
  by (simp add: map_of_eq_Some_iff bmap_ok_distinct [OF bmap_ok_plan_desired] flip: map_of_plan_desired)

lemma svc_key_virtual:
  "svc_key (virtual_service svc a port) = svc_key v \<longleftrightarrow> ipvs_key v = (a, si_protocol svc, port)"
  unfolding svc_key_iff by (auto simp: ipvs_key_def virtual_service_def)

lemma plan_serves_key_iff:
  "(\<exists>v ds. (svc_key v, v, ds) \<in> set (sp_desired (plan_services api c services)) \<and> ipvs_key v = (a, proto, port)) \<longleftrightarrow>
     (\<exists>(svc, eps)\<in>set services. si_protocol svc = proto \<and> reached_at api c svc eps a port)" (is "?L \<longleftrightarrow> ?R")
proof
  assume ?L
  then obtain v ds where e: "(svc_key v, v, ds) \<in> set (all_entries api c services)" and k: "ipvs_key v = (a, proto, port)"
    using plan_entry_claimed by blast
  obtain svc eps a' port' where s: "(svc, eps) \<in> set services" "v = virtual_service svc a' port'"
      "(a', port', ds) \<in> set (vip_claims api c svc eps @ node_port_claims c svc eps)"
    using e [unfolded set_all_entries] by auto
  have "a' = a" "port' = port" "si_protocol svc = proto" using k s(2) by (auto simp: ipvs_key_def virtual_service_def)
  moreover have "reached_at api c svc eps a' port'" using claims_reached s(3) by blast
  ultimately show ?R using s(1) by blast
next
  assume ?R
  then obtain svc eps ds where s: "(svc, eps) \<in> set services" "si_protocol svc = proto"
      "(a, port, ds) \<in> set (vip_claims api c svc eps @ node_port_claims c svc eps)"
    using claims_reached [of a port api c] by blast
  let ?v = "virtual_service svc a port"
  have "(svc_key ?v, ?v, ds) \<in> set (all_entries api c services)" unfolding set_all_entries using s by blast
  then obtain v' ds' where m: "(svc_key ?v, v', ds') \<in> set (sp_desired (plan_services api c services))"
    using plan_key_iff [of "svc_key ?v" api c services] by force
  have "svc_key v' = svc_key ?v" using desired_wf_plan [of api c services] m by (fastforce simp: desired_wf_def)
  moreover have "ipvs_key v' = (a, proto, port)" using svc_key_virtual calculation s(2) by metis
  ultimately show ?L using m by (metis svc_key_iff)
qed



definition demo_plan_cfg :: "cidr plan_cfg" where
  "demo_plan_cfg = \<lparr> pc_ranges = \<lparr> vr_external = [], vr_loadbalancer = [], vr_cluster = [], vr_strict = True \<rparr>,
     pc_node_ips = [AddrV4 0xC0A80001], pc_node_port_range = Some (30000, 32767), pc_dsr_enabled = False \<rparr>"


end
