(* ===== verification/Kr_ProxySync.thy ===== *)
theory Kr_ProxySync
  imports Kr_ProxyPlan
begin

text \<open>
  The second half of the service sync, \<^verbatim>\<open>crates/proxy/src/sync.rs\<close>: programming the plan into IPVS and the dummy
  interface, draining destinations, DSR, and the reconciliation of the rule sets, in the order in which
  \<^verbatim>\<open>reconcile_inner\<close> calls them, and the loop that runs it. Handlers and configuration of \<^verbatim>\<open>ServiceSync\<close> are the
  record \<open>service_sync\<close>; the fields that it changes are the record \<open>sync_state\<close>.
\<close>

section \<open>The controller\<close>

datatype sync_error =
    SyIpvs ipvs_error
  | SyNetlink netlink_error
  | SyHairpin string
  | SyNodePort string
  | SyFirewall string
  | SyDsr string

fun ipt_error_to_string :: "string \<Rightarrow> ipt_error \<Rightarrow> string" where
  "ipt_error_to_string kind (IptError m) = kind @ '' error: '' @ m"

fun ipvs_error_to_string :: "ipvs_error \<Rightarrow> string" where
  "ipvs_error_to_string (IpvsError m) = ''ipvs error: '' @ m"

fun dsr_error_to_string :: "dsr_error \<Rightarrow> string" where
  "dsr_error_to_string (FwMarkExhausted k n) =
     ''could not obtain a unique FWMark for '' @ k @ '' after '' @ show_nat (nat n) @ '' tries''"
| "dsr_error_to_string (DsrIpvs e) = ipvs_error_to_string e"
| "dsr_error_to_string (DsrMangle e) = ipt_error_to_string ''mangle'' e"

text \<open>A sample of the metrics; the conversion of the counters to floating point is left to the metrics handler.\<close>

record stat_sample =
  sm_namespace :: string
  sm_service :: string
  sm_vip :: string
  sm_protocol :: string
  sm_port :: u16
  sm_stats :: service_stats

record ('s, 'n) service_sync =
  sy_api :: "'n ipnet_api"
  sy_ipvs :: "'s ipvs_ops"
  sy_nl :: "('s, 'n) netlink_ops"
  sy_provider :: "'s \<Rightarrow> services"
  sy_ranges :: "'n validation_ranges"
  sy_node_ips :: "ip_addr list"
  sy_graceful :: bool
  sy_graceful_period :: int
  sy_metrics :: "(stat_sample list \<Rightarrow> nat \<Rightarrow> 's \<Rightarrow> 's) option"
  sy_hairpin_global :: bool
  sy_hairpin_nat :: "(bool \<times> 's nat_ops) list"
  sy_node_port_range :: "(u16 \<times> u16) option"
  sy_masquerade :: "masquerade_cfg option"
  sy_firewall_permit_all :: bool
  sy_firewall_ipt :: "(bool \<times> 's fw_iptables) list"
  sy_firewall_ipset :: "(string \<Rightarrow> ('s, ipt_error, unit) eff) option"
  sy_dsr_mangle :: "(bool \<times> 's mangle_ops) list"
  sy_dsr_mtu :: i32
  sy_now :: "'s \<Rightarrow> int"
  sy_sysctl_write :: "string \<Rightarrow> string \<Rightarrow> ('s, string, unit) eff"
  sy_ip_addr_show :: "('s, string, string) eff"
  sy_bind :: "string \<Rightarrow> ('s, string, unit) eff"

record sync_state =
  ss_gqueue :: graceful_queue
  ss_nphc :: "nphc option"
  ss_firewall_setup_done :: bool
  ss_dsr_registry :: fwmark_registry
  ss_applied :: desired_map
  ss_meta :: "(string \<times> (string \<times> string)) list"
  ss_bound_vips :: "ip_addr list"
  ss_sloppy_tcp :: bool

definition sync_new :: "('s, 'n) netlink_ops \<Rightarrow> 's ipvs_ops \<Rightarrow> ('s \<Rightarrow> services) \<Rightarrow> 'n ipnet_api \<Rightarrow> 'n validation_ranges
    \<Rightarrow> ('s \<Rightarrow> int) \<Rightarrow> (string \<Rightarrow> string \<Rightarrow> ('s, string, unit) eff) \<Rightarrow> ('s, string, string) eff
    \<Rightarrow> (string \<Rightarrow> ('s, string, unit) eff) \<Rightarrow> ('s, 'n) service_sync \<times> sync_state" where
  "sync_new netl iv provider api ranges now sysctl show bind =
     (\<lparr> sy_api = api, sy_ipvs = iv, sy_nl = netl, sy_provider = provider, sy_ranges = ranges, sy_node_ips = [],
        sy_graceful = False, sy_graceful_period = 0, sy_metrics = None, sy_hairpin_global = False, sy_hairpin_nat = [],
        sy_node_port_range = None, sy_masquerade = None, sy_firewall_permit_all = True, sy_firewall_ipt = [],
        sy_firewall_ipset = None, sy_dsr_mangle = [], sy_dsr_mtu = 1500, sy_now = now, sy_sysctl_write = sysctl,
        sy_ip_addr_show = show, sy_bind = bind \<rparr>,
      \<lparr> ss_gqueue = [], ss_nphc = None, ss_firewall_setup_done = False, ss_dsr_registry = [], ss_applied = [],
        ss_meta = [], ss_bound_vips = [], ss_sloppy_tcp = False \<rparr>)"

text \<open>The builder methods.\<close>

definition with_hairpin :: "bool \<Rightarrow> (bool \<times> 's nat_ops) list \<Rightarrow> ('s, 'n) service_sync \<Rightarrow> ('s, 'n) service_sync" where
  "with_hairpin global handlers c = c \<lparr> sy_hairpin_global := global, sy_hairpin_nat := handlers \<rparr>"

definition with_nodeport_healthchecks :: "nphc \<Rightarrow> sync_state \<Rightarrow> sync_state" where
  "with_nodeport_healthchecks h y = y \<lparr> ss_nphc := Some h \<rparr>"

definition with_dsr :: "(bool \<times> 's mangle_ops) list \<Rightarrow> i32 \<Rightarrow> ('s, 'n) service_sync \<Rightarrow> ('s, 'n) service_sync" where
  "with_dsr mangle mtu c = c \<lparr> sy_dsr_mangle := mangle, sy_dsr_mtu := mtu \<rparr>"

definition with_firewall :: "bool \<Rightarrow> (bool \<times> 's fw_iptables) list \<Rightarrow> (string \<Rightarrow> ('s, ipt_error, unit) eff)
    \<Rightarrow> ('s, 'n) service_sync \<Rightarrow> ('s, 'n) service_sync" where
  "with_firewall permit_all ipt ipset c =
     c \<lparr> sy_firewall_permit_all := permit_all, sy_firewall_ipt := ipt, sy_firewall_ipset := Some ipset \<rparr>"

definition with_graceful :: "bool \<Rightarrow> int \<Rightarrow> ('s, 'n) service_sync \<Rightarrow> ('s, 'n) service_sync" where
  "with_graceful enabled period c = c \<lparr> sy_graceful := enabled, sy_graceful_period := period \<rparr>"

text \<open>Operations act on the controller's state and the outside.\<close>

type_synonym ('s, 'a) sync = "(sync_state \<times> 's, sync_error, 'a) eff"

definition outside :: "('e \<Rightarrow> sync_error) \<Rightarrow> ('s, 'e, 'a) eff \<Rightarrow> ('s, 'a) sync" where
  "outside g m = (\<lambda>(y, s). case m s of (Inl e, s') \<Rightarrow> (Inl (g e), y, s') | (Inr a, s') \<Rightarrow> (Inr a, y, s'))"

definition modify_self :: "(sync_state \<Rightarrow> sync_state) \<Rightarrow> ('s, unit) sync" where
  "modify_self f = (\<lambda>(y, s). (Inr (), f y, s))"

definition with_self :: "(sync_state \<Rightarrow> ('s, 'a) sync) \<Rightarrow> ('s, 'a) sync" where
  "with_self f = (\<lambda>(y, s). f y (y, s))"

definition reading :: "('s \<Rightarrow> 'b) \<Rightarrow> ('b \<Rightarrow> ('s, 'a) sync) \<Rightarrow> ('s, 'a) sync" where
  "reading r f = (\<lambda>(y, s). f (r s) (y, s))"

abbreviation seq_eff :: "('s, 'e, 'a) eff \<Rightarrow> ('s, 'e, 'b) eff \<Rightarrow> ('s, 'e, 'b) eff" where
  "seq_eff m n \<equiv> eff_bind m (\<lambda>_. n)"

section \<open>Services and destinations\<close>

definition plan_cfg_of :: "('s, 'n) service_sync \<Rightarrow> 'n plan_cfg" where
  "plan_cfg_of c = \<lparr> pc_ranges = sy_ranges c, pc_node_ips = sy_node_ips c, pc_node_port_range = sy_node_port_range c,
     pc_dsr_enabled = (sy_dsr_mangle c \<noteq> []) \<rparr>"

definition sync_sloppy_tcp :: "('s, 'n) service_sync \<Rightarrow> bool \<Rightarrow> ('s, unit) sync" where
  "sync_sloppy_tcp c want = (\<lambda>(y, s).
     if want \<noteq> ss_sloppy_tcp y then
       (case sy_sysctl_write c ''net.ipv4.vs.sloppy_tcp'' (if want then ''1'' else ''0'') s of
          (Inr _, s') \<Rightarrow> (Inr (), y \<lparr> ss_sloppy_tcp := want \<rparr>, s')
        | (Inl _, s') \<Rightarrow> (Inr (), y, s'))
     else (Inr (), y, s))"

definition same_backend :: "ipvs_destination \<Rightarrow> ipvs_destination \<Rightarrow> bool" where
  "same_backend d e = (ds_addr d = ds_addr e \<and> ds_port d = ds_port e)"

definition program_dest :: "'s ipvs_ops \<Rightarrow> bool \<Rightarrow> ipvs_destination list \<Rightarrow> ipvs_service \<Rightarrow> ipvs_destination \<Rightarrow> ('s, ipvs_error, unit) eff" where
  "program_dest iv full_resync prev_dests isvc d =
     (if full_resync then iv_add_destination iv isvc d
      else case find (\<lambda>e. same_backend e d) prev_dests of
          Some e \<Rightarrow> if e = d then eff_ok () else iv_update_destination iv isvc d
        | None \<Rightarrow> iv_add_destination iv isvc d)"

definition program_service ::
  "'s ipvs_ops \<Rightarrow> bool \<Rightarrow> desired_map \<Rightarrow> string \<times> (ipvs_service \<times> ipvs_destination list) \<Rightarrow> ('s, ipvs_error, unit) eff" where
  "program_service iv full_resync applied = (\<lambda>(key, isvc, ds).
     let prev = map_of applied key in
     seq_eff
       (case prev of
          Some (p, _) \<Rightarrow>
            if p \<noteq> isvc then iv_edit_service iv isvc
            else if full_resync then iv_add_service iv isvc else eff_ok ()
        | None \<Rightarrow> iv_add_service iv isvc)
       (for_each (program_dest iv full_resync (case prev of Some (_, d) \<Rightarrow> d | None \<Rightarrow> []) isvc) ds))"

definition stale_dests :: "desired_map \<Rightarrow> desired_map \<Rightarrow> (ipvs_service \<times> ipvs_destination) list" where
  "stale_dests desired applied =
     concat (map (\<lambda>(k, isvc, ds). case map_of applied k of
         Some (_, prev) \<Rightarrow> map (\<lambda>old. (isvc, old)) (filter (\<lambda>old. \<not> list_ex (\<lambda>d. same_backend d old) ds) prev)
       | None \<Rightarrow> []) desired)"

definition removed_svcs :: "desired_map \<Rightarrow> desired_map \<Rightarrow> ipvs_service list" where
  "removed_svcs desired applied = map (\<lambda>(_, isvc, _). isvc) (filter (\<lambda>(k, _). map_of desired k = None) applied)"

definition flush_if_udp :: "'s ipvs_ops \<Rightarrow> ipvs_service \<Rightarrow> ('s, ipvs_error, unit) eff" where
  "flush_if_udp iv svc = (if is_protocol svc = Udp then iv_flush_conntrack_udp iv (is_addr svc) (is_port svc) else eff_ok ())"

definition remove_destination :: "('s, 'n) service_sync \<Rightarrow> ipvs_service \<Rightarrow> ipvs_destination \<Rightarrow> ('s, unit) sync" where
  "remove_destination c svc dst =
     seq_eff
       (if sy_graceful c then
          let draining = dst \<lparr> ds_weight := 0 \<rparr> in
          seq_eff (outside SyIpvs (iv_update_destination (sy_ipvs c) svc draining))
            (reading (sy_now c) (\<lambda>now. modify_self (\<lambda>y. y \<lparr> ss_gqueue :=
               gq_enqueue svc draining (now + sy_graceful_period c) (ss_gqueue y) \<rparr>)))
        else outside SyIpvs (iv_del_destination (sy_ipvs c) svc dst))
       (outside SyIpvs (flush_if_udp (sy_ipvs c) svc))"

definition remove_service :: "'s ipvs_ops \<Rightarrow> ipvs_service \<Rightarrow> ('s, ipvs_error, unit) eff" where
  "remove_service iv isvc = seq_eff (iv_del_service iv isvc) (flush_if_udp iv isvc)"

definition bind_vips :: "('s, 'n) netlink_ops \<Rightarrow> ip_addr list \<Rightarrow> ip_addr list \<Rightarrow> ('s, netlink_error, unit) eff" where
  "bind_vips netl want bound =
     seq_eff (for_each (\<lambda>vip. nl_addr_add netl DUMMY_IF vip (prefix_len vip)) (filter (\<lambda>v. v \<notin> set bound) want))
       (for_each (\<lambda>vip. nl_addr_del netl DUMMY_IF vip (prefix_len vip)) (filter (\<lambda>v. v \<notin> set want) bound))"


section \<open>After the tables\<close>

definition is_readded :: "desired_map \<Rightarrow> pending_removal \<Rightarrow> bool" where
  "is_readded applied p =
     (case map_of applied (svc_key (pr_svc p)) of
        Some (_, ds) \<Rightarrow> list_ex (\<lambda>d. same_backend d (pr_dst p) \<and> ds_weight d \<noteq> 0) ds
      | None \<Rightarrow> False)"

definition drain_one :: "('s, 'n) service_sync \<Rightarrow> int \<Rightarrow> pending_removal \<Rightarrow> ('s, unit) sync" where
  "drain_one c now p = with_self (\<lambda>y.
     if is_readded (ss_applied y) p then eff_ok ()
     else eff_bind (outside SyIpvs (iv_dest_conn_stats (sy_ipvs c) (pr_svc p) (pr_dst p))) (\<lambda>conns.
       if conns = Some (0, 0) \<or> now \<ge> pr_deadline p
       then outside SyIpvs (iv_del_destination (sy_ipvs c) (pr_svc p) (pr_dst p))
       else modify_self (\<lambda>y. y \<lparr> ss_gqueue := gq_requeue p (ss_gqueue y) \<rparr>)))"

definition process_graceful_queue :: "('s, 'n) service_sync \<Rightarrow> ('s, unit) sync" where
  "process_graceful_queue c = with_self (\<lambda>y.
     if ss_gqueue y = [] then eff_ok ()
     else reading (sy_now c) (\<lambda>now.
       let (taken, rest) = gq_take (ss_gqueue y) in
       seq_eff (modify_self (\<lambda>y. y \<lparr> ss_gqueue := rest \<rparr>)) (for_each (drain_one c now) taken)))"

definition stat_sample_of :: "(string \<times> (string \<times> string)) list \<Rightarrow> ipvs_service \<times> service_stats \<Rightarrow> stat_sample option" where
  "stat_sample_of meta = (\<lambda>(svc, st). map_option (\<lambda>(namespace, service).
     \<lparr> sm_namespace = namespace, sm_service = service, sm_vip = show_addr (is_addr svc),
       sm_protocol = proto_name (is_protocol svc), sm_port = is_port svc, sm_stats = st \<rparr>) (map_of meta (svc_key svc)))"

definition update_metrics :: "('s, 'n) service_sync \<Rightarrow> ('s, unit) sync" where
  "update_metrics c = (case sy_metrics c of
     None \<Rightarrow> eff_ok ()
   | Some publish \<Rightarrow> with_self (\<lambda>y.
       eff_bind (outside SyIpvs (iv_service_stats (sy_ipvs c))) (\<lambda>stats.
       outside SyIpvs (\<lambda>s. (Inr (), publish (List.map_filter (stat_sample_of (ss_meta y)) stats) (length (ss_applied y)) s)))))"

definition dsr_family :: "('s, 'n) service_sync \<Rightarrow> dsr_job \<Rightarrow> bool \<times> 's mangle_ops \<Rightarrow> ('s, unit) sync" where
  "dsr_family c job = (\<lambda>(ipv6, mangle).
     let vips = filter (\<lambda>v. is_ipv6 v = ipv6) (dj_vips job) in
     if vips = [] then eff_ok ()
     else seq_eff
       (\<lambda>(y, s). case configure_dsr_host (sy_ipvs c) mangle vips (dj_protocol job) (dj_port job) (dj_endpoints job)
             (dj_scheduler job) (dj_persistent job) (ss_dsr_registry y) s of
           (Inl e, reg, s') \<Rightarrow> (Inl (SyDsr (dsr_error_to_string e)), y \<lparr> ss_dsr_registry := reg \<rparr>, s')
         | (Inr _, reg, s') \<Rightarrow> (Inr (), y \<lparr> ss_dsr_registry := reg \<rparr>, s'))
       (for_each (\<lambda>vip. outside (\<lambda>e. SyDsr (ipt_error_to_string ''mangle'' e))
           (ensure_tcpmss mangle vip (dj_port job) (sy_dsr_mtu c))) vips))"

definition process_dsr_jobs :: "('s, 'n) service_sync \<Rightarrow> dsr_job list \<Rightarrow> ('s, unit) sync" where
  "process_dsr_jobs c jobs =
     (if sy_dsr_mangle c = [] \<or> jobs = [] then eff_ok ()
      else for_each (\<lambda>job. for_each (dsr_family c job) (sy_dsr_mangle c)) jobs)"

definition sync_hairpin_rules :: "('s, 'n) service_sync \<Rightarrow> ('s, unit) sync" where
  "sync_hairpin_rules c =
     (if sy_hairpin_nat c = [] then eff_ok ()
      else reading (sy_provider c) (\<lambda>services.
        for_each (\<lambda>(ipv6, ops). outside (\<lambda>e. SyHairpin (ipt_error_to_string ''nat'' e))
          (sync_hairpin ops (hairpin_rules_for_family services (sy_hairpin_global c) ipv6))) (sy_hairpin_nat c)))"

definition sync_masquerade_rules :: "('s, 'n) service_sync \<Rightarrow> ('s, unit) sync" where
  "sync_masquerade_rules c = (case sy_masquerade c of
     None \<Rightarrow> eff_ok ()
   | Some cfg \<Rightarrow> for_each (\<lambda>(ipv6, ops).
       case find (\<lambda>(f, _). f = ipv6) (mq_primary cfg) of
         None \<Rightarrow> eff_ok ()
       | Some (_, primary) \<Rightarrow> outside (\<lambda>e. SyHairpin (ipt_error_to_string ''nat'' e))
           (sync_masquerade ops primary (filter (\<lambda>cidr. (CHR '':'' \<in> set cidr) = ipv6) (mq_pod_cidrs cfg))
              (mq_all cfg) (mq_random_fully cfg)))
       (sy_hairpin_nat c))"

definition sync_nodeport_healthchecks :: "('s, 'n) service_sync \<Rightarrow> ('s, unit) sync" where
  "sync_nodeport_healthchecks c = (\<lambda>(y, s). case ss_nphc y of
     None \<Rightarrow> (Inr (), y, s)
   | Some h \<Rightarrow> (case nphc_sync (sy_bind c) (active_local_counts (sy_provider c s)) h s of
       (Inl e, h', s') \<Rightarrow> (Inl (SyNodePort e), y \<lparr> ss_nphc := Some h' \<rparr>, s')
     | (Inr _, h', s') \<Rightarrow> (Inr (), y \<lparr> ss_nphc := Some h' \<rparr>, s')))"

definition all_local_ips :: "('s, string, string) eff \<Rightarrow> 's \<Rightarrow> ip_addr list \<times> 's" where
  "all_local_ips show s = (case show s of (Inr out, s') \<Rightarrow> (parse_ip_addr_output out, s') | (Inl _, s') \<Rightarrow> ([], s'))"

definition sync_firewall :: "('s, 'n) service_sync \<Rightarrow> ('s, unit) sync" where
  "sync_firewall c =
     (if sy_firewall_ipt c = [] then eff_ok ()
      else case sy_firewall_ipset c of
        None \<Rightarrow> eff_ok ()
      | Some ipset \<Rightarrow> with_self (\<lambda>y.
          eff_bind (outside SyFirewall (\<lambda>s. case all_local_ips (sy_ip_addr_show c) s of (ips, s') \<Rightarrow> (Inr ips, s'))) (\<lambda>local_ips.
          seq_eff (for_each (\<lambda>(ipv6, _). outside (\<lambda>e. SyFirewall (ipt_error_to_string ''firewall'' e))
              (sync_firewall_sets ipset local_ips (map (\<lambda>(_, v, _). ipvs_key v) (ss_applied y)) ipv6)) (sy_firewall_ipt c))
          (if \<not> ss_firewall_setup_done y then
             seq_eff (for_each (\<lambda>(ipv6, ipt). outside (\<lambda>e. SyFirewall (ipt_error_to_string ''firewall'' e))
                 (setup_firewall ipt ipv6 (sy_firewall_permit_all c))) (sy_firewall_ipt c))
               (modify_self (\<lambda>y. y \<lparr> ss_firewall_setup_done := True \<rparr>))
           else eff_ok ()))))"

section \<open>A pass\<close>

definition remember :: "sync_plan \<Rightarrow> sync_state \<Rightarrow> sync_state" where
  "remember p y = y \<lparr> ss_applied := sp_desired p, ss_bound_vips := sp_want_vips p, ss_meta := sp_meta p \<rparr>"

text \<open>The part of a pass that programs IPVS and binds addresses, up to the assignment of what was applied.\<close>

definition program_tables :: "('s, 'n) service_sync \<Rightarrow> bool \<Rightarrow> sync_plan \<Rightarrow> ('s, unit) sync" where
  "program_tables c full_resync p = with_self (\<lambda>y.
     seq_eff (outside SyIpvs (for_each (program_service (sy_ipvs c) full_resync (ss_applied y)) (sp_desired p)))
    (seq_eff (for_each (\<lambda>(isvc, old). remove_destination c isvc old) (stale_dests (sp_desired p) (ss_applied y)))
    (seq_eff (outside SyIpvs (for_each (remove_service (sy_ipvs c)) (removed_svcs (sp_desired p) (ss_applied y))))
    (seq_eff (outside SyNetlink (bind_vips (sy_nl c) (sp_want_vips p) (ss_bound_vips y)))
             (modify_self (remember p))))))"

text \<open>The part that follows.\<close>

definition sync_rest :: "('s, 'n) service_sync \<Rightarrow> dsr_job list \<Rightarrow> ('s, unit) sync" where
  "sync_rest c jobs =
     seq_eff (process_graceful_queue c) (seq_eff (update_metrics c) (seq_eff (process_dsr_jobs c jobs)
    (seq_eff (sync_hairpin_rules c) (seq_eff (sync_masquerade_rules c) (seq_eff (sync_nodeport_healthchecks c)
     (sync_firewall c))))))"

definition reconcile_inner :: "('s, 'n) service_sync \<Rightarrow> bool \<Rightarrow> ('s, unit) sync" where
  "reconcile_inner c full_resync =
     seq_eff (outside SyNetlink (nl_ensure_dummy_link (sy_nl c) DUMMY_IF))
       (reading (sy_provider c) (\<lambda>services.
          let p = plan_services (sy_api c) (plan_cfg_of c) services in
          seq_eff (sync_sloppy_tcp c (sp_want_sloppy_tcp p))
         (seq_eff (program_tables c full_resync p) (sync_rest c (sp_dsr_jobs p)))))"

definition reconcile :: "('s, 'n) service_sync \<Rightarrow> ('s, unit) sync" where
  "reconcile c = reconcile_inner c True"

text \<open>The loop: ticks resync, change signals program the difference, errors are logged and the next wake-up tries
  again; every turn ends in a heartbeat.\<close>

datatype wake = Tick | Changed | Stop

fun sync_run :: "('s, 'n) service_sync \<Rightarrow> ('s \<Rightarrow> 's) \<Rightarrow> wake list \<Rightarrow> sync_state \<times> 's \<Rightarrow> sync_state \<times> 's" where
  "sync_run c heartbeat [] ys = ys"
| "sync_run c heartbeat (Stop # ws) ys = ys"
| "sync_run c heartbeat (w # ws) ys =
     (case snd (reconcile_inner c (w = Tick) ys) of (y, s) \<Rightarrow> sync_run c heartbeat ws (y, heartbeat s))"

end
