(* ===== verification/Kr_ProxyTables.thy ===== *)
theory Kr_ProxyTables
  imports Kr_ProxySync
begin

text \<open>
  What a service sync does to the kernel: the environment of the controller as a locale (the IPVS table, the bound
  addresses, and handlers that touch neither), the effect of each stage on the keys of the table, and the
  theorems on whole passes.
\<close>

declare split_paired_All [simp del] split_paired_Ex [simp del]

section \<open>Frames\<close>

definition keeps :: "('s \<Rightarrow> 'v) \<Rightarrow> ('s, 'e, 'a) eff \<Rightarrow> bool" where
  "keeps v m \<longleftrightarrow> (\<forall>s. v (snd (m s)) = v s)"

named_theorems keeps_intros "frame rules"

lemma keepsD: "keeps v m \<Longrightarrow> m s = (r, s') \<Longrightarrow> v s' = v s"
  by (metis keeps_def snd_conv)

lemma keeps_ok [keeps_intros]: "keeps v (eff_ok a)"
  by (simp add: keeps_def eff_ok_def)

lemma keeps_fail [keeps_intros]: "keeps v (eff_fail e)"
  by (simp add: keeps_def eff_fail_def)

lemma keeps_bind [keeps_intros]: "keeps v m \<Longrightarrow> (\<And>a. keeps v (f a)) \<Longrightarrow> keeps v (eff_bind m f)"
  by (auto simp: keeps_def eff_bind_def split: prod.split sum.split) (metis snd_conv)+

lemma keeps_for_each [keeps_intros]:
  assumes "\<And>x. x \<in> set xs \<Longrightarrow> keeps v (f x)"
  shows "keeps v (for_each f xs)"
  unfolding keeps_def
proof
  fix s
  obtain r s' where e: "for_each f xs s = (r, s')" by (cases "for_each f xs s")
  have "v s' = v s"
    by (rule for_each_invariant [where P = "\<lambda>t. v t = v s", OF e]) (use assms keepsD in \<open>metis+\<close>)
  then show "v (snd (for_each f xs s)) = v s" by (simp add: e)
qed

lemma keeps_map_fail [keeps_intros]: "keeps v m \<Longrightarrow> keeps v (map_fail g m)"
  by (auto simp: keeps_def map_fail_def split: prod.split sum.split) (metis snd_conv)+

lemma keeps_if [keeps_intros]: "(b \<Longrightarrow> keeps v m) \<Longrightarrow> (\<not> b \<Longrightarrow> keeps v n) \<Longrightarrow> keeps v (if b then m else n)"
  by simp

text \<open>Views of the outside, and of the controller's own state, through the operations of the controller.\<close>

abbreviation out_view :: "('s \<Rightarrow> 'v) \<Rightarrow> sync_state \<times> 's \<Rightarrow> 'v" where
  "out_view v \<equiv> (\<lambda>ys. v (snd ys))"

lemma keeps_outside [keeps_intros]: "keeps v m \<Longrightarrow> keeps (out_view v) (outside g m)"
  by (auto simp: keeps_def outside_def split: prod.split sum.split) (metis snd_conv)+

lemma keeps_modify [keeps_intros]: "keeps (out_view v) (modify_self f)"
  by (auto simp: keeps_def modify_self_def)

lemma keeps_with_self [keeps_intros]: "(\<And>y. keeps w (f y)) \<Longrightarrow> keeps w (with_self f)"
  by (auto simp: keeps_def with_self_def)

lemma keeps_reading [keeps_intros]: "(\<And>x. keeps w (f x)) \<Longrightarrow> keeps w (reading r f)"
  by (auto simp: keeps_def reading_def)

lemma keeps_self_outside [keeps_intros]: "keeps (\<lambda>ys. h (fst ys)) (outside g m)"
  by (auto simp: keeps_def outside_def split: prod.split sum.split)

lemma keeps_self_modify [keeps_intros]: "(\<And>y. h (f y) = h y) \<Longrightarrow> keeps (\<lambda>ys. h (fst ys)) (modify_self f)"
  by (auto simp: keeps_def modify_self_def)

definition ipvs_keeps :: "('s \<Rightarrow> 'v) \<Rightarrow> 's ipvs_ops \<Rightarrow> bool" where
  "ipvs_keeps v ops \<longleftrightarrow> (\<forall>x d. keeps v (iv_add_service ops x) \<and> keeps v (iv_edit_service ops x) \<and> keeps v (iv_del_service ops x)
     \<and> keeps v (iv_add_destination ops x d) \<and> keeps v (iv_update_destination ops x d) \<and> keeps v (iv_del_destination ops x d)
     \<and> keeps v (iv_dest_conn_stats ops x d)) \<and> (\<forall>a p. keeps v (iv_flush_conntrack_udp ops a p))"

definition ipvs_side_keeps :: "('s \<Rightarrow> 'v) \<Rightarrow> 's ipvs_ops \<Rightarrow> bool" where
  "ipvs_side_keeps v ops \<longleftrightarrow> keeps v (iv_service_stats ops) \<and> (\<forall>m sch p. keeps v (iv_add_fwmark_service ops m sch p))
     \<and> (\<forall>m d. keeps v (iv_add_fwmark_destination ops m d))"

definition nat_keeps :: "('s \<Rightarrow> 'v) \<Rightarrow> 's nat_ops \<Rightarrow> bool" where
  "nat_keeps v ops \<longleftrightarrow> (\<forall>ch a. keeps v (na_ensure_chain ops ch) \<and> keeps v (na_append_unique ops ch a)
     \<and> keeps v (na_flush_chain ops ch) \<and> keeps v (na_delete ops ch a))"

definition mangle_keeps :: "('s \<Rightarrow> 'v) \<Rightarrow> 's mangle_ops \<Rightarrow> bool" where
  "mangle_keeps v ops \<longleftrightarrow> (\<forall>ch a. keeps v (ma_append_unique ops ch a) \<and> keeps v (ma_delete ops ch a))"

definition fw_keeps :: "('s \<Rightarrow> 'v) \<Rightarrow> 's fw_iptables \<Rightarrow> bool" where
  "fw_keeps v ops \<longleftrightarrow> (\<forall>ch a. keeps v (fi_clear_chain ops ch) \<and> keeps v (fi_append_unique ops ch a)
     \<and> keeps v (fi_ensure_top ops ch a) \<and> keeps v (fi_delete ops ch a))"

section \<open>The environment\<close>

text \<open>
  The table and the addresses are what the controller programs; the other handlers (iptables, ipset, sysctl, metrics,
  listening sockets, firewall marks) work on other parts of the system.
\<close>

locale proxy_env = iv: ipvs "sy_ipvs c" svcs dests + ad: netlink "sy_nl c" fib addrs
  for c :: "('s, 'n) service_sync" and svcs dests fib addrs +
  assumes ipvs_addrs: "ipvs_keeps addrs (sy_ipvs c)"
    and side: "ipvs_side_keeps (\<lambda>s. (svcs s, dests s, addrs s)) (sy_ipvs c)"
    and nl_tables: "keeps (\<lambda>s. (svcs s, dests s)) (nl_addr_add (sy_nl c) l a p)"
      "keeps (\<lambda>s. (svcs s, dests s)) (nl_addr_del (sy_nl c) l a p)"
    and dummy: "keeps (\<lambda>s. (svcs s, dests s, addrs s)) (nl_ensure_dummy_link (sy_nl c) l)"
    and provider_frame: "keeps (sy_provider c) (nl_ensure_dummy_link (sy_nl c) l)"
    and nat_frame: "(f, no) \<in> set (sy_hairpin_nat c) \<Longrightarrow> nat_keeps (\<lambda>s. (svcs s, dests s, addrs s)) no"
    and mangle_frame: "(f, mo) \<in> set (sy_dsr_mangle c) \<Longrightarrow> mangle_keeps (\<lambda>s. (svcs s, dests s, addrs s)) mo"
    and fw_frame: "(f, fo) \<in> set (sy_firewall_ipt c) \<Longrightarrow> fw_keeps (\<lambda>s. (svcs s, dests s, addrs s)) fo"
    and ipset_frame: "sy_firewall_ipset c = Some restore \<Longrightarrow> keeps (\<lambda>s. (svcs s, dests s, addrs s)) (restore payload)"
    and publish_frame: "sy_metrics c = Some publish \<Longrightarrow>
        (svcs (publish samples n s), dests (publish samples n s), addrs (publish samples n s)) = (svcs s, dests s, addrs s)"
    and sysctl_frame: "keeps (\<lambda>s. (svcs s, dests s, addrs s)) (sy_sysctl_write c key val)"
    and show_frame: "keeps (\<lambda>s. (svcs s, dests s, addrs s)) (sy_ip_addr_show c)"
    and bind_frame: "keeps (\<lambda>s. (svcs s, dests s, addrs s)) (sy_bind c host)"
begin

abbreviation view :: "'s \<Rightarrow> (svc_key \<Rightarrow> ipvs_service option) \<times> (svc_key \<Rightarrow> dest_key \<Rightarrow> ipvs_destination option)
    \<times> (string \<times> ip_addr \<times> u8) set" where
  "view \<equiv> (\<lambda>s. (svcs s, dests s, addrs s))"

text \<open>The stages after the tables keep them, except for the queue of draining destinations.\<close>

lemma keeps_metrics: "keeps (out_view view) (update_metrics c)"
proof -
  have "keeps view (\<lambda>s. (Inr (), publish x n s))" if "sy_metrics c = Some publish" for publish x n
    using publish_frame [OF that] by (simp add: keeps_def)
  moreover have "keeps view (iv_service_stats (sy_ipvs c))" using side by (simp add: ipvs_side_keeps_def)
  ultimately show ?thesis
    unfolding update_metrics_def by (auto split: option.split intro!: keeps_intros)
qed

lemma keeps_sloppy: "keeps (out_view view) (sync_sloppy_tcp c want)"
  using sysctl_frame unfolding keeps_def sync_sloppy_tcp_def
  by (auto split: prod.split sum.split) (metis snd_conv prod.inject)+

lemma keeps_hairpin: "keeps (out_view view) (sync_hairpin_rules c)"
  unfolding sync_hairpin_rules_def sync_hairpin_def
  using nat_frame by (auto simp: nat_keeps_def intro!: keeps_intros)

lemma keeps_masquerade: "keeps (out_view view) (sync_masquerade_rules c)"
  unfolding sync_masquerade_rules_def sync_masquerade_def
  using nat_frame by (auto simp: nat_keeps_def split: option.split prod.split intro!: keeps_intros)

end

lemma keeps_nphc_start:
  assumes "\<And>h. keeps v (bind h)"
  shows "nphc_start bind ports h s = (r, h', s') \<Longrightarrow> v s' = v s"
proof (induction ports arbitrary: h s)
  case (Cons port ports)
  show ?case
  proof (cases "port \<in> set (nh_servers h)")
    case False
    obtain r1 s1 where b: "bind (nh_bind_host h @ '':'' @ show_u16 port) s = (r1, s1)"
      by (cases "bind (nh_bind_host h @ '':'' @ show_u16 port) s")
    have "v s1 = v s" using keepsD [OF assms b] .
    then show ?thesis using Cons.prems Cons.IH b False by (cases r1) auto
  qed (use Cons in auto)
qed simp

lemma keeps_configure_dsr:
  assumes "ipvs_side_keeps v iv" "mangle_keeps v ma"
  shows "configure_dsr_host iv ma vips proto port eps sched pers reg s = (r, reg', s') \<Longrightarrow> v s' = v s"
proof (induction vips arbitrary: reg s r reg')
  case (Cons vip vips)
  have k: "keeps v (dsr_program iv ma vip proto port eps sched pers mark)" for mark
    unfolding dsr_program_def
    using assms by (auto simp: ipvs_side_keeps_def mangle_keeps_def intro!: keeps_intros)
  show ?case
    using Cons.prems keepsD [OF k] Cons.IH
    by (auto split: prod.splits sum.splits)
qed simp

context proxy_env
begin

lemma keeps_dsr: "keeps (out_view view) (process_dsr_jobs c jobs)"
proof -
  have cfg: "keeps (out_view view) (\<lambda>(y, s). case configure_dsr_host (sy_ipvs c) mo vips p n e sch per (ss_dsr_registry y) s of
           (Inl e, reg, s') \<Rightarrow> (Inl (SyDsr (dsr_error_to_string e)), y \<lparr> ss_dsr_registry := reg \<rparr>, s')
         | (Inr _, reg, s') \<Rightarrow> (Inr (), y \<lparr> ss_dsr_registry := reg \<rparr>, s'))"
    if "mangle_keeps view mo" for mo vips p n e sch per
    using keeps_configure_dsr [OF side that] unfolding keeps_def
    by (auto split: prod.split sum.split)
  have "keeps (out_view view) (dsr_family c job x)" if "x \<in> set (sy_dsr_mangle c)" for job x
  proof -
    obtain f mo where x: "x = (f, mo)" by (cases x)
    have mo: "mangle_keeps view mo" using mangle_frame that x by blast
    then have "keeps view (ensure_tcpmss mo vip port mtu)" for vip port mtu
      by (simp add: ensure_tcpmss_def mangle_keeps_def)
    then show ?thesis
      unfolding x dsr_family_def Let_def prod.case by (intro keeps_intros cfg [OF mo])
  qed
  then show ?thesis unfolding process_dsr_jobs_def by (intro keeps_intros)
qed

lemma keeps_nphc: "keeps (out_view view) (sync_nodeport_healthchecks c)"
  using keeps_nphc_start [of view "sy_bind c", OF bind_frame]
  unfolding keeps_def sync_nodeport_healthchecks_def nphc_sync_def
  by (auto split: prod.split sum.split option.split)

lemma keeps_firewall: "keeps (out_view view) (sync_firewall c)"
proof -
  have "keeps view (\<lambda>s. case all_local_ips (sy_ip_addr_show c) s of (ips, s') \<Rightarrow> (Inr ips, s'))"
    using show_frame unfolding keeps_def all_local_ips_def
    by (auto split: prod.split sum.split) (metis prod.inject snd_conv)+
  moreover have "keeps view (setup_firewall ipt f b)" if "(g, ipt) \<in> set (sy_firewall_ipt c)" for g ipt f b
    unfolding setup_firewall_def using fw_frame [OF that] by (auto simp: fw_keeps_def intro!: keeps_intros)
  ultimately show ?thesis
    unfolding sync_firewall_def sync_firewall_sets_def
    using ipset_frame by (auto split: option.split intro!: keeps_intros)
qed

text \<open>What runs after the queue of draining destinations.\<close>

lemma keeps_tail:
  "keeps (out_view view) (seq_eff (update_metrics c) (seq_eff (process_dsr_jobs c jobs)
    (seq_eff (sync_hairpin_rules c) (seq_eff (sync_masquerade_rules c) (seq_eff (sync_nodeport_healthchecks c)
     (sync_firewall c))))))"
  by (intro keeps_intros keeps_metrics keeps_dsr keeps_hairpin keeps_masquerade keeps_nphc keeps_firewall)

end


section \<open>The controller's own state\<close>

definition books :: "sync_state \<Rightarrow> desired_map \<times> ip_addr list \<times> graceful_queue" where
  "books y = (ss_applied y, ss_bound_vips y, ss_gqueue y)"

lemma books_upd [simp]:
  "books (y \<lparr> ss_sloppy_tcp := a \<rparr>) = books y" "books (y \<lparr> ss_dsr_registry := b \<rparr>) = books y"
  "books (y \<lparr> ss_nphc := d \<rparr>) = books y" "books (y \<lparr> ss_firewall_setup_done := e \<rparr>) = books y"
  by (simp_all add: books_def)

abbreviation keeps_books :: "('s, 'a) sync \<Rightarrow> bool" where
  "keeps_books m \<equiv> keeps (\<lambda>ys. books (fst ys)) m"

lemma books_sloppy: "keeps_books (sync_sloppy_tcp c want)"
  unfolding keeps_def sync_sloppy_tcp_def by (auto split: prod.split sum.split)

lemma books_dsr_family: "keeps_books (dsr_family c job x)"
proof -
  have "keeps_books (\<lambda>(y, s). case f y s of (Inl e, reg, s') \<Rightarrow> (Inl (g e), y \<lparr> ss_dsr_registry := reg \<rparr>, s')
         | (Inr _, reg, s') \<Rightarrow> (Inr (), y \<lparr> ss_dsr_registry := reg \<rparr>, s'))"
    for f :: "sync_state \<Rightarrow> 'a \<Rightarrow> ('e + 'f) \<times> fwmark_registry \<times> 'a" and g
    by (auto simp: keeps_def split: prod.split sum.split)
  then show ?thesis unfolding dsr_family_def Let_def by (cases x) (auto intro!: keeps_intros)
qed

lemma books_tail:
  "keeps_books (seq_eff (update_metrics c) (seq_eff (process_dsr_jobs c jobs)
    (seq_eff (sync_hairpin_rules c) (seq_eff (sync_masquerade_rules c) (seq_eff (sync_nodeport_healthchecks c)
     (sync_firewall c))))))"
proof (intro keeps_intros)
  show "keeps_books (update_metrics c)"
    unfolding update_metrics_def by (auto split: option.split intro!: keeps_intros)
  show "keeps_books (process_dsr_jobs c jobs)"
    unfolding process_dsr_jobs_def by (intro keeps_intros books_dsr_family)
  show "keeps_books (sync_hairpin_rules c)"
    unfolding sync_hairpin_rules_def by (auto intro!: keeps_intros)
  show "keeps_books (sync_masquerade_rules c)"
    unfolding sync_masquerade_rules_def by (auto split: option.split prod.split intro!: keeps_intros)
  show "keeps_books (sync_nodeport_healthchecks c)"
    unfolding sync_nodeport_healthchecks_def keeps_def by (auto split: option.split prod.split sum.split)
  show "keeps_books (sync_firewall c)"
    unfolding sync_firewall_def by (auto split: option.split intro!: keeps_intros)
qed


section \<open>Keys\<close>

definition want_svcs :: "desired_map \<Rightarrow> svc_key set" where
  "want_svcs m = {ipvs_key v | k v ds. (k, v, ds) \<in> set m}"

definition want :: "desired_map \<Rightarrow> svc_key \<Rightarrow> dest_key set" where
  "want m kk = {dst_key d | k v ds d. (k, v, ds) \<in> set m \<and> ipvs_key v = kk \<and> d \<in> set ds}"

lemma want_Cons [simp]:
  "want_svcs ((k, v, ds) # m) = insert (ipvs_key v) (want_svcs m)" "want_svcs [] = {}" "want [] kk = {}"
  "want ((k, v, ds) # m) kk = (if ipvs_key v = kk then dst_key ` set ds else {}) \<union> want m kk"
  by (auto simp: want_svcs_def want_def)

lemma desired_wf_entry:
  "desired_wf m \<Longrightarrow> (k, v, ds) \<in> set m \<Longrightarrow> k = svc_key v \<and> (\<forall>d\<in>set ds. ds_weight d = 1)"
  by (auto simp: desired_wf_def)

lemma desired_wf_unique:
  assumes "desired_wf m" "(k, v, ds) \<in> set m" "(k', v', ds') \<in> set m" "ipvs_key v' = ipvs_key v"
  shows "v' = v \<and> ds' = ds"
proof -
  have "k' = k" using desired_wf_entry [OF assms(1)] assms(2-4) by (metis svc_key_iff)
  then have "(v', ds') = (v, ds)"
    using eq_key_imp_eq_value [of m k "(v', ds')" "(v, ds)"] assms(1-3) bmap_ok_distinct [of m] by (simp add: desired_wf_def)
  then show ?thesis by simp
qed

lemma want_svcsI: "(k, v, ds) \<in> set m \<Longrightarrow> ipvs_key v \<in> want_svcs m"
  unfolding want_svcs_def by blast

lemma want_entry:
  assumes "desired_wf m" "(k, v, ds) \<in> set m"
  shows "want m (ipvs_key v) = dst_key ` set ds"
proof -
  have "ds' = ds" if "(k', v', ds') \<in> set m" "ipvs_key v' = ipvs_key v" for k' v' ds'
    using desired_wf_unique [OF assms that] by blast
  then show ?thesis using assms(2) unfolding want_def by blast
qed

lemma want_outside: "kk \<notin> want_svcs m \<Longrightarrow> want m kk = {}"
  by (auto simp: want_svcs_def want_def)

lemma want_lookup:
  assumes "desired_wf m" "map_of m (svc_key v) = Some (p, ds)"
  shows "ipvs_key p = ipvs_key v \<and> want m (ipvs_key v) = dst_key ` set ds \<and> ipvs_key v \<in> want_svcs m"
proof -
  have e: "(svc_key v, p, ds) \<in> set m" using assms(2) by (rule map_of_SomeD)
  then have "ipvs_key p = ipvs_key v" using desired_wf_entry [OF assms(1) e] by (simp add: svc_key_iff)
  then show ?thesis using want_entry [OF assms(1) e] want_svcsI [OF e] by simp
qed

lemma want_no_lookup:
  assumes "desired_wf m" "map_of m (svc_key v) = None"
  shows "ipvs_key v \<notin> want_svcs m"
proof
  assume "ipvs_key v \<in> want_svcs m"
  then obtain k p ds where "(k, p, ds) \<in> set m" "ipvs_key p = ipvs_key v" by (auto simp: want_svcs_def)
  moreover have "k = svc_key v" using desired_wf_entry [OF assms(1)] calculation by (metis svc_key_iff)
  ultimately show False using assms(2) weak_map_of_SomeI by fastforce
qed

lemma same_backend_key: "same_backend d e \<longleftrightarrow> dst_key d = dst_key e"
  by (simp add: same_backend_def)

lemma is_readded_iff:
  assumes "desired_wf m"
  shows "is_readded m p \<longleftrightarrow> snd (pr_key p) \<in> want m (fst (pr_key p))"
proof (cases "map_of m (svc_key (pr_svc p))")
  case None
  then show ?thesis
    using want_outside [OF want_no_lookup [OF assms None]] by (simp add: is_readded_def pr_key_def)
next
  case (Some x)
  then obtain v ds where x: "map_of m (svc_key (pr_svc p)) = Some (v, ds)" by (cases x) auto
  have "\<forall>d\<in>set ds. ds_weight d = 1" using desired_wf_entry [OF assms map_of_SomeD [OF x]] by blast
  then show ?thesis
    using want_lookup [OF assms x] x
    by (auto simp: is_readded_def pr_key_def list_ex_iff same_backend_key image_iff) metis
qed


section \<open>The stages that program the tables\<close>

text \<open>What an entry needs to be there before it is programmed: on a resync nothing unless its parameters changed, on
  an event the service and the destinations that were applied.\<close>

definition held :: "bool \<Rightarrow> desired_map \<Rightarrow> svc_key set \<Rightarrow> (svc_key \<Rightarrow> dest_key set) \<Rightarrow> string \<times> ipvs_service \<times> ipvs_destination list \<Rightarrow> bool" where
  "held full applied S D = (\<lambda>(k, v, ds). case map_of applied k of
     None \<Rightarrow> True
   | Some (p, pd) \<Rightarrow> full \<and> p = v \<or> ipvs_key v \<in> S \<and> (full \<or> dst_key ` set pd \<subseteq> D (ipvs_key v)))"

lemma held_mono:
  assumes "held full applied S D e" "S \<subseteq> S'" "\<And>kk. D kk \<subseteq> D' kk"
  shows "held full applied S' D' e"
proof -
  obtain k v ds where e: "e = (k, v, ds)" by (cases e)
  have "dst_key ` set pd \<subseteq> D (ipvs_key v) \<Longrightarrow> dst_key ` set pd \<subseteq> D' (ipvs_key v)" for pd
    by (erule order_trans) (rule assms(3))
  moreover have "ipvs_key v \<in> S \<Longrightarrow> ipvs_key v \<in> S'" using assms(2) by (rule subsetD)
  ultimately show ?thesis
    using assms(1) unfolding e held_def by (simp split: option.splits prod.splits) blast
qed

lemma for_each_ConsE:
  assumes "for_each f (x # xs) s = (Inr u, s')"
  obtains u1 s1 where "f x s = (Inr u1, s1)" "for_each f xs s1 = (Inr u, s')"
  using assms by (auto split: prod.splits sum.splits)

context proxy_env
begin

abbreviation dkeys :: "'s \<Rightarrow> svc_key \<Rightarrow> dest_key set" where
  "dkeys s kk \<equiv> dom (dests s kk)"

lemma program_dest_keys:
  assumes "program_dest (sy_ipvs c) full prev v d s = (Inr u, s')" "ipvs_key v \<in> dom (svcs s)"
    "full \<or> dst_key ` set prev \<subseteq> dkeys s (ipvs_key v)"
  shows "svcs s' = svcs s"
    and "dkeys s' kk = (if kk = ipvs_key v then {dst_key d} else {}) \<union> dkeys s kk"
proof -
  have "svcs s' = svcs s \<and> dkeys s' kk = (if kk = ipvs_key v then {dst_key d} else {}) \<union> dkeys s kk"
  proof (cases "full \<or> find (\<lambda>e. same_backend e d) prev = None")
    case True
    then have "iv_add_destination (sy_ipvs c) v d s = (Inr u, s')"
      using assms(1) by (auto simp: program_dest_def split: if_splits)
    from iv.add_destination_ok [OF this assms(2)]
    obtain d' where "svcs s' = svcs s" "dests s' = (dests s)(ipvs_key v := (dests s (ipvs_key v))(dst_key d \<mapsto> d'))"
      by blast
    then show ?thesis by simp
  next
    case False
    then obtain e where e: "find (\<lambda>e. same_backend e d) prev = Some e" by (cases "find (\<lambda>e. same_backend e d) prev") simp_all
    then have "e \<in> set prev" and eq: "dst_key e = dst_key d" by (auto simp: find_Some_iff same_backend_key)
    then have "dst_key e \<in> dst_key ` set prev" by (intro imageI)
    then have there: "dst_key d \<in> dkeys s (ipvs_key v)" using assms(3) False by (simp only: eq) blast
    show ?thesis
    proof (cases "e = d")
      case True
      then have "s' = s" using assms(1) e False by (simp add: program_dest_def eff_ok_def)
      then show ?thesis using there by (simp add: insert_absorb)
    next
      case ne: False
      then have "iv_update_destination (sy_ipvs c) v d s = (Inr u, s')"
        using assms(1) e False by (simp add: program_dest_def)
      from iv.update_destination_ok [OF this] there
      have "svcs s' = svcs s" "dests s' = (dests s)(ipvs_key v := (dests s (ipvs_key v))(dst_key d \<mapsto> d))" by blast+
      then show ?thesis by simp
    qed
  qed
  then show "svcs s' = svcs s" "dkeys s' kk = (if kk = ipvs_key v then {dst_key d} else {}) \<union> dkeys s kk"
    by blast+
qed

lemma program_dests_keys:
  assumes "for_each (program_dest (sy_ipvs c) full prev v) ds s = (Inr u, s')" "ipvs_key v \<in> dom (svcs s)"
    "full \<or> dst_key ` set prev \<subseteq> dkeys s (ipvs_key v)"
  shows "svcs s' = svcs s \<and> dkeys s' kk = (if kk = ipvs_key v then dst_key ` set ds else {}) \<union> dkeys s kk"
  using assms
proof (induction ds arbitrary: s)
  case (Cons d ds)
  from Cons.prems(1) obtain u1 s1 where 1: "program_dest (sy_ipvs c) full prev v d s = (Inr u1, s1)"
    and 2: "for_each (program_dest (sy_ipvs c) full prev v) ds s1 = (Inr u, s')" by (rule for_each_ConsE)
  note p = program_dest_keys [OF 1 Cons.prems(2,3)]
  have "full \<or> dst_key ` set prev \<subseteq> dkeys s1 (ipvs_key v)" using Cons.prems(3) p(2) by blast
  then have "svcs s' = svcs s1 \<and> dkeys s' kk = (if kk = ipvs_key v then dst_key ` set ds else {}) \<union> dkeys s1 kk"
    using Cons.IH [OF 2] Cons.prems(2) p(1) by simp
  then show ?case using p by auto
qed simp

lemma program_service_keys:
  assumes ok: "program_service (sy_ipvs c) full applied (k, v, ds) s = (Inr u, s')"
    and h: "held full applied (dom (svcs s)) (dkeys s) (k, v, ds)"
  shows "dom (svcs s') = insert (ipvs_key v) (dom (svcs s))
    \<and> dkeys s' kk = (if kk = ipvs_key v then dst_key ` set ds else {}) \<union> dkeys s kk"
proof -
  let ?prev = "case map_of applied k of Some (_, d) \<Rightarrow> d | None \<Rightarrow> []"
  obtain u1 s1 where
    1: "(case map_of applied k of
          Some (p, _) \<Rightarrow> if p \<noteq> v then iv_edit_service (sy_ipvs c) v
            else if full then iv_add_service (sy_ipvs c) v else eff_ok ()
        | None \<Rightarrow> iv_add_service (sy_ipvs c) v) s = (Inr u1, s1)"
    and 2: "for_each (program_dest (sy_ipvs c) full ?prev v) ds s1 = (Inr u, s')"
    using ok unfolding program_service_def Let_def prod.case by (elim eff_bind_okE) blast
  have s1: "dom (svcs s1) = insert (ipvs_key v) (dom (svcs s)) \<and> dests s1 = dests s"
  proof (cases "map_of applied k")
    case None
    then show ?thesis using iv.add_service_ok 1 by simp
  next
    case (Some x)
    then obtain p pd where x: "map_of applied k = Some (p, pd)" by (cases x) auto
    show ?thesis
    proof (cases "p = v")
      case False
      then have "iv_edit_service (sy_ipvs c) v s = (Inr u1, s1)" and i: "ipvs_key v \<in> dom (svcs s)"
        using 1 x h by (simp_all add: held_def)
      from iv.edit_service_ok [OF this] show ?thesis by (simp add: insert_absorb [OF i])
    next
      case True
      show ?thesis
      proof (cases full)
        case True
        then show ?thesis using 1 x \<open>p = v\<close> iv.add_service_ok [of v s u1 s1] by simp
      next
        case False
        then have "s1 = s" "ipvs_key v \<in> dom (svcs s)" using 1 x h \<open>p = v\<close> by (simp_all add: held_def eff_ok_def)
        then show ?thesis by (simp add: insert_absorb)
      qed
    qed
  qed
  have prev: "full \<or> dst_key ` set ?prev \<subseteq> dkeys s1 (ipvs_key v)"
    using h s1 by (simp add: held_def split: option.splits prod.splits) blast
  show ?thesis using program_dests_keys [OF 2 _ prev] s1 by simp
qed

lemma program_services_keys:
  assumes "for_each (program_service (sy_ipvs c) full applied) m s = (Inr u, s')"
    "\<forall>e\<in>set m. held full applied (dom (svcs s)) (dkeys s) e"
  shows "dom (svcs s') = dom (svcs s) \<union> want_svcs m \<and> dkeys s' kk = dkeys s kk \<union> want m kk"
  using assms
proof (induction m arbitrary: s)
  case (Cons e m)
  obtain k v ds where e: "e = (k, v, ds)" by (cases e)
  from Cons.prems(1) obtain u1 s1 where 1: "program_service (sy_ipvs c) full applied e s = (Inr u1, s1)"
    and 2: "for_each (program_service (sy_ipvs c) full applied) m s1 = (Inr u, s')" by (rule for_each_ConsE)
  have h: "held full applied (dom (svcs s)) (dkeys s) (k, v, ds)" using Cons.prems(2) e by simp
  note s1 = program_service_keys [OF 1 [unfolded e] h]
  have "held full applied (dom (svcs s1)) (dkeys s1) f" if "f \<in> set m" for f
  proof (rule held_mono)
    show "held full applied (dom (svcs s)) (dkeys s) f" using Cons.prems(2) that by simp
  qed (use s1 in blast)+
  then have "dom (svcs s') = dom (svcs s1) \<union> want_svcs m \<and> dkeys s' kk = dkeys s1 kk \<union> want m kk"
    using Cons.IH [OF 2] by blast
  then show ?case using s1 [of kk] by (auto simp: e)
qed simp

end


section \<open>Removals and addresses\<close>

definition pending :: "graceful_queue \<Rightarrow> (svc_key \<times> dest_key) set" where
  "pending q = pr_key ` set q"

lemma pending_enqueue: "pending (gq_enqueue v d t q) = insert (ipvs_key v, dst_key d) (pending q)"
proof (cases "list_ex (\<lambda>p. same_dst (pr_svc p) (pr_dst p) v d) q")
  case True
  then have "(ipvs_key v, dst_key d) \<in> pending q"
    unfolding pending_def list_ex_iff by (auto simp: same_dst_key intro: rev_image_eqI)
  then show ?thesis using True by (simp add: gq_enqueue_def insert_absorb)
next
  case False
  then show ?thesis by (simp add: gq_enqueue_def pending_def) (simp add: pr_key_def)
qed

lemma outside_okE:
  assumes "outside g m (y, s) = (Inr a, y', s')"
  obtains "m s = (Inr a, s')" "y' = y"
  using assms by (auto simp: outside_def split: prod.splits sum.splits)

context proxy_env
begin

lemma flush_if_udp_keeps:
  assumes "flush_if_udp (sy_ipvs c) v s = (r, s')"
  shows "svcs s' = svcs s" "dests s' = dests s"
  using assms iv.flush_ok by (auto simp: flush_if_udp_def eff_ok_def split: if_splits)

lemma remove_destination_keys:
  assumes ok: "remove_destination c v d (y, s) = (Inr u, y', s')"
    and there: "sy_graceful c \<Longrightarrow> dst_key d \<in> dkeys s (ipvs_key v)"
  shows "svcs s' = svcs s
    \<and> dkeys s' kk = dkeys s kk - (if \<not> sy_graceful c \<and> kk = ipvs_key v then {dst_key d} else {})
    \<and> ss_applied y' = ss_applied y \<and> ss_bound_vips y' = ss_bound_vips y
    \<and> pending (ss_gqueue y') = (if sy_graceful c then {(ipvs_key v, dst_key d)} else {}) \<union> pending (ss_gqueue y)"
proof (cases "sy_graceful c")
  case True
  let ?dr = "d \<lparr> ds_weight := 0 \<rparr>"
  obtain u1 s1 u2 where up: "iv_update_destination (sy_ipvs c) v ?dr s = (Inr u1, s1)"
    and fl: "flush_if_udp (sy_ipvs c) v s1 = (Inr u2, s')"
    and y': "y' = y \<lparr> ss_gqueue := gq_enqueue v ?dr (sy_now c s1 + sy_graceful_period c) (ss_gqueue y) \<rparr>"
    using ok True unfolding remove_destination_def
    by (auto simp: Let_def reading_def modify_self_def elim!: eff_bind_okE outside_okE)
  have i: "dst_key d \<in> dkeys s (ipvs_key v)" using there True by blast
  then have "dests s (ipvs_key v) (dst_key ?dr) \<noteq> None" by (simp add: domIff)
  from iv.update_destination_ok [OF up this] flush_if_udp_keeps [OF fl]
  have "svcs s' = svcs s" "dests s' = (dests s)(ipvs_key v := (dests s (ipvs_key v))(dst_key d \<mapsto> ?dr))" by simp_all
  then show ?thesis using i True by (simp add: y' pending_enqueue insert_absorb)
next
  case False
  obtain u1 s1 u2 where de: "iv_del_destination (sy_ipvs c) v d s = (Inr u1, s1)"
    and fl: "flush_if_udp (sy_ipvs c) v s1 = (Inr u2, s')" and y': "y' = y"
    using ok False unfolding remove_destination_def by (auto elim!: eff_bind_okE outside_okE)
  from iv.del_destination_ok [OF de] flush_if_udp_keeps [OF fl]
  have "svcs s' = svcs s" "dests s' = (dests s)(ipvs_key v := (dests s (ipvs_key v))(dst_key d := None))" by simp_all
  then show ?thesis using False by (simp add: y')
qed

end


text \<open>The destinations of a list of removals.\<close>

definition dropped :: "(ipvs_service \<times> ipvs_destination) list \<Rightarrow> svc_key \<Rightarrow> dest_key set" where
  "dropped L kk = {dst_key d | v d. (v, d) \<in> set L \<and> ipvs_key v = kk}"

lemma dropped_simps [simp]:
  "dropped [] kk = {}" "dropped ((v, d) # L) kk = (if kk = ipvs_key v then {dst_key d} else {}) \<union> dropped L kk"
  by (auto simp: dropped_def)

context proxy_env
begin

lemma remove_destinations_keys:
  assumes "for_each (\<lambda>(v, d). remove_destination c v d) L (y, s) = (Inr u, y', s')"
    and "sy_graceful c \<longrightarrow> (\<forall>(v, d)\<in>set L. dst_key d \<in> dkeys s (ipvs_key v))"
  shows "svcs s' = svcs s \<and> dkeys s' kk = dkeys s kk - (if sy_graceful c then {} else dropped L kk)
    \<and> ss_applied y' = ss_applied y \<and> ss_bound_vips y' = ss_bound_vips y
    \<and> pending (ss_gqueue y') = (if sy_graceful c then {(kk, dk). dk \<in> dropped L kk} else {}) \<union> pending (ss_gqueue y)"
  using assms
proof (induction L arbitrary: y s)
  case (Cons x L)
  obtain v d where x: "x = (v, d)" by (cases x)
  from Cons.prems(1) obtain u1 y1 s1 where 1: "remove_destination c v d (y, s) = (Inr u1, y1, s1)"
    and 2: "for_each (\<lambda>(v, d). remove_destination c v d) L (y1, s1) = (Inr u, y', s')"
    unfolding x by (elim for_each_ConsE) (auto simp: case_prod_beta')
  have "sy_graceful c \<Longrightarrow> dst_key d \<in> dkeys s (ipvs_key v)" using Cons.prems(2) x by simp
  note r = remove_destination_keys [OF 1 this]
  have "sy_graceful c \<longrightarrow> (\<forall>(v, d)\<in>set L. dst_key d \<in> dkeys s1 (ipvs_key v))"
    using Cons.prems(2) r by (auto split: prod.splits)
  note ih = Cons.IH [OF 2 this]
  show ?case
  proof (cases "sy_graceful c")
    case True
    have "{(kk, dk). dk \<in> dropped (x # L) kk} = insert (ipvs_key v, dst_key d) {(kk, dk). dk \<in> dropped L kk}"
      by (auto simp: x split: if_splits)
    then show ?thesis using ih r [of kk] True by simp
  next
    case False
    then show ?thesis using ih r [of kk] by (auto simp: x)
  qed
qed simp

lemma remove_services_keys:
  assumes "for_each (remove_service (sy_ipvs c)) L s = (Inr u, s')"
  shows "dom (svcs s') = dom (svcs s) - ipvs_key ` set L
    \<and> dkeys s' kk = (if kk \<in> ipvs_key ` set L then {} else dkeys s kk)"
  using assms
proof (induction L arbitrary: s)
  case (Cons v L)
  from Cons.prems obtain u1 s1 where 1: "remove_service (sy_ipvs c) v s = (Inr u1, s1)"
    and 2: "for_each (remove_service (sy_ipvs c)) L s1 = (Inr u, s')" by (rule for_each_ConsE)
  obtain u2 s2 where d: "iv_del_service (sy_ipvs c) v s = (Inr u2, s2)" and f: "flush_if_udp (sy_ipvs c) v s2 = (Inr u1, s1)"
    using 1 unfolding remove_service_def by (elim eff_bind_okE)
  have "svcs s1 = (svcs s)(ipvs_key v := None)" "dests s1 = (dests s)(ipvs_key v := Map.empty)"
    using iv.del_service_ok [OF d] flush_if_udp_keeps [OF f] by simp_all
  then have "dom (svcs s1) = dom (svcs s) - {ipvs_key v}" "dkeys s1 kk = (if kk = ipvs_key v then {} else dkeys s kk)"
    by simp_all
  then show ?case using Cons.IH [OF 2] by auto
qed simp

lemma addr_loop:
  assumes "for_each (\<lambda>vip. nl_addr_add (sy_nl c) l vip (prefix_len vip)) L s = (Inr u, s')"
  shows "addrs s' = addrs s \<union> (\<lambda>a. (l, a, prefix_len a)) ` set L \<and> svcs s' = svcs s \<and> dests s' = dests s"
  using assms
proof (induction L arbitrary: s)
  case (Cons a L)
  from Cons.prems obtain u1 s1 where 1: "nl_addr_add (sy_nl c) l a (prefix_len a) s = (Inr u1, s1)"
    and 2: "for_each (\<lambda>vip. nl_addr_add (sy_nl c) l vip (prefix_len vip)) L s1 = (Inr u, s')" by (rule for_each_ConsE)
  have "addrs s1 = insert (l, a, prefix_len a) (addrs s)" using ad.addr_add_ok [OF 1] by blast
  moreover have "svcs s1 = svcs s" "dests s1 = dests s" using keepsD [OF nl_tables(1) 1] by simp_all
  ultimately show ?case using Cons.IH [OF 2] by simp
qed simp

lemma addr_del_loop:
  assumes "for_each (\<lambda>vip. nl_addr_del (sy_nl c) l vip (prefix_len vip)) L s = (Inr u, s')"
  shows "addrs s' = addrs s - (\<lambda>a. (l, a, prefix_len a)) ` set L \<and> svcs s' = svcs s \<and> dests s' = dests s"
  using assms
proof (induction L arbitrary: s)
  case (Cons a L)
  from Cons.prems obtain u1 s1 where 1: "nl_addr_del (sy_nl c) l a (prefix_len a) s = (Inr u1, s1)"
    and 2: "for_each (\<lambda>vip. nl_addr_del (sy_nl c) l vip (prefix_len vip)) L s1 = (Inr u, s')" by (rule for_each_ConsE)
  have "addrs s1 = addrs s - {(l, a, prefix_len a)}" using ad.addr_del_ok [OF 1] by blast
  moreover have "svcs s1 = svcs s" "dests s1 = dests s" using keepsD [OF nl_tables(2) 1] by simp_all
  ultimately show ?case using Cons.IH [OF 2] by auto
qed simp

end


section \<open>What is removed\<close>

lemma in_stale_dests:
  "(v, d) \<in> set (stale_dests D A) \<longleftrightarrow>
     (\<exists>k ds p pd. (k, v, ds) \<in> set D \<and> map_of A k = Some (p, pd) \<and> d \<in> set pd \<and> dst_key d \<notin> dst_key ` set ds)"
proof -
  have e: "list_ex (\<lambda>d'. same_backend d' d) ds \<longleftrightarrow> dst_key d \<in> dst_key ` set ds" for ds
    unfolding list_ex_iff same_backend_key by (metis (no_types, lifting) image_iff)
  have one: "(v, d) \<in> set (case map_of A k of
         Some (_, prev) \<Rightarrow> map (\<lambda>old. (isvc, old)) (filter (\<lambda>old. \<not> list_ex (\<lambda>d. same_backend d old) ds) prev)
       | None \<Rightarrow> []) \<longleftrightarrow> v = isvc \<and> (\<exists>p pd. map_of A k = Some (p, pd) \<and> d \<in> set pd \<and> dst_key d \<notin> dst_key ` set ds)" for k isvc ds
    unfolding e [symmetric] by (cases "map_of A k") auto
  show ?thesis
    unfolding stale_dests_def set_concat set_map image_image UN_iff Bex_def split_paired_Ex prod.case one by blast
qed

lemma dropped_stale:
  assumes A: "desired_wf A" and D: "desired_wf D"
  shows "dropped (stale_dests D A) kk = (if kk \<in> want_svcs D then want A kk - want D kk else {})"
proof (cases "kk \<in> want_svcs D")
  case False
  then show ?thesis unfolding dropped_def in_stale_dests using want_svcsI [of _ _ _ D] by auto
next
  case True
  then obtain k v ds where e: "(k, v, ds) \<in> set D" "kk = ipvs_key v" by (auto simp: want_svcs_def)
  have only: "k' = k \<and> ds' = ds" if "(k', v', ds') \<in> set D" "ipvs_key v' = kk" for k' v' ds'
    using desired_wf_unique [OF D e(1) that(1)] that e desired_wf_entry [OF D] by metis
  have k: "k = svc_key v" using desired_wf_entry [OF D e(1)] by blast
  have "dropped (stale_dests D A) kk = {dst_key d | d p pd. map_of A k = Some (p, pd) \<and> d \<in> set pd \<and> dst_key d \<notin> want D kk}"
    unfolding dropped_def in_stale_dests want_entry [OF D e(1), folded e(2)] using only e by blast
  also have "\<dots> = want A kk - want D kk"
  proof (cases "map_of A k")
    case None
    then show ?thesis using want_outside [OF want_no_lookup [OF A, of v]] k e(2) by simp
  next
    case (Some x)
    then obtain p pd where "map_of A k = Some (p, pd)" by (cases x) auto
    then show ?thesis using want_lookup [OF A, of v p pd] k e(2) by auto
  qed
  finally show ?thesis using True by simp
qed

lemma removed_keys:
  assumes A: "desired_wf A" and D: "desired_wf D"
  shows "ipvs_key ` set (removed_svcs D A) = want_svcs A - want_svcs D"
proof -
  have m: "map_of D k = None \<longleftrightarrow> ipvs_key v \<notin> want_svcs D" if "(k, v, ds) \<in> set A" for k v ds
  proof -
    have k: "k = svc_key v" using desired_wf_entry [OF A that] by blast
    show ?thesis
    proof (cases "map_of D k")
      case None
      then show ?thesis using want_no_lookup [OF D] k by simp
    next
      case (Some x)
      then obtain p pd where "map_of D (svc_key v) = Some (p, pd)" using k by (cases x) auto
      then show ?thesis using want_lookup [OF D] k by auto
    qed
  qed
  have "v \<in> set (removed_svcs D A) \<longleftrightarrow> (\<exists>k ds. (k, v, ds) \<in> set A \<and> map_of D k = None)" for v
    unfolding removed_svcs_def by force
  then show ?thesis using m unfolding want_svcs_def [of A] by blast
qed


section \<open>Kernel and books agree\<close>

text \<open>
  The services of the table are the applied ones; the destinations of each are the applied ones and some that are
  being drained; the addresses on the dummy interface are the bound ones.
\<close>

definition synced ::
  "(svc_key \<rightharpoonup> ipvs_service) \<Rightarrow> (svc_key \<Rightarrow> dest_key \<rightharpoonup> ipvs_destination) \<Rightarrow> (string \<times> ip_addr \<times> u8) set \<Rightarrow> sync_state \<Rightarrow> bool" where
  "synced sv de bound y \<longleftrightarrow> desired_wf (ss_applied y) \<and> dom sv = want_svcs (ss_applied y)
     \<and> (\<forall>kk. want (ss_applied y) kk \<subseteq> dom (de kk) \<and> dom (de kk) \<subseteq> want (ss_applied y) kk \<union> {dk. (kk, dk) \<in> pending (ss_gqueue y)}
          \<and> (kk \<notin> dom sv \<longrightarrow> dom (de kk) = {}))
     \<and> {a. (DUMMY_IF, a, prefix_len a) \<in> bound} = set (ss_bound_vips y)"

lemma syncedD:
  assumes "synced sv de bound y"
  shows "desired_wf (ss_applied y)" "dom sv = want_svcs (ss_applied y)" "want (ss_applied y) kk \<subseteq> dom (de kk)"
    "dom (de kk) \<subseteq> want (ss_applied y) kk \<union> {dk. (kk, dk) \<in> pending (ss_gqueue y)}"
    "kk \<notin> dom sv \<Longrightarrow> dom (de kk) = {}" "{a. (DUMMY_IF, a, prefix_len a) \<in> bound} = set (ss_bound_vips y)"
  using assms unfolding synced_def by blast+

lemma held_synced:
  assumes "synced sv de bound y" "desired_wf D" "e \<in> set D"
  shows "held full (ss_applied y) (dom sv) (\<lambda>kk. dom (de kk)) e"
proof -
  obtain k v ds where e: "e = (k, v, ds)" by (cases e)
  have k: "k = svc_key v" using desired_wf_entry [OF assms(2)] assms(3) e by blast
  show ?thesis
  proof (cases "map_of (ss_applied y) k")
    case (Some x)
    then obtain p pd where x: "map_of (ss_applied y) (svc_key v) = Some (p, pd)" using k by (cases x) auto
    from want_lookup [OF syncedD(1) [OF assms(1)] x] syncedD(2,3) [OF assms(1)] x show ?thesis
      by (simp add: e held_def k) metis
  qed (simp add: e held_def)
qed

context proxy_env
begin

lemma program_tables_okE:
  assumes "program_tables c full p (y, s) = (Inr u, y', s')"
  obtains u1 s1 u2 y2 s2 u3 s3 u4 where
    "for_each (program_service (sy_ipvs c) full (ss_applied y)) (sp_desired p) s = (Inr u1, s1)"
    "for_each (\<lambda>(isvc, old). remove_destination c isvc old) (stale_dests (sp_desired p) (ss_applied y)) (y, s1) = (Inr u2, y2, s2)"
    "for_each (remove_service (sy_ipvs c)) (removed_svcs (sp_desired p) (ss_applied y)) s2 = (Inr u3, s3)"
    "bind_vips (sy_nl c) (sp_want_vips p) (ss_bound_vips y) s3 = (Inr u4, s')" "y' = remember p y2"
  using assms unfolding program_tables_def with_self_def prod.case
  by (elim eff_bind_okE) (auto simp: modify_self_def elim!: outside_okE)

lemma bind_vips_addrs:
  assumes "bind_vips (sy_nl c) vips bound s = (Inr u, s')" "{a. (DUMMY_IF, a, prefix_len a) \<in> addrs s} = set bound"
  shows "{a. (DUMMY_IF, a, prefix_len a) \<in> addrs s'} = set vips \<and> svcs s' = svcs s \<and> dests s' = dests s"
proof -
  obtain u1 s1 where 1: "for_each (\<lambda>vip. nl_addr_add (sy_nl c) DUMMY_IF vip (prefix_len vip)) (filter (\<lambda>v. v \<notin> set bound) vips) s = (Inr u1, s1)"
    and 2: "for_each (\<lambda>vip. nl_addr_del (sy_nl c) DUMMY_IF vip (prefix_len vip)) (filter (\<lambda>v. v \<notin> set vips) bound) s1 = (Inr u, s')"
    using assms(1) unfolding bind_vips_def by (elim eff_bind_okE)
  show ?thesis using addr_loop [OF 1] addr_del_loop [OF 2] assms(2) by auto
qed

lemma ipvs_stages_addrs:
  "keeps addrs (for_each (program_service (sy_ipvs c) full applied) m)" (is ?P)
  "keeps addrs (for_each (remove_service (sy_ipvs c)) L)" (is ?R)
  "keeps (out_view addrs) (for_each (\<lambda>(isvc, old). remove_destination c isvc old) S)" (is ?D)
proof -
  note k = ipvs_addrs [unfolded ipvs_keeps_def]
  have "keeps addrs (program_dest (sy_ipvs c) full prev v d)" for prev v d
    unfolding program_dest_def using k by (auto split: option.split intro: keeps_intros)
  then show ?P unfolding program_service_def Let_def using k
    by (auto split: option.split prod.split intro!: keeps_intros)
  have f: "keeps addrs (flush_if_udp (sy_ipvs c) v)" for v
    unfolding flush_if_udp_def using k by (auto intro: keeps_intros)
  then show ?R unfolding remove_service_def using k by (auto intro!: keeps_intros)
  show ?D unfolding remove_destination_def Let_def using k f by (auto intro!: keeps_intros)
qed

end


context proxy_env
begin

lemma program_tables_synced:
  assumes sy: "synced (svcs s) (dests s) (addrs s) y" and D: "desired_wf (sp_desired p)"
    and ok: "program_tables c full p (y, s) = (Inr u, y', s')"
  shows "synced (svcs s') (dests s') (addrs s') y' \<and> ss_applied y' = sp_desired p \<and> ss_bound_vips y' = sp_want_vips p
    \<and> (\<not> sy_graceful c \<longrightarrow> pending (ss_gqueue y') = pending (ss_gqueue y))"
proof -
  let ?D = "sp_desired p" and ?A = "ss_applied y"
  from ok obtain u1 s1 u2 y2 s2 u3 s3 u4 where
    1: "for_each (program_service (sy_ipvs c) full ?A) ?D s = (Inr u1, s1)" and
    2: "for_each (\<lambda>(isvc, old). remove_destination c isvc old) (stale_dests ?D ?A) (y, s1) = (Inr u2, y2, s2)" and
    3: "for_each (remove_service (sy_ipvs c)) (removed_svcs ?D ?A) s2 = (Inr u3, s3)" and
    4: "bind_vips (sy_nl c) (sp_want_vips p) (ss_bound_vips y) s3 = (Inr u4, s')" and y': "y' = remember p y2"
    by (rule program_tables_okE)
  note A = syncedD(1) [OF sy]
  note k1 = program_services_keys [OF 1 ballI [OF held_synced [OF sy D]]]
  have "dst_key d \<in> dkeys s1 (ipvs_key v)" if "(v, d) \<in> set (stale_dests ?D ?A)" for v d
  proof -
    have "dst_key d \<in> dropped (stale_dests ?D ?A) (ipvs_key v)" using that unfolding dropped_def by blast
    then have "dst_key d \<in> want ?A (ipvs_key v)" unfolding dropped_stale [OF A D] by (auto split: if_splits)
    then show ?thesis using syncedD(3) [OF sy] k1 by blast
  qed
  then have "sy_graceful c \<longrightarrow> (\<forall>(v, d)\<in>set (stale_dests ?D ?A). dst_key d \<in> dkeys s1 (ipvs_key v))" by blast
  note k2 = remove_destinations_keys [OF 2 this, unfolded dropped_stale [OF A D]]
  note k3 = remove_services_keys [OF 3, unfolded removed_keys [OF A D]]
  have "addrs s3 = addrs s"
    using keepsD [OF ipvs_stages_addrs(1) 1] keepsD [OF ipvs_stages_addrs(3) 2] keepsD [OF ipvs_stages_addrs(2) 3] by simp
  then have k4: "{a. (DUMMY_IF, a, prefix_len a) \<in> addrs s'} = set (sp_want_vips p)" "svcs s' = svcs s3" "dests s' = dests s3"
    using bind_vips_addrs [OF 4] syncedD(6) [OF sy] by simp_all
  have sv: "dom (svcs s') = want_svcs ?D" using k1 k2 k3 k4 syncedD(2) [OF sy] by auto
  have q: "ss_gqueue y' = ss_gqueue y2" "ss_applied y' = ?D" "ss_bound_vips y' = sp_want_vips p" by (simp_all add: y' remember_def)
  have dk: "dkeys s' kk = (if kk \<in> want_svcs ?A - want_svcs ?D then {} else
      (dkeys s kk \<union> want ?D kk) - (if sy_graceful c \<or> kk \<notin> want_svcs ?D then {} else want ?A kk - want ?D kk))" for kk
    using k1 [of kk] k2 [of kk] k3 [of kk] k4(3) by simp
  have pend: "pending (ss_gqueue y') = (if sy_graceful c then {(kk, dk). kk \<in> want_svcs ?D \<and> dk \<in> want ?A kk - want ?D kk} else {}) \<union> pending (ss_gqueue y)"
    using k2 q by (auto split: if_splits)
  have "want ?D kk \<subseteq> dkeys s' kk" for kk using dk want_outside [of kk ?D] by auto
  moreover have "dkeys s' kk \<subseteq> want ?D kk \<union> {dk. (kk, dk) \<in> pending (ss_gqueue y')}" for kk
  proof (cases "kk \<in> want_svcs ?D")
    case True
    then show ?thesis using dk [of kk] syncedD(4) [OF sy, of kk] unfolding pend by auto
  next
    case False
    then have "dkeys s' kk = {}"
      using dk [of kk] want_outside [of kk ?D] syncedD(2) [OF sy] syncedD(5) [OF sy, of kk] by auto
    then show ?thesis by simp
  qed
  moreover have "kk \<notin> dom (svcs s') \<Longrightarrow> dkeys s' kk = {}" for kk
    unfolding sv using dk [of kk] want_outside [of kk ?D] syncedD(2) [OF sy] syncedD(5) [OF sy, of kk] by auto
  ultimately show ?thesis
    unfolding synced_def q(2,3) using D sv k4(1) pend by (simp split: if_splits)
qed

end


context proxy_env
begin

lemma drain_oneE:
  assumes "drain_one c now p (y, s) = (Inr u, y', s')"
  obtains (readded) "is_readded (ss_applied y) p" "y' = y" "s' = s"
  | (deleted) "\<not> is_readded (ss_applied y) p" "y' = y" "svcs s' = svcs s"
      "dests s' = (dests s)(fst (pr_key p) := (dests s (fst (pr_key p)))(snd (pr_key p) := None))" "addrs s' = addrs s"
  | (requeued) "\<not> is_readded (ss_applied y) p" "y' = y \<lparr> ss_gqueue := ss_gqueue y @ [p] \<rparr>" "now < pr_deadline p"
      "svcs s' = svcs s" "dests s' = dests s" "addrs s' = addrs s"
proof (cases "is_readded (ss_applied y) p")
  case True
  moreover have "y' = y" "s' = s" using assms True by (simp_all add: drain_one_def with_self_def eff_ok_def)
  ultimately show ?thesis by (rule readded)
next
  case False
  have ka: "keeps addrs (iv_dest_conn_stats (sy_ipvs c) (pr_svc p) (pr_dst p))"
    and kd: "keeps addrs (iv_del_destination (sy_ipvs c) (pr_svc p) (pr_dst p))"
    using ipvs_addrs [unfolded ipvs_keeps_def] by blast+
  obtain conns s1 where st: "iv_dest_conn_stats (sy_ipvs c) (pr_svc p) (pr_dst p) s = (Inr conns, s1)"
    and rest: "(if conns = Some (0, 0) \<or> now \<ge> pr_deadline p
       then outside SyIpvs (iv_del_destination (sy_ipvs c) (pr_svc p) (pr_dst p))
       else modify_self (\<lambda>y. y \<lparr> ss_gqueue := gq_requeue p (ss_gqueue y) \<rparr>)) (y, s1) = (Inr u, y', s')"
    using assms False unfolding drain_one_def with_self_def by (auto elim!: eff_bind_okE outside_okE)
  have s1: "svcs s1 = svcs s" "dests s1 = dests s" "addrs s1 = addrs s"
    using iv.conn_stats_ok [OF st] keepsD [OF ka st] by simp_all
  show ?thesis
  proof (cases "conns = Some (0, 0) \<or> now \<ge> pr_deadline p")
    case True
    then have de: "iv_del_destination (sy_ipvs c) (pr_svc p) (pr_dst p) s1 = (Inr u, s')" and y': "y' = y"
      using rest by (auto elim!: outside_okE)
    show ?thesis
    proof (rule deleted [OF False y'])
      show "svcs s' = svcs s" using iv.del_destination_ok [OF de] s1 by simp
      show "dests s' = (dests s)(fst (pr_key p) := (dests s (fst (pr_key p)))(snd (pr_key p) := None))"
        using iv.del_destination_ok [OF de] s1 by (simp add: pr_key_def)
      show "addrs s' = addrs s" using keepsD [OF kd de] s1 by simp
    qed
  next
    case no: False
    then show ?thesis using rest s1 by (intro requeued [OF False]) (simp_all add: modify_self_def gq_requeue_def)
  qed
qed

definition drained :: "'s \<Rightarrow> sync_state \<Rightarrow> 's \<Rightarrow> sync_state \<Rightarrow> bool" where
  "drained s y s' y' \<longleftrightarrow> svcs s' = svcs s \<and> addrs s' = addrs s \<and> ss_applied y' = ss_applied y
     \<and> ss_bound_vips y' = ss_bound_vips y \<and> (\<forall>kk. dkeys s' kk \<subseteq> dkeys s kk
     \<and> (want (ss_applied y) kk \<subseteq> dkeys s kk \<longrightarrow> want (ss_applied y) kk \<subseteq> dkeys s' kk))"

lemma drained_refl: "drained s y s y"
  by (simp add: drained_def)

lemma drained_trans:
  assumes "drained s y s1 y1" "drained s1 y1 s2 y2"
  shows "drained s y s2 y2"
  unfolding drained_def
proof (intro conjI allI impI)
  fix kk
  show "dkeys s2 kk \<subseteq> dkeys s kk" using assms unfolding drained_def by blast
  assume "want (ss_applied y) kk \<subseteq> dkeys s kk"
  then have "want (ss_applied y1) kk \<subseteq> dkeys s1 kk" using assms(1) unfolding drained_def by simp
  then have "want (ss_applied y1) kk \<subseteq> dkeys s2 kk" using assms(2) unfolding drained_def by blast
  then show "want (ss_applied y) kk \<subseteq> dkeys s2 kk" using assms(1) unfolding drained_def by simp
qed (use assms in \<open>simp_all add: drained_def\<close>)

lemma drain_one_keys:
  assumes ok: "drain_one c now p (y, s) = (Inr u, y', s')" and wf: "desired_wf (ss_applied y)"
    and up: "\<And>kk. dkeys s kk \<subseteq> want (ss_applied y) kk \<union> {dk. (kk, dk) \<in> insert (pr_key p) (P \<union> pending (ss_gqueue y))}"
  shows "drained s y s' y'" and "set (ss_gqueue y') \<subseteq> set (ss_gqueue y) \<union> (if now < pr_deadline p then {p} else {})"
    and "dkeys s' kk \<subseteq> want (ss_applied y) kk \<union> {dk. (kk, dk) \<in> P \<union> pending (ss_gqueue y')}"
proof -
  obtain K dk where p: "pr_key p = (K, dk)" by (cases "pr_key p")
  note up' = up [of kk, unfolded p]
  have r: "is_readded (ss_applied y) p \<longleftrightarrow> dk \<in> want (ss_applied y) K" using is_readded_iff [OF wf] p by simp
  have "drained s y s' y' \<and> set (ss_gqueue y') \<subseteq> set (ss_gqueue y) \<union> (if now < pr_deadline p then {p} else {})
    \<and> dkeys s' kk \<subseteq> want (ss_applied y) kk \<union> {dk. (kk, dk) \<in> P \<union> pending (ss_gqueue y')}"
    using ok
  proof (cases rule: drain_oneE)
    case readded
    then have "dk \<in> want (ss_applied y) K" using r by blast
    then show ?thesis using readded up' drained_refl by blast
  next
    case deleted
    then have n: "dk \<notin> want (ss_applied y) K" using r by blast
    have d: "dkeys s' kk = dkeys s kk - (if kk = K then {dk} else {})" for kk
      using deleted(4) p by simp
    have "drained s y s' y'" using n deleted(2,3,5) d unfolding drained_def by simp blast
    moreover have "dkeys s' kk \<subseteq> want (ss_applied y) kk \<union> {dk. (kk, dk) \<in> P \<union> pending (ss_gqueue y')}"
      using up' d [of kk] deleted(2) by (simp split: if_splits) blast+
    ultimately show ?thesis using deleted(2) by simp
  next
    case requeued
    then have "pending (ss_gqueue y') = insert (K, dk) (pending (ss_gqueue y))" using p by (simp add: pending_def)
    moreover have "drained s y s' y'" using requeued unfolding drained_def by simp
    moreover have "dkeys s' kk = dkeys s kk" using requeued(5) by simp
    ultimately show ?thesis using requeued(2,3) up' by (simp add: Un_left_commute)
  qed
  then show "drained s y s' y'" "set (ss_gqueue y') \<subseteq> set (ss_gqueue y) \<union> (if now < pr_deadline p then {p} else {})"
    "dkeys s' kk \<subseteq> want (ss_applied y) kk \<union> {dk. (kk, dk) \<in> P \<union> pending (ss_gqueue y')}"
    by blast+
qed

lemma drain_all_keys:
  assumes "for_each (drain_one c now) todo (y, s) = (Inr u, y', s')" "desired_wf (ss_applied y)"
    "\<And>kk. dkeys s kk \<subseteq> want (ss_applied y) kk \<union> {dk. (kk, dk) \<in> pending todo \<union> pending (ss_gqueue y)}"
  shows "drained s y s' y' \<and> set (ss_gqueue y') \<subseteq> set (ss_gqueue y) \<union> {p \<in> set todo. now < pr_deadline p}
    \<and> dkeys s' kk \<subseteq> want (ss_applied y) kk \<union> {dk. (kk, dk) \<in> pending (ss_gqueue y')}"
  using assms
proof (induction todo arbitrary: y s)
  case Nil
  then show ?case using Nil(3) [of kk] by (simp add: drained_def pending_def)
next
  case (Cons p todo)
  from Cons.prems(1) obtain u1 ys1 where 1: "drain_one c now p (y, s) = (Inr u1, ys1)"
    and 2: "for_each (drain_one c now) todo ys1 = (Inr u, y', s')" by (rule for_each_ConsE)
  obtain y1 s1 where ys1: "ys1 = (y1, s1)" by (cases ys1)
  have "dkeys s kk \<subseteq> want (ss_applied y) kk \<union> {dk. (kk, dk) \<in> insert (pr_key p) (pending todo \<union> pending (ss_gqueue y))}" for kk
    using Cons.prems(3) [of kk] by (simp add: pending_def)
  note d1 = drain_one_keys [OF 1 [unfolded ys1] Cons.prems(2) this]
  have a: "ss_applied y1 = ss_applied y" using d1(1) by (simp add: drained_def)
  note d2 = Cons.IH [OF 2 [unfolded ys1], unfolded a, OF Cons.prems(2) d1(3)]
  have "drained s y s' y'" using drained_trans [OF d1(1)] d2 by blast
  moreover have "set (ss_gqueue y') \<subseteq> set (ss_gqueue y) \<union> {p' \<in> set (p # todo). now < pr_deadline p'}"
    using d1(2) d2 by (simp split: if_splits) blast+
  ultimately show ?case using d2 by blast
qed

lemma process_queue_synced:
  assumes sy: "synced (svcs s) (dests s) (addrs s) y" and ok: "process_graceful_queue c (y, s) = (Inr u, y', s')"
  shows "synced (svcs s') (dests s') (addrs s') y' \<and> ss_applied y' = ss_applied y \<and> ss_bound_vips y' = ss_bound_vips y
    \<and> set (ss_gqueue y') \<subseteq> {p \<in> set (ss_gqueue y). sy_now c s < pr_deadline p}"
proof (cases "ss_gqueue y = []")
  case True
  then show ?thesis using ok sy by (simp add: process_graceful_queue_def with_self_def eff_ok_def)
next
  case False
  let ?y0 = "y \<lparr> ss_gqueue := [] \<rparr>"
  have l: "for_each (drain_one c (sy_now c s)) (ss_gqueue y) (?y0, s) = (Inr u, y', s')"
    using ok False by (simp add: process_graceful_queue_def with_self_def reading_def gq_take_def modify_self_def eff_bind_def)
  have "dkeys s kk \<subseteq> want (ss_applied ?y0) kk \<union> {dk. (kk, dk) \<in> pending (ss_gqueue y) \<union> pending (ss_gqueue ?y0)}" for kk
    using syncedD(4) [OF sy, of kk] by (simp add: pending_def)
  moreover have "desired_wf (ss_applied ?y0)" using syncedD(1) [OF sy] by simp
  ultimately have d: "drained s ?y0 s' y'" "set (ss_gqueue y') \<subseteq> {p \<in> set (ss_gqueue y). sy_now c s < pr_deadline p}"
    "dkeys s' kk \<subseteq> want (ss_applied y) kk \<union> {dk. (kk, dk) \<in> pending (ss_gqueue y')}" for kk
    using drain_all_keys [OF l] by simp_all
  have e: "svcs s' = svcs s" "addrs s' = addrs s" "ss_applied y' = ss_applied y" "ss_bound_vips y' = ss_bound_vips y"
    "dkeys s' kk \<subseteq> dkeys s kk" "want (ss_applied y) kk \<subseteq> dkeys s kk \<longrightarrow> want (ss_applied y) kk \<subseteq> dkeys s' kk" for kk
    using d(1) unfolding drained_def by simp_all
  have "kk \<notin> dom (svcs s) \<Longrightarrow> dkeys s' kk = {}" for kk using syncedD(5) [OF sy, of kk] e(5) [of kk] by simp
  moreover have "want (ss_applied y) kk \<subseteq> dkeys s' kk" for kk using syncedD(3) [OF sy] e(6) by blast
  ultimately show ?thesis
    using d(2,3) e(1-4) syncedD(1,2,6) [OF sy] unfolding synced_def by simp
qed

end


section \<open>A pass\<close>

lemma sync_pair_okE:
  assumes "eff_bind m f ys = (Inr b, y', s')"
  obtains a y1 s1 where "m ys = (Inr a, y1, s1)" "f a (y1, s1) = (Inr b, y', s')"
  using assms by (elim eff_bind_okE) (metis surj_pair)

lemma synced_books:
  assumes "books y' = books y"
  shows "synced sv de ad y' \<longleftrightarrow> synced sv de ad y"
  using assms unfolding synced_def books_def by simp

context proxy_env
begin

lemma pass_okE:
  assumes "reconcile_inner c full (y, s) = (Inr u, y', s')"
  obtains u0 y0 s0 u1 y1 s1 u2 y2 s2 where
    "view s0 = view s" "books y0 = books y"
    "program_tables c full (plan_services (sy_api c) (plan_cfg_of c) (sy_provider c s)) (y0, s0) = (Inr u1, y1, s1)"
    "process_graceful_queue c (y1, s1) = (Inr u2, y2, s2)" "view s' = view s2" "books y' = books y2"
proof -
  let ?p = "plan_services (sy_api c) (plan_cfg_of c) (sy_provider c s)"
  obtain ua sa where d: "nl_ensure_dummy_link (sy_nl c) DUMMY_IF s = (Inr ua, sa)"
    and r1: "reading (sy_provider c) (\<lambda>services.
          let p = plan_services (sy_api c) (plan_cfg_of c) services in
          seq_eff (sync_sloppy_tcp c (sp_want_sloppy_tcp p))
         (seq_eff (program_tables c full p) (sync_rest c (sp_dsr_jobs p)))) (y, sa) = (Inr u, y', s')"
    using assms unfolding reconcile_inner_def by (elim sync_pair_okE outside_okE) blast
  have pr: "sy_provider c sa = sy_provider c s" using keepsD [OF provider_frame d] .
  obtain u0 y0 s0 where sl: "sync_sloppy_tcp c (sp_want_sloppy_tcp ?p) (y, sa) = (Inr u0, y0, s0)"
    and r2: "seq_eff (program_tables c full ?p) (sync_rest c (sp_dsr_jobs ?p)) (y0, s0) = (Inr u, y', s')"
    using r1 unfolding reading_def Let_def prod.case pr by (rule sync_pair_okE)
  obtain u1 y1 s1 where pt: "program_tables c full ?p (y0, s0) = (Inr u1, y1, s1)"
    and r3: "sync_rest c (sp_dsr_jobs ?p) (y1, s1) = (Inr u, y', s')"
    using r2 by (rule sync_pair_okE)
  obtain u2 y2 s2 where pq: "process_graceful_queue c (y1, s1) = (Inr u2, y2, s2)"
    and r4: "seq_eff (update_metrics c) (seq_eff (process_dsr_jobs c (sp_dsr_jobs ?p))
      (seq_eff (sync_hairpin_rules c) (seq_eff (sync_masquerade_rules c) (seq_eff (sync_nodeport_healthchecks c)
       (sync_firewall c))))) (y2, s2) = (Inr u, y', s')"
    using r3 unfolding sync_rest_def by (rule sync_pair_okE)
  have "view s0 = view s" using keepsD [OF keeps_sloppy sl] keepsD [OF dummy d] by simp
  moreover have "books y0 = books y" using keepsD [OF books_sloppy sl] by simp
  moreover have "view s' = view s2" "books y' = books y2" using keepsD [OF keeps_tail r4] keepsD [OF books_tail r4] by simp_all
  ultimately show ?thesis using that pt pq by blast
qed

lemma reconcile_synced:
  assumes sy: "synced (svcs s) (dests s) (addrs s) y" and ok: "reconcile_inner c full (y, s) = (Inr u, y', s')"
  defines "p \<equiv> plan_services (sy_api c) (plan_cfg_of c) (sy_provider c s)"
  shows "synced (svcs s') (dests s') (addrs s') y' \<and> ss_applied y' = sp_desired p \<and> ss_bound_vips y' = sp_want_vips p
    \<and> (\<not> sy_graceful c \<and> ss_gqueue y = [] \<longrightarrow> ss_gqueue y' = [])"
proof -
  from ok obtain u0 y0 s0 u1 y1 s1 u2 y2 s2 where v0: "view s0 = view s" "books y0 = books y"
    and pt: "program_tables c full p (y0, s0) = (Inr u1, y1, s1)"
    and pq: "process_graceful_queue c (y1, s1) = (Inr u2, y2, s2)" and v': "view s' = view s2" "books y' = books y2"
    unfolding p_def by (rule pass_okE)
  have "synced (svcs s0) (dests s0) (addrs s0) y0" using sy v0 synced_books [OF v0(2)] by simp
  note t = program_tables_synced [OF this desired_wf_plan pt [unfolded p_def], folded p_def]
  note q = process_queue_synced [OF t [THEN conjunct1] pq]
  have "ss_gqueue y2 = []" if "\<not> sy_graceful c" "ss_gqueue y = []"
    using t q that v0(2) by (auto simp: books_def pending_def)
  then show ?thesis
    using t q v' synced_books [OF v'(2)] by (simp add: books_def)
qed

end



context proxy_env
begin

lemma bind_vips_tables: "keeps (\<lambda>s. (svcs s, dests s)) (bind_vips (sy_nl c) vips bound)"
  unfolding bind_vips_def by (intro keeps_intros nl_tables)

lemma resync_tables:
  assumes A: "desired_wf (ss_applied y)" and D: "desired_wf (sp_desired p)" and g: "\<not> sy_graceful c" "ss_gqueue y = []"
    and held: "\<forall>e\<in>set (sp_desired p). held True (ss_applied y) (dom (svcs s)) (dkeys s) e"
    and ok: "program_tables c True p (y, s) = (Inr u, y', s')"
  shows "dom (svcs s') = (dom (svcs s) - (want_svcs (ss_applied y) - want_svcs (sp_desired p))) \<union> want_svcs (sp_desired p)
    \<and> want (sp_desired p) kk \<subseteq> dkeys s' kk \<and> ss_gqueue y' = []"
proof -
  let ?D = "sp_desired p" and ?A = "ss_applied y"
  from ok obtain u1 s1 u2 y2 s2 u3 s3 u4 where
    1: "for_each (program_service (sy_ipvs c) True ?A) ?D s = (Inr u1, s1)" and
    2: "for_each (\<lambda>(isvc, old). remove_destination c isvc old) (stale_dests ?D ?A) (y, s1) = (Inr u2, y2, s2)" and
    3: "for_each (remove_service (sy_ipvs c)) (removed_svcs ?D ?A) s2 = (Inr u3, s3)" and
    4: "bind_vips (sy_nl c) (sp_want_vips p) (ss_bound_vips y) s3 = (Inr u4, s')" and y': "y' = remember p y2"
    by (rule program_tables_okE)
  have "sy_graceful c \<longrightarrow> (\<forall>(v, d)\<in>set (stale_dests ?D ?A). dst_key d \<in> dkeys s1 (ipvs_key v))" using g by simp
  note k = program_services_keys [OF 1 held, of kk] remove_destinations_keys [OF 2 this, of kk, unfolded dropped_stale [OF A D]]
    remove_services_keys [OF 3, of kk, unfolded removed_keys [OF A D]]
  have b: "svcs s' = svcs s3" "dests s' = dests s3"
    using keepsD [OF bind_vips_tables 4] by simp_all
  have "dom (svcs s') = (dom (svcs s) - (want_svcs ?A - want_svcs ?D)) \<union> want_svcs ?D" using k b by auto
  moreover have "want ?D kk \<subseteq> dkeys s' kk" using k b g want_outside [of kk ?D] by (auto split: if_splits)
  moreover have "ss_gqueue y' = []" using k g by (simp add: y' remember_def pending_def)
  ultimately show ?thesis by blast
qed

end


text \<open>C25: Draining ends: processing the queue with success once every deadline has passed empties the queue and
  leaves each service with exactly its applied destinations.\<close>

theorem drained_after_deadline:
  assumes env: "proxy_env c svcs dests fib addrs" and sy: "synced (svcs s) (dests s) (addrs s) y"
    and due: "\<forall>p\<in>set (ss_gqueue y). pr_deadline p \<le> sy_now c s"
    and ok: "process_graceful_queue c (y, s) = (Inr u, y', s')"
  shows "ss_gqueue y' = [] \<and> (\<forall>kk. dom (dests s' kk) = want (ss_applied y) kk)"
proof -
  note q = proxy_env.process_queue_synced [OF env sy ok]
  have "set (ss_gqueue y') \<subseteq> {p \<in> set (ss_gqueue y). sy_now c s < pr_deadline p}" using q by blast
  also have "\<dots> = {}" using due by (auto simp: not_less)
  finally have e: "ss_gqueue y' = []" by simp
  have "dom (dests s' kk) = want (ss_applied y) kk" for kk
    using syncedD(3,4) [OF q [THEN conjunct1], of kk] q e by (auto simp: pending_def)
  with e show ?thesis by blast
qed

end
