(* ===== verification/Kr_ProxyWorld.thy ===== *)
theory Kr_ProxyWorld
  imports Kr_ProxyTables
begin

text \<open>
  A complete outside for the service sync: an IPVS table, addresses, iptables tables and a snapshot of services side by
  side. It satisfies the laws of the environment, with the table that refuses duplicates as the kernel does and with
  the table of the tests, and the theorems on passes are applied to it.
\<close>

type_synonym world = "ipvs_table \<times> cidr mock_netlink \<times> ipt_tables \<times> services"

definition on_ipvs :: "(ipvs_table, 'e, 'a) eff \<Rightarrow> (world, 'e, 'a) eff" where
  "on_ipvs m = (\<lambda>(t, rest). case m t of (r, t') \<Rightarrow> (r, t', rest))"

definition on_netlink :: "(cidr mock_netlink, 'e, 'a) eff \<Rightarrow> (world, 'e, 'a) eff" where
  "on_netlink m = (\<lambda>(t, n, rest). case m n of (r, n') \<Rightarrow> (r, t, n', rest))"

definition on_iptables :: "(ipt_tables, 'e, 'a) eff \<Rightarrow> (world, 'e, 'a) eff" where
  "on_iptables m = (\<lambda>(t, n, i, rest). case m i of (r, i') \<Rightarrow> (r, t, n, i', rest))"

definition world_ipvs :: "bool \<Rightarrow> world ipvs_ops" where
  "world_ipvs upsert = (let o' = table_ops upsert in \<lparr>
     iv_add_service = (\<lambda>v. on_ipvs (iv_add_service o' v)), iv_edit_service = (\<lambda>v. on_ipvs (iv_edit_service o' v)),
     iv_del_service = (\<lambda>v. on_ipvs (iv_del_service o' v)),
     iv_add_destination = (\<lambda>v d. on_ipvs (iv_add_destination o' v d)),
     iv_del_destination = (\<lambda>v d. on_ipvs (iv_del_destination o' v d)),
     iv_update_destination = (\<lambda>v d. on_ipvs (iv_update_destination o' v d)),
     iv_dest_conn_stats = (\<lambda>v d. on_ipvs (iv_dest_conn_stats o' v d)),
     iv_flush_conntrack_udp = (\<lambda>a p. on_ipvs (iv_flush_conntrack_udp o' a p)),
     iv_service_stats = on_ipvs (iv_service_stats o'),
     iv_add_fwmark_service = (\<lambda>m s p. on_ipvs (iv_add_fwmark_service o' m s p)),
     iv_add_fwmark_destination = (\<lambda>m d. on_ipvs (iv_add_fwmark_destination o' m d)) \<rparr>)"

definition world_netlink :: "(world, cidr) netlink_ops" where
  "world_netlink = \<lparr>
     nl_ensure_dummy_link = (\<lambda>l. on_netlink (nl_ensure_dummy_link mock_netlink_ops l)),
     nl_addr_add = (\<lambda>l a p. on_netlink (nl_addr_add mock_netlink_ops l a p)),
     nl_addr_del = (\<lambda>l a p. on_netlink (nl_addr_del mock_netlink_ops l a p)),
     nl_route_replace = (\<lambda>r. on_netlink (nl_route_replace mock_netlink_ops r)),
     nl_route_del = (\<lambda>r. on_netlink (nl_route_del mock_netlink_ops r)),
     nl_route_list = (\<lambda>t. on_netlink (nl_route_list mock_netlink_ops t)) \<rparr>"

definition world_run :: "world ipt_run" where
  "world_run args = on_iptables (ipt_exec args)"

abbreviation world_svcs :: "world \<Rightarrow> svc_key \<rightharpoonup> ipvs_service" where
  "world_svcs w \<equiv> it_svcs (fst w)"

abbreviation world_dests :: "world \<Rightarrow> svc_key \<Rightarrow> dest_key \<rightharpoonup> ipvs_destination" where
  "world_dests w \<equiv> it_dsts (fst w)"

abbreviation world_addrs :: "world \<Rightarrow> (string \<times> ip_addr \<times> u8) set" where
  "world_addrs w \<equiv> set (mock_addrs (fst (snd w)))"

abbreviation world_fib :: "world \<Rightarrow> cidr \<times> u32 \<rightharpoonup> ip_addr option" where
  "world_fib w \<equiv> mock_fib (fst (snd w))"

definition world_sync :: "bool \<Rightarrow> bool \<Rightarrow> int \<Rightarrow> int \<Rightarrow> (world, cidr) service_sync" where
  "world_sync upsert graceful period now =
     with_graceful graceful period (with_firewall False [(False, system_fw_iptables world_run)] (\<lambda>payload. eff_ok ())
       (with_dsr [(False, system_mangle world_run)] 1500 (with_hairpin False [(False, system_nat world_run)]
         (fst (sync_new world_netlink (world_ipvs upsert) (\<lambda>w. snd (snd (snd w))) cidr_api
            \<lparr> vr_external = [], vr_loadbalancer = [], vr_cluster = [], vr_strict = False \<rparr>
            (\<lambda>w. now) (\<lambda>key val. eff_ok ()) (eff_ok '''') (\<lambda>host. eff_ok ()))))))"

definition world_start :: sync_state where
  "world_start = snd (sync_new world_netlink (world_ipvs False) (\<lambda>w. snd (snd (snd w))) cidr_api
            \<lparr> vr_external = [], vr_loadbalancer = [], vr_cluster = [], vr_strict = False \<rparr>
            (\<lambda>w. 0) (\<lambda>key val. eff_ok ()) (eff_ok '''') (\<lambda>host. eff_ok ()))"

section \<open>The laws hold\<close>

lemma on_ipvs_ok: "on_ipvs m w = (r, w') \<longleftrightarrow> m (fst w) = (r, fst w') \<and> snd w' = snd w"
  by (cases w; cases w') (auto simp: on_ipvs_def split: prod.splits)

lemma on_netlink_ok: "on_netlink m w = (r, w') \<longleftrightarrow> m (fst (snd w)) = (r, fst (snd w')) \<and> fst w' = fst w \<and> snd (snd w') = snd (snd w)"
  by (cases w; cases w') (auto simp: on_netlink_def split: prod.splits)

lemma world_ipvs_ipvs: "ipvs (world_ipvs upsert) world_svcs world_dests"
proof -
  note t = table_ops_ipvs [of upsert]
  show ?thesis
    by (unfold_locales; unfold world_ipvs_def Let_def ipvs_ops.simps on_ipvs_ok;
        blast dest: ipvs.add_service_ok [OF t] ipvs.edit_service_ok [OF t] ipvs.del_service_ok [OF t] ipvs.add_destination_ok [OF t]
          ipvs.update_destination_ok [OF t] ipvs.del_destination_ok [OF t] ipvs.flush_ok [OF t] ipvs.conn_stats_ok [OF t])
qed

lemma world_netlink_netlink: "netlink world_netlink world_fib world_addrs"
  by (unfold_locales; unfold world_netlink_def netlink_ops.simps on_netlink_ok;
      blast dest: mock.route_replace_ok mock.route_del_ok mock.addr_add_ok mock.addr_del_ok mock.route_replace_err
        mock.route_del_err mock.addr_add_err mock.addr_del_err)


lemma keeps_on_ipvs: "keeps (\<lambda>t. v t) m \<Longrightarrow> keeps (\<lambda>w. (v (fst w), h (snd w))) (on_ipvs m)"
  by (auto simp: keeps_def on_ipvs_def split: prod.splits) (metis snd_conv)

lemma keeps_rest_on_ipvs: "keeps (\<lambda>w. h (snd w)) (on_ipvs m)"
  by (auto simp: keeps_def on_ipvs_def split: prod.splits)

lemma keeps_on_netlink: "keeps (\<lambda>w. (h (fst w), g (snd (snd w)))) (on_netlink m)"
  by (auto simp: keeps_def on_netlink_def split: prod.splits)

lemma keeps_world_run: "keeps (\<lambda>w. (world_svcs w, world_dests w, world_addrs w)) (world_run args)"
  by (auto simp: keeps_def world_run_def on_iptables_def split: prod.splits)

lemma keeps_ipt_run [keeps_intros]: "(\<And>args. keeps v (run args)) \<Longrightarrow> keeps v (ipt_run run t args)"
  unfolding ipt_run_def by (intro keeps_intros) blast

lemma keeps_ipt_ops:
  assumes "\<And>args. keeps v (run args)"
  shows "keeps v (ipt_ensure_chain run t ch)" "keeps v (ipt_append_unique run t ch a)" "keeps v (ipt_flush_chain run t ch)"
    "keeps v (ipt_delete run t ch a)" "keeps v (ipt_clear_chain run t ch)" "keeps v (ipt_ensure_top run t ch a)"
  unfolding ipt_ensure_chain_def ipt_append_unique_def ipt_flush_chain_def ipt_delete_def ipt_clear_chain_def ipt_ensure_top_def
  by (intro keeps_intros assms)+

lemma system_ops_keep:
  assumes "\<And>args. keeps v (run args)"
  shows "nat_keeps v (system_nat run)" "mangle_keeps v (system_mangle run)" "fw_keeps v (system_fw_iptables run)"
  using keeps_ipt_ops [OF assms]
  by (simp_all add: nat_keeps_def system_nat_def mangle_keeps_def system_mangle_def fw_keeps_def system_fw_iptables_def)

lemma table_side_keeps:
  "keeps (\<lambda>t. (it_svcs t, it_dsts t)) (iv_service_stats (table_ops u))"
  "keeps (\<lambda>t. (it_svcs t, it_dsts t)) (iv_add_fwmark_service (table_ops u) m sch p)"
  "keeps (\<lambda>t. (it_svcs t, it_dsts t)) (iv_add_fwmark_destination (table_ops u) m d)"
  by (auto simp: keeps_def table_ops_def it_svcs_def it_dsts_def fun_eq_iff)

lemma world_sync_parts:
  "sy_ipvs (world_sync u g t n) = world_ipvs u" "sy_nl (world_sync u g t n) = world_netlink"
  "sy_provider (world_sync u g t n) = (\<lambda>w. snd (snd (snd w)))" "sy_hairpin_nat (world_sync u g t n) = [(False, system_nat world_run)]"
  "sy_dsr_mangle (world_sync u g t n) = [(False, system_mangle world_run)]"
  "sy_firewall_ipt (world_sync u g t n) = [(False, system_fw_iptables world_run)]"
  "sy_firewall_ipset (world_sync u g t n) = Some (\<lambda>payload. eff_ok ())" "sy_metrics (world_sync u g t n) = None"
  "sy_sysctl_write (world_sync u g t n) = (\<lambda>key val. eff_ok ())" "sy_ip_addr_show (world_sync u g t n) = eff_ok ''''"
  "sy_bind (world_sync u g t n) = (\<lambda>host. eff_ok ())" "sy_graceful (world_sync u g t n) = g"
  by (simp_all add: world_sync_def with_graceful_def with_firewall_def with_dsr_def with_hairpin_def sync_new_def)

lemma world_proxy_env: "proxy_env (world_sync u g t n) world_svcs world_dests world_fib world_addrs"
proof (rule proxy_env.intro)
  show "ipvs (sy_ipvs (world_sync u g t n)) world_svcs world_dests" unfolding world_sync_parts by (rule world_ipvs_ipvs)
  show "netlink (sy_nl (world_sync u g t n)) world_fib world_addrs" unfolding world_sync_parts by (rule world_netlink_netlink)
  show "proxy_env_axioms (world_sync u g t n) world_svcs world_dests world_addrs"
  proof (unfold_locales, unfold world_sync_parts, goal_cases)
    case 1
    then show ?case
      by (simp add: ipvs_keeps_def world_ipvs_def Let_def keeps_rest_on_ipvs [of "\<lambda>r. set (mock_addrs (fst r))"])
  next
    case 2
    then show ?case
      using table_side_keeps [THEN keeps_on_ipvs, where h = "\<lambda>r. set (mock_addrs (fst r))"]
      by (simp add: ipvs_side_keeps_def world_ipvs_def Let_def keeps_def)
  next
    case (3 l a p)
    then show ?case using keeps_on_netlink [of "\<lambda>t. (it_svcs t, it_dsts t)" "\<lambda>r. ()"] by (simp add: world_netlink_def keeps_def)
  next
    case (4 l a p)
    then show ?case using keeps_on_netlink [of "\<lambda>t. (it_svcs t, it_dsts t)" "\<lambda>r. ()"] by (simp add: world_netlink_def keeps_def)
  next
    case (5 l)
    then show ?case by (auto simp: world_netlink_def keeps_def on_netlink_def mock_netlink_ops_def)
  next
    case (6 l)
    then show ?case by (auto simp: world_netlink_def keeps_def on_netlink_def mock_netlink_ops_def)
  qed (auto intro: system_ops_keep [OF keeps_world_run] keeps_intros)
qed

interpretation kernel_world: proxy_env "world_sync False True 30 0" world_svcs world_dests world_fib world_addrs
  by (rule world_proxy_env)

lemma synced_start: "synced (it_svcs it_empty) (it_dsts it_empty) {} world_start"
  by (simp add: synced_def world_start_def sync_new_def desired_wf_def bmap_ok_def it_empty_def it_svcs_def it_dsts_def pending_def dom_def)


section \<open>A run\<close>

definition demo_world :: "endpoint_info list \<Rightarrow> world" where
  "demo_world eps = (it_empty, mock_new, [((''nat'', ''POSTROUTING''), []), ((''filter'', ''INPUT''), [])], [(demo_service, eps)])"

definition see :: "endpoint_info list \<Rightarrow> world \<Rightarrow> world" where
  "see eps = (\<lambda>(t, n, i, _). (t, n, i, [(demo_service, eps)]))"

abbreviation demo_key :: svc_key where
  "demo_key \<equiv> (AddrV4 0x0A600001, Tcp, 80)"






definition drain_service :: ipvs_service where
  "drain_service = virtual_service demo_service (AddrV4 0x0A600001) 80"

definition drain_dest :: ipvs_destination where
  "drain_dest = \<lparr> ds_addr = AddrV4 0x0A000002, ds_port = 8080, ds_weight = 0, ds_tunnel = False \<rparr>"

definition drain_state :: sync_state where
  "drain_state = world_start \<lparr> ss_applied := [(svc_key drain_service, drain_service, [])],
     ss_gqueue := [\<lparr> pr_svc = drain_service, pr_dst = drain_dest, pr_deadline = 30 \<rparr>] \<rparr>"

definition drain_world :: world where
  "drain_world = (it_put_dest drain_service drain_dest (it_put_service drain_service it_empty), mock_new, [], [])"

lemma synced_drain: "synced (world_svcs drain_world) (world_dests drain_world) (world_addrs drain_world) drain_state"
proof -
  have "it_svcs it_empty = Map.empty" "it_dsts it_empty = (\<lambda>_. Map.empty)"
    by (simp_all add: it_svcs_def it_dsts_def it_empty_def fun_eq_iff)
  then show ?thesis
    by (simp add: synced_def drain_world_def drain_state_def world_start_def sync_new_def mock_new_def desired_wf_def
        bmap_ok_def pending_def pr_key_def)
qed

theorem drained_after_deadline_witness:
  "let r = process_graceful_queue (world_sync False True 30 31) (drain_state, drain_world) in
     fst r = Inr () \<and> dom (world_dests drain_world demo_key) \<noteq> {} \<and> dom (world_dests (snd (snd r)) demo_key) = {}"
proof -
  let ?r = "process_graceful_queue (world_sync False True 30 31) (drain_state, drain_world)"
  have ok: "fst ?r = Inr ()" by code_simp
  then have r: "?r = (Inr (), fst (snd ?r), snd (snd ?r))" by (simp add: prod_eq_iff)
  have "\<forall>p\<in>set (ss_gqueue drain_state). pr_deadline p \<le> sy_now (world_sync False True 30 31) drain_world" by code_simp
  from drained_after_deadline [OF world_proxy_env synced_drain this r]
  have "dom (world_dests (snd (snd ?r)) demo_key) = {}"
    by (simp add: drain_state_def drain_service_def want_def)
  moreover have "world_dests drain_world demo_key (AddrV4 0x0A000002, 8080) \<noteq> None" by code_simp
  ultimately show ?thesis using ok unfolding Let_def by blast
qed

end
