(* ===== verification/Kr_Kube.thy ===== *)
theory Kr_Kube
  imports Kr_NetpolModel Kr_Ipvs
begin

text \<open>
  The Kubernetes API objects the agent reads, with the fields it uses, as the crate \<^verbatim>\<open>k8s_openapi\<close> declares them
  (optional fields are options, integers are \<^verbatim>\<open>i32\<close>), and the small functions of
  \<^verbatim>\<open>crates/kube-router-rs/src/*_wire.rs\<close> and \<^verbatim>\<open>crates/kube-client/src/node.rs\<close> that several of the wire modules share.
\<close>

section \<open>Metadata, selectors, policies\<close>

record k8s_meta =
  km_name :: "string option"
  km_namespace :: "string option"
  km_labels :: "labels option"
  km_annotations :: "labels option"

record k8s_requirement =
  kr_key :: string
  kr_operator :: string
  kr_values :: "string list option"

record k8s_selector =
  ks_match_labels :: "labels option"
  ks_match_expressions :: "k8s_requirement list option"

record k8s_ip_block =
  kb_cidr :: string
  kb_except :: "string list option"

record k8s_peer =
  kp_ip_block :: "k8s_ip_block option"
  kp_namespace_selector :: "k8s_selector option"
  kp_pod_selector :: "k8s_selector option"

datatype int_or_string = IntValue i32 | StringValue string

record k8s_np_port =
  knp_protocol :: "string option"
  knp_port :: "int_or_string option"
  knp_end_port :: "i32 option"

record k8s_np_rule =
  knr_peers :: "k8s_peer list option"
  knr_ports :: "k8s_np_port list option"

record k8s_np_spec =
  kns_pod_selector :: "k8s_selector option"
  kns_policy_types :: "string list option"
  kns_ingress :: "k8s_np_rule list option"
  kns_egress :: "k8s_np_rule list option"

record k8s_network_policy =
  kn_meta :: k8s_meta
  kn_spec :: "k8s_np_spec option"

section \<open>Pods and namespaces\<close>

record k8s_container_port =
  kcp_name :: "string option"
  kcp_protocol :: "string option"
  kcp_port :: i32

record k8s_pod_spec =
  kps_node_name :: "string option"
  kps_host_network :: "bool option"
  kps_container_ports :: "k8s_container_port list option list"

record k8s_pod_status =
  kpt_pod_ips :: "string list option"
  kpt_pod_ip :: "string option"

record k8s_pod =
  kpod_meta :: k8s_meta
  kpod_spec :: "k8s_pod_spec option"
  kpod_status :: "k8s_pod_status option"

section \<open>Services and endpoint slices\<close>

record k8s_service_port =
  ksp_name :: "string option"
  ksp_protocol :: "string option"
  ksp_port :: i32
  ksp_node_port :: "i32 option"

record k8s_service_spec =
  kss_type :: "string option"
  kss_cluster_ip :: "string option"
  kss_cluster_ips :: "string list option"
  kss_external_ips :: "string list option"
  kss_ports :: "k8s_service_port list option"
  kss_session_affinity :: "string option"
  kss_affinity_timeout :: "i32 option"
  kss_internal_traffic_policy :: "string option"
  kss_external_traffic_policy :: "string option"
  kss_health_check_node_port :: "i32 option"
  kss_load_balancer_class :: "string option"
  kss_ip_families :: "string list option"
  kss_ip_family_policy :: "string option"

text \<open>The ingress entries of the load balancer status: the address field of each.\<close>

record k8s_service =
  ksv_meta :: k8s_meta
  ksv_spec :: "k8s_service_spec option"
  ksv_ingress :: "string option list option"

record k8s_endpoint =
  ke_addresses :: "string list"
  ke_ready :: "bool option"
  ke_node_name :: "string option"

record k8s_endpoint_port =
  kep_name :: "string option"
  kep_port :: "i32 option"

record k8s_slice =
  ksl_meta :: k8s_meta
  ksl_ports :: "k8s_endpoint_port list option"
  ksl_endpoints :: "k8s_endpoint list option"

section \<open>Nodes\<close>

record k8s_node =
  kno_meta :: k8s_meta
  kno_pod_cidr :: "string option"
  kno_pod_cidrs :: "string list option"
  kno_addresses :: "(string \<times> string) list option"

section \<open>Shared helpers\<close>

definition or_default :: "'a list option \<Rightarrow> 'a list" where
  "or_default x = (case x of Some v \<Rightarrow> v | None \<Rightarrow> [])"

lemma or_default_simps [simp]: "or_default None = []" "or_default (Some v) = v"
  by (simp_all add: or_default_def)

text \<open>\<^verbatim>\<open>u16::try_from\<close> and \<^verbatim>\<open>u32::try_from\<close> of an \<^verbatim>\<open>i32\<close>.\<close>

definition u16_try_from :: "i32 \<Rightarrow> u16 option" where
  "u16_try_from n = (if 0 \<le> sint n \<and> sint n < 65536 then Some (of_int (sint n)) else None)"

definition u32_try_from :: "i32 \<Rightarrow> u32 option" where
  "u32_try_from n = (if 0 \<le> sint n then Some (of_int (sint n)) else None)"

lemma uint_of_int_u16: "0 \<le> i \<Longrightarrow> i < 65536 \<Longrightarrow> uint (word_of_int i :: u16) = i"
  by (simp add: uint_word_of_int_eq take_bit_int_eq_self)

lemma u16_try_from_Some: "u16_try_from n = Some p \<Longrightarrow> uint p = sint n"
  unfolding u16_try_from_def using uint_of_int_u16 [of "sint n"] by (metis option.distinct(1) option.inject)

definition parse_ips :: "string list \<Rightarrow> ip_addr list" where
  "parse_ips v = List.map_filter parse_addr v"

definition ann_get :: "k8s_meta \<Rightarrow> string \<Rightarrow> string option" where
  "ann_get m key = map_of (or_default (km_annotations m)) key"

definition SERVICE_NAME_LABEL :: string where "SERVICE_NAME_LABEL = ''kubernetes.io/service-name''"
definition LOCAL_ANNOTATION :: string where "LOCAL_ANNOTATION = ''kube-router.io/service.local''"

text \<open>The cluster addresses as both service projections collect them: the list, or else the single field.\<close>

definition raw_cluster_ips :: "k8s_service_spec \<Rightarrow> string list" where
  "raw_cluster_ips spec =
     (let ok = (\<lambda>ip. ip \<noteq> ''None'' \<and> ip \<noteq> []);
          raw = filter ok (or_default (kss_cluster_ips spec))
      in if raw \<noteq> [] then raw
         else (case kss_cluster_ip spec of Some ip \<Rightarrow> if ok ip then [ip] else [] | None \<Rightarrow> []))"

definition status_lb_ips :: "k8s_service \<Rightarrow> ip_addr list" where
  "status_lb_ips svc =
     (case ksv_ingress svc of Some ing \<Rightarrow> parse_ips (List.map_filter id ing) | None \<Rightarrow> [])"

definition slice_of :: "k8s_slice \<Rightarrow> string \<Rightarrow> string \<Rightarrow> bool" where
  "slice_of es ns name =
     (km_namespace (ksl_meta es) = Some ns
      \<and> map_of (or_default (km_labels (ksl_meta es))) SERVICE_NAME_LABEL = Some name)"

definition endpoint_ready :: "k8s_endpoint \<Rightarrow> bool" where
  "endpoint_ready ep = (case ke_ready ep of Some b \<Rightarrow> b | None \<Rightarrow> True)"

end
