(* ===== verification/Kr_Config.thy ===== *)
theory Kr_Config
  imports Kr_Text "HOL-Library.AList"
begin

text \<open>
  The configuration of the agent, \<^verbatim>\<open>crates/config/src\<close>: the flags with their defaults (\<^verbatim>\<open>lib.rs\<close>; reading them from the
  command line belongs to the parser crate) and the checks across them (\<^verbatim>\<open>validate.rs\<close>). Durations are in
  nanoseconds. The parser of prefixes is the parameter \<open>parse_net\<close>; \<open>Error::Config\<close> carries its message.
\<close>

section \<open>Flags\<close>

record kube_router_config =
  kc_advertise_cluster_ip :: bool
  kc_advertise_external_ip :: bool
  kc_advertise_loadbalancer_ip :: bool
  kc_advertise_pod_cidr :: bool
  kc_auto_mtu :: bool
  kc_bgp_graceful_restart :: bool
  kc_bgp_graceful_restart_deferral_time :: nat
  kc_bgp_graceful_restart_time :: nat
  kc_bgp_holdtime :: nat
  kc_bgp_port :: u32
  kc_cache_sync_timeout :: nat
  kc_cleanup_config :: bool
  kc_cluster_asn :: u32
  kc_disable_source_dest_check :: bool
  kc_enable_cni :: bool
  kc_enable_ibgp :: bool
  kc_enable_ipv4 :: bool
  kc_enable_ipv6 :: bool
  kc_enable_overlay :: bool
  kc_enable_pod_egress :: bool
  kc_enable_pprof :: bool
  kc_excluded_cidrs :: "string list"
  kc_hairpin_mode :: bool
  kc_gobgp_admin_address :: string
  kc_gobgp_admin_port :: u16
  kc_health_addr :: string
  kc_health_port :: u16
  kc_hostname_override :: string
  kc_injected_routes_sync_period :: nat
  kc_iptables_sync_period :: nat
  kc_ipvs_graceful_period :: nat
  kc_ipvs_graceful_termination :: bool
  kc_ipvs_permit_all :: bool
  kc_ipvs_sync_period :: nat
  kc_kubeconfig :: string
  kc_loadbalancer_default_class :: bool
  kc_loadbalancer_ip_range :: "string list"
  kc_loadbalancer_sync_period :: nat
  kc_masquerade_all :: bool
  kc_master :: string
  kc_metrics_path :: string
  kc_metrics_port :: u16
  kc_metrics_addr :: string
  kc_netpol_default_deny :: bool
  kc_nodeport_bindon_all_ip :: bool
  kc_nodes_full_mesh :: bool
  kc_overlay_encap :: string
  kc_overlay_encap_port :: u16
  kc_overlay_type :: string
  kc_override_nexthop :: bool
  kc_peer_router_asns :: "u32 list"
  kc_peer_router_ips :: "ip_addr list"
  kc_peer_router_multihop_ttl :: u8
  kc_peer_router_passwords :: "string list"
  kc_peer_router_passwords_file :: string
  kc_peer_router_ports :: "u32 list"
  kc_router_id :: string
  kc_routes_sync_period :: nat
  kc_run_firewall :: bool
  kc_run_loadbalancer :: bool
  kc_run_router :: bool
  kc_run_service_proxy :: bool
  kc_runtime_endpoint :: string
  kc_service_cluster_ip_range :: "string list"
  kc_strict_external_ip_validation :: bool
  kc_service_external_ip_range :: "string list"
  kc_service_node_port_range :: string
  kc_service_tcp_timeout :: nat
  kc_service_tcpfin_timeout :: nat
  kc_service_udp_timeout :: nat
  kc_v_level :: string

text \<open>The values of the flags that are not given.\<close>

definition default_config :: kube_router_config where
  "default_config = \<lparr>
     kc_advertise_cluster_ip = False, kc_advertise_external_ip = False, kc_advertise_loadbalancer_ip = False,
     kc_advertise_pod_cidr = True, kc_auto_mtu = True, kc_bgp_graceful_restart = False,
     kc_bgp_graceful_restart_deferral_time = 360 * 10 ^ 9, kc_bgp_graceful_restart_time = 90 * 10 ^ 9,
     kc_bgp_holdtime = 90 * 10 ^ 9, kc_bgp_port = 179, kc_cache_sync_timeout = 60 * 10 ^ 9, kc_cleanup_config = False,
     kc_cluster_asn = 0, kc_disable_source_dest_check = True, kc_enable_cni = True, kc_enable_ibgp = True,
     kc_enable_ipv4 = True, kc_enable_ipv6 = False, kc_enable_overlay = True, kc_enable_pod_egress = True,
     kc_enable_pprof = False, kc_excluded_cidrs = [], kc_hairpin_mode = False, kc_gobgp_admin_address = ''127.0.0.1'',
     kc_gobgp_admin_port = 50051, kc_health_addr = [], kc_health_port = 20244, kc_hostname_override = [],
     kc_injected_routes_sync_period = 60 * 10 ^ 9, kc_iptables_sync_period = 300 * 10 ^ 9,
     kc_ipvs_graceful_period = 30 * 10 ^ 9, kc_ipvs_graceful_termination = False, kc_ipvs_permit_all = True,
     kc_ipvs_sync_period = 300 * 10 ^ 9, kc_kubeconfig = [], kc_loadbalancer_default_class = True,
     kc_loadbalancer_ip_range = [], kc_loadbalancer_sync_period = 60 * 10 ^ 9, kc_masquerade_all = False,
     kc_master = [], kc_metrics_path = ''/metrics'', kc_metrics_port = 0, kc_metrics_addr = [],
     kc_netpol_default_deny = False, kc_nodeport_bindon_all_ip = False, kc_nodes_full_mesh = True,
     kc_overlay_encap = ''ipip'', kc_overlay_encap_port = 5555, kc_overlay_type = ''subnet'',
     kc_override_nexthop = False, kc_peer_router_asns = [], kc_peer_router_ips = [], kc_peer_router_multihop_ttl = 0,
     kc_peer_router_passwords = [], kc_peer_router_passwords_file = [], kc_peer_router_ports = [], kc_router_id = [],
     kc_routes_sync_period = 300 * 10 ^ 9, kc_run_firewall = True, kc_run_loadbalancer = False, kc_run_router = True,
     kc_run_service_proxy = True, kc_runtime_endpoint = [], kc_service_cluster_ip_range = [''10.96.0.0/12''],
     kc_strict_external_ip_validation = True, kc_service_external_ip_range = [],
     kc_service_node_port_range = ''30000-32767'', kc_service_tcp_timeout = 0, kc_service_tcpfin_timeout = 0,
     kc_service_udp_timeout = 0, kc_v_level = ''0'' \<rparr>"

definition enabled_families_of :: "kube_router_config \<Rightarrow> enabled_families" where
  "enabled_families_of c = \<lparr> ef_v4 = kc_enable_ipv4 c, ef_v6 = kc_enable_ipv6 c \<rparr>"

section \<open>Validation\<close>

definition MAX_CLUSTER_IP_RANGES :: nat where "MAX_CLUSTER_IP_RANGES = 2"

text \<open>The checks in order, each with its message when it is violated.\<close>

definition cidr_flags :: "kube_router_config \<Rightarrow> (string \<times> string list) list" where
  "cidr_flags c = [(''--service-cluster-ip-range'', kc_service_cluster_ip_range c),
     (''--service-external-ip-range'', kc_service_external_ip_range c),
     (''--loadbalancer-ip-range'', kc_loadbalancer_ip_range c), (''--excluded-cidrs'', kc_excluded_cidrs c)]"

definition period_flags :: "kube_router_config \<Rightarrow> (string \<times> nat) list" where
  "period_flags c = [(''--cache-sync-timeout'', kc_cache_sync_timeout c), (''--routes-sync-period'', kc_routes_sync_period c),
     (''--iptables-sync-period'', kc_iptables_sync_period c), (''--ipvs-sync-period'', kc_ipvs_sync_period c),
     (''--ipvs-graceful-period'', kc_ipvs_graceful_period c),
     (''--injected-routes-sync-period'', kc_injected_routes_sync_period c),
     (''--loadbalancer-sync-period'', kc_loadbalancer_sync_period c)]"

fun first_some :: "'a option list \<Rightarrow> 'a option" where
  "first_some [] = None"
| "first_some (Some x # xs) = Some x"
| "first_some (None # xs) = first_some xs"

definition quoted :: "string \<Rightarrow> string" where
  "quoted s = [CHR 0x22] @ s @ [CHR 0x22]"

definition cidr_violation :: "(string \<Rightarrow> 'n option) \<Rightarrow> string \<times> string list \<Rightarrow> string option" where
  "cidr_violation parse_net = (\<lambda>(flag, cs).
     map_option (\<lambda>s. flag @ '': invalid IP/CIDR '' @ quoted s @ '': invalid IP address syntax'') (find (\<lambda>s. parse_net (trim s) = None) cs))"

definition violations :: "(string \<Rightarrow> 'n option) \<Rightarrow> kube_router_config \<Rightarrow> string option list" where
  "violations parse_net c =
     [if \<not> any_family (enabled_families_of c) then Some ''at least one of --enable-ipv4 or --enable-ipv6 must be true'' else None]
     @ map (cidr_violation parse_net) (cidr_flags c)
     @ [if MAX_CLUSTER_IP_RANGES < length (kc_service_cluster_ip_range c)
        then Some ''--service-cluster-ip-range accepts at most 2 entries'' else None,
        if kc_run_router c \<and> is_v6_only (enabled_families_of c) \<and> kc_router_id c = []
        then Some (''--router-id is required (or '' @ quoted ''generate'' @ '') for an IPv6-only cluster'') else None,
        if kc_overlay_encap c \<notin> {''ipip'', ''fou''} 
        then Some (''--overlay-encap must be '' @ quoted ''ipip'' @ '' or '' @ quoted ''fou'' @ '', got '' @ quoted (kc_overlay_encap c)) else None,
        if kc_overlay_type c \<notin> {''subnet'', ''full''} 
        then Some (''--overlay-type must be '' @ quoted ''subnet'' @ '' or '' @ quoted ''full'' @ '', got '' @ quoted (kc_overlay_type c)) else None]
     @ map (\<lambda>(flag, d). if d = 0 then Some (flag @ '' must be greater than 0'') else None) (period_flags c)
     @ [if kc_peer_router_ips c \<noteq> [] \<and> kc_peer_router_asns c \<noteq> []
           \<and> length (kc_peer_router_ips c) \<noteq> length (kc_peer_router_asns c)
        then Some ''--peer-router-ips and --peer-router-asns must have equal length'' else None]"

definition validate :: "(string \<Rightarrow> 'n option) \<Rightarrow> kube_router_config \<Rightarrow> string + unit" where
  "validate parse_net c = (case first_some (violations parse_net c) of Some e \<Rightarrow> Inl e | None \<Rightarrow> Inr ())"

lemma first_some_None: "first_some xs = None \<longleftrightarrow> (\<forall>x\<in>set xs. x = None)"
  by (induction xs rule: first_some.induct) auto

lemma first_some_Some: "first_some xs = Some e \<Longrightarrow> \<exists>i<length xs. xs ! i = Some e \<and> (\<forall>j<i. xs ! j = None)"
proof (induction xs rule: first_some.induct)
  case (3 xs)
  then obtain i where "i < length xs" "xs ! i = Some e" "\<forall>j<i. xs ! j = None" by auto
  then show ?case by (intro exI [of _ "Suc i"]) (auto simp: less_Suc_eq_0_disj)
qed auto

text \<open>What a configuration that passes promises to the controllers.\<close>

lemma validate_ok:
  "validate parse_net c = Inr () \<longleftrightarrow> any_family (enabled_families_of c)
     \<and> (\<forall>(flag, cs)\<in>set (cidr_flags c). \<forall>s\<in>set cs. parse_net (trim s) \<noteq> None)
     \<and> length (kc_service_cluster_ip_range c) \<le> 2
     \<and> (kc_run_router c \<and> is_v6_only (enabled_families_of c) \<longrightarrow> kc_router_id c \<noteq> [])
     \<and> kc_overlay_encap c \<in> {''ipip'', ''fou''} \<and> kc_overlay_type c \<in> {''subnet'', ''full''}
     \<and> (\<forall>(flag, d)\<in>set (period_flags c). 0 < d)
     \<and> (kc_peer_router_ips c = [] \<or> kc_peer_router_asns c = [] \<or> length (kc_peer_router_ips c) = length (kc_peer_router_asns c))"
proof -
  have f: "find P xs = None \<longleftrightarrow> (\<forall>x\<in>set xs. \<not> P x)" for P and xs :: "string list"
    by (induction xs) auto
  have p: "(\<forall>x\<in>set (map (\<lambda>(flag, d). if d = 0 then Some (flag @ '' must be greater than 0'') else None) ps). x = None)
      \<longleftrightarrow> (\<forall>(flag, d)\<in>set ps. 0 < d)" for ps :: "(string \<times> nat) list"
    by (induction ps) (auto split: if_splits)
  have "validate parse_net c = Inr () \<longleftrightarrow> (\<forall>x\<in>set (violations parse_net c). x = None)"
    by (auto simp: validate_def first_some_None [symmetric] split: option.splits)
  also have "\<dots> \<longleftrightarrow> any_family (enabled_families_of c)
     \<and> (\<forall>p\<in>set (cidr_flags c). cidr_violation parse_net p = None)
     \<and> length (kc_service_cluster_ip_range c) \<le> 2
     \<and> (kc_run_router c \<and> is_v6_only (enabled_families_of c) \<longrightarrow> kc_router_id c \<noteq> [])
     \<and> kc_overlay_encap c \<in> {''ipip'', ''fou''} \<and> kc_overlay_type c \<in> {''subnet'', ''full''}
     \<and> (\<forall>(flag, d)\<in>set (period_flags c). 0 < d)
     \<and> (kc_peer_router_ips c = [] \<or> kc_peer_router_asns c = [] \<or> length (kc_peer_router_ips c) = length (kc_peer_router_asns c))"
    unfolding violations_def MAX_CLUSTER_IP_RANGES_def set_append ball_Un p
    by (simp add: not_less)
  finally show ?thesis
    by (simp add: cidr_violation_def split_beta f)
qed

definition demo_config :: kube_router_config where
  "demo_config = default_config \<lparr> kc_cluster_asn := 64512 \<rparr>"

end
