(* ===== verification/Kr_NetpolWire.thy ===== *)
theory Kr_NetpolWire
  imports Kr_Kube Kr_NetpolSpec
begin

text \<open>
  The projection of NetworkPolicy, Pod and Namespace objects to the inputs of the policy controller,
  \<^verbatim>\<open>crates/kube-router-rs/src/netpol_wire.rs\<close>, and what it keeps of the meaning of the API: the selector
  semantics, the defaulting of policy types, the peers and the ports. The parser of prefixes is the parameter
  \<open>parse_net\<close>.
\<close>

section \<open>The projection\<close>

definition selector_op_of :: "string \<Rightarrow> selector_op option" where
  "selector_op_of s =
     (if s = ''In'' then Some OpIn else if s = ''NotIn'' then Some OpNotIn
      else if s = ''Exists'' then Some OpExists else if s = ''DoesNotExist'' then Some OpDoesNotExist else None)"

definition wire_match_labels :: "k8s_selector \<Rightarrow> label_selector" where
  "wire_match_labels sel =
     \<lparr> match_labels = or_default (ks_match_labels sel),
       match_expressions = map (\<lambda>r. \<lparr> req_key = kr_key r, req_operator = selector_op_of (kr_operator r),
                                      req_values = or_default (kr_values r) \<rparr>)
         (or_default (ks_match_expressions sel)) \<rparr>"

definition map_peer :: "(string \<Rightarrow> 'n option) \<Rightarrow> k8s_peer \<Rightarrow> 'n peer option" where
  "map_peer parse_net p =
     (case kp_ip_block p of
        Some block \<Rightarrow>
          (case parse_net (kb_cidr block) of
             None \<Rightarrow> None
           | Some cidr \<Rightarrow> Some (IpBlock cidr (List.map_filter parse_net (or_default (kb_except block)))))
      | None \<Rightarrow> Some (Selector (map_option wire_match_labels (kp_namespace_selector p))
                              (map_option wire_match_labels (kp_pod_selector p))))"

definition port_ref_of :: "int_or_string option \<Rightarrow> port_ref" where
  "port_ref_of p = (case p of
     None \<Rightarrow> AllPorts
   | Some (IntValue n) \<Rightarrow> (case u16_try_from n of Some v \<Rightarrow> PortNumber v | None \<Rightarrow> AllPorts)
   | Some (StringValue name) \<Rightarrow> PortName name)"

definition proto_lower :: "string option \<Rightarrow> string" where
  "proto_lower p = map to_lower (case p of Some s \<Rightarrow> s | None \<Rightarrow> ''TCP'')"

definition map_ports :: "k8s_np_port list option \<Rightarrow> port_spec list" where
  "map_ports ports = (case ports of
     None \<Rightarrow> []
   | Some ps \<Rightarrow> map (\<lambda>p. \<lparr> ps_protocol = proto_lower (knp_protocol p), ps_port = port_ref_of (knp_port p) \<rparr>) ps)"

definition map_rule :: "(string \<Rightarrow> 'n option) \<Rightarrow> k8s_np_rule \<Rightarrow> 'n rule" where
  "map_rule parse_net r =
     \<lparr> rule_peers = List.map_filter (map_peer parse_net) (or_default (knr_peers r)), rule_ports = map_ports (knr_ports r) \<rparr>"

definition map_policy :: "(string \<Rightarrow> 'n option) \<Rightarrow> k8s_network_policy \<Rightarrow> 'n network_policy option" where
  "map_policy parse_net np =
     Option.bind (km_namespace (kn_meta np)) (\<lambda>ns. Option.bind (km_name (kn_meta np)) (\<lambda>name.
     Option.bind (kn_spec np) (\<lambda>spec.
       let types = or_default (kns_policy_types spec);
           has_egress_rules = (case kns_egress spec of Some e \<Rightarrow> e \<noteq> [] | None \<Rightarrow> False)
       in Some \<lparr> pol_namespace = ns, pol_name = name,
            pol_pod_selector = (case kns_pod_selector spec of Some s \<Rightarrow> wire_match_labels s | None \<Rightarrow> from_labels []),
            pol_types = \<lparr> pt_ingress = (''Ingress'' \<in> set types \<or> types = []),
                          pt_egress = (''Egress'' \<in> set types \<or> types = [] \<and> has_egress_rules) \<rparr>,
            pol_ingress = map (map_rule parse_net) (or_default (kns_ingress spec)),
            pol_egress = map (map_rule parse_net) (or_default (kns_egress spec)) \<rparr>)))"

definition wire_pod_ips :: "k8s_pod_status option \<Rightarrow> ip_addr list" where
  "wire_pod_ips status =
     (case Option.bind status kpt_pod_ips of
        Some v \<Rightarrow> List.map_filter parse_addr v
      | None \<Rightarrow> (case Option.bind (Option.bind status kpt_pod_ip) parse_addr of Some ip \<Rightarrow> [ip] | None \<Rightarrow> []))"

definition map_container_port :: "k8s_container_port \<Rightarrow> container_port option" where
  "map_container_port p = map_option (\<lambda>n. \<lparr> cp_name = kcp_name p, cp_protocol = proto_lower (kcp_protocol p), cp_port = n \<rparr>)
     (u16_try_from (kcp_port p))"

definition map_pod :: "k8s_pod \<Rightarrow> pod option" where
  "map_pod pd =
     Option.bind (km_namespace (kpod_meta pd)) (\<lambda>ns. Option.bind (km_name (kpod_meta pd)) (\<lambda>name.
       Some \<lparr> pod_namespace = ns, pod_name = name, pod_labels = or_default (km_labels (kpod_meta pd)),
         pod_ips = wire_pod_ips (kpod_status pd),
         pod_node_name = or_default (Option.bind (kpod_spec pd) kps_node_name),
         pod_host_network = (case Option.bind (kpod_spec pd) kps_host_network of Some b \<Rightarrow> b | None \<Rightarrow> False),
         pod_container_ports = (case kpod_spec pd of
            Some s \<Rightarrow> List.map_filter map_container_port (concat (map or_default (kps_container_ports s)))
          | None \<Rightarrow> []) \<rparr>))"

definition map_namespace :: "k8s_meta \<Rightarrow> namespace option" where
  "map_namespace m = map_option (\<lambda>n. \<lparr> ns_name = n, ns_labels = or_default (km_labels m) \<rparr>) (km_name m)"

definition netpol_snapshot ::
  "(string \<Rightarrow> 'n option) \<Rightarrow> k8s_network_policy list \<Rightarrow> k8s_pod list \<Rightarrow> k8s_meta list \<Rightarrow> 'n policy_world" where
  "netpol_snapshot parse_net policies pods namespaces =
     \<lparr> pw_policies = List.map_filter (map_policy parse_net) policies, pw_pods = List.map_filter map_pod pods,
       pw_namespaces = List.map_filter map_namespace namespaces \<rparr>"

section \<open>The meaning of the API objects\<close>

text \<open>
  What the Kubernetes API documents, on the objects themselves: label selectors, policy types, and which address,
  protocol and port a rule covers. A selector peer covers the pods that are not on the host network.
\<close>

definition api_requirement :: "k8s_requirement \<Rightarrow> labels \<Rightarrow> bool" where
  "api_requirement r ls \<longleftrightarrow>
     kr_operator r = ''In'' \<and> (\<exists>v\<in>set (or_default (kr_values r)). map_of ls (kr_key r) = Some v)
     \<or> kr_operator r = ''NotIn'' \<and> \<not> (\<exists>v\<in>set (or_default (kr_values r)). map_of ls (kr_key r) = Some v)
     \<or> kr_operator r = ''Exists'' \<and> (\<exists>v. map_of ls (kr_key r) = Some v)
     \<or> kr_operator r = ''DoesNotExist'' \<and> map_of ls (kr_key r) = None"

definition api_selects :: "k8s_selector \<Rightarrow> labels \<Rightarrow> bool" where
  "api_selects sel ls \<longleftrightarrow>
     (\<forall>(k, v)\<in>set (or_default (ks_match_labels sel)). map_of ls k = Some v)
     \<and> (\<forall>r\<in>set (or_default (ks_match_expressions sel)). api_requirement r ls)"

definition api_dir_on :: "direction \<Rightarrow> k8s_np_spec \<Rightarrow> bool" where
  "api_dir_on dir spec \<longleftrightarrow> (let types = or_default (kns_policy_types spec) in case dir of
     Ingress \<Rightarrow> types = [] \<or> ''Ingress'' \<in> set types
   | Egress \<Rightarrow> ''Egress'' \<in> set types \<or> types = [] \<and> or_default (kns_egress spec) \<noteq> [])"

definition api_rules :: "direction \<Rightarrow> k8s_np_spec \<Rightarrow> k8s_np_rule list" where
  "api_rules dir spec = or_default (case dir of Ingress \<Rightarrow> kns_ingress spec | Egress \<Rightarrow> kns_egress spec)"

definition api_block_covers :: "'n ipnet_api \<Rightarrow> (string \<Rightarrow> 'n option) \<Rightarrow> k8s_ip_block \<Rightarrow> ip_addr \<Rightarrow> bool" where
  "api_block_covers api parse_net b a \<longleftrightarrow>
     (\<exists>n. parse_net (kb_cidr b) = Some n \<and> net_contains api n a)
     \<and> \<not> (\<exists>t\<in>set (or_default (kb_except b)). \<exists>m. parse_net t = Some m \<and> net_contains api m a)"

definition api_namespace_fits :: "k8s_selector option \<Rightarrow> k8s_meta list \<Rightarrow> string \<Rightarrow> string \<Rightarrow> bool" where
  "api_namespace_fits sel nss policy_ns ns \<longleftrightarrow> (case sel of
     None \<Rightarrow> ns = policy_ns
   | Some s \<Rightarrow> (\<exists>m\<in>set nss. km_name m = Some ns \<and> api_selects s (or_default (km_labels m))))"

definition api_pod_at :: "k8s_pod \<Rightarrow> ip_addr \<Rightarrow> bool" where
  "api_pod_at pd a \<longleftrightarrow> a \<in> set (wire_pod_ips (kpod_status pd))
     \<and> km_name (kpod_meta pd) \<noteq> None \<and> Option.bind (kpod_spec pd) kps_host_network \<noteq> Some True"

definition api_peer_covers ::
  "'n ipnet_api \<Rightarrow> (string \<Rightarrow> 'n option) \<Rightarrow> k8s_pod list \<Rightarrow> k8s_meta list \<Rightarrow> string \<Rightarrow> k8s_peer \<Rightarrow> ip_addr \<Rightarrow> bool" where
  "api_peer_covers api parse_net pods nss policy_ns p a \<longleftrightarrow> (case kp_ip_block p of
     Some b \<Rightarrow> api_block_covers api parse_net b a
   | None \<Rightarrow> (\<exists>pd\<in>set pods. \<exists>ns. api_pod_at pd a \<and> km_namespace (kpod_meta pd) = Some ns
       \<and> api_namespace_fits (kp_namespace_selector p) nss policy_ns ns
       \<and> (\<forall>s. kp_pod_selector p = Some s \<longrightarrow> api_selects s (or_default (km_labels (kpod_meta pd))))))"

text \<open>A port entry covers a protocol and a destination port, or any port whose name the destination gives it.\<close>

definition api_port_covers :: "(string \<Rightarrow> u16 set) \<Rightarrow> k8s_np_port \<Rightarrow> string \<Rightarrow> u16 \<Rightarrow> bool" where
  "api_port_covers named p proto port \<longleftrightarrow>
     proto = proto_lower (knp_protocol p)
     \<and> (case knp_port p of
          None \<Rightarrow> True
        | Some (StringValue name) \<Rightarrow> port \<in> named name
        | Some (IntValue n) \<Rightarrow>
            (case knp_end_port p of
               None \<Rightarrow> uint port = sint n
             | Some m \<Rightarrow> sint n \<le> uint port \<and> uint port \<le> sint m))"

definition api_rule_covers ::
  "'n ipnet_api \<Rightarrow> (string \<Rightarrow> 'n option) \<Rightarrow> (string \<Rightarrow> u16 set) \<Rightarrow> k8s_pod list \<Rightarrow> k8s_meta list \<Rightarrow> string \<Rightarrow> k8s_np_rule
     \<Rightarrow> ip_addr \<Rightarrow> string \<Rightarrow> u16 \<Rightarrow> bool" where
  "api_rule_covers api parse_net named pods nss policy_ns r a proto port \<longleftrightarrow>
     (or_default (knr_peers r) = [] \<or> (\<exists>p\<in>set (or_default (knr_peers r)). api_peer_covers api parse_net pods nss policy_ns p a))
     \<and> (or_default (knr_ports r) = [] \<or> (\<exists>p\<in>set (or_default (knr_ports r)). api_port_covers named p proto port))"

text \<open>The same on the projected objects.\<close>

fun peer_covers :: "'n ipnet_api \<Rightarrow> pod list \<Rightarrow> namespace list \<Rightarrow> string \<Rightarrow> 'n peer \<Rightarrow> ip_addr \<Rightarrow> bool" where
  "peer_covers api pods nss policy_ns (IpBlock cidr except) a =
     (net_contains api cidr a \<and> \<not> list_ex (\<lambda>m. net_contains api m a) except)"
| "peer_covers api pods nss policy_ns (Selector ns_sel pod_sel) a =
     list_ex (\<lambda>p. a \<in> set (pod_ips p)) (peer_pods ns_sel pod_sel pods nss policy_ns)"

definition port_covers :: "(string \<Rightarrow> u16 set) \<Rightarrow> port_spec \<Rightarrow> string \<Rightarrow> u16 \<Rightarrow> bool" where
  "port_covers named ps proto port \<longleftrightarrow> proto = ps_protocol ps
     \<and> (case ps_port ps of AllPorts \<Rightarrow> True | PortNumber n \<Rightarrow> port = n | PortName name \<Rightarrow> port \<in> named name)"

definition rule_covers ::
  "'n ipnet_api \<Rightarrow> (string \<Rightarrow> u16 set) \<Rightarrow> pod list \<Rightarrow> namespace list \<Rightarrow> string \<Rightarrow> 'n rule \<Rightarrow> ip_addr \<Rightarrow> string \<Rightarrow> u16 \<Rightarrow> bool" where
  "rule_covers api named pods nss policy_ns r a proto port \<longleftrightarrow>
     (rule_peers r = [] \<or> (\<exists>p\<in>set (rule_peers r). peer_covers api pods nss policy_ns p a))
     \<and> (rule_ports r = [] \<or> (\<exists>ps\<in>set (rule_ports r). port_covers named ps proto port))"

text \<open>What the projection needs of a rule: blocks that parse, numbers that are ports, and no port ranges.\<close>

definition peer_readable :: "(string \<Rightarrow> 'n option) \<Rightarrow> k8s_peer \<Rightarrow> bool" where
  "peer_readable parse_net p = (case kp_ip_block p of Some b \<Rightarrow> parse_net (kb_cidr b) \<noteq> None | None \<Rightarrow> True)"

definition port_readable :: "k8s_np_port \<Rightarrow> bool" where
  "port_readable p = (knp_end_port p = None
     \<and> (case knp_port p of Some (IntValue n) \<Rightarrow> u16_try_from n \<noteq> None | _ \<Rightarrow> True))"

definition rule_readable :: "(string \<Rightarrow> 'n option) \<Rightarrow> k8s_np_rule \<Rightarrow> bool" where
  "rule_readable parse_net r =
     (list_all (peer_readable parse_net) (or_default (knr_peers r)) \<and> list_all port_readable (or_default (knr_ports r)))"


section \<open>The projection keeps the meaning\<close>

lemma wire_requirement:
  "requirement_holds \<lparr> req_key = kr_key r, req_operator = selector_op_of (kr_operator r), req_values = or_default (kr_values r) \<rparr> ls
     \<longleftrightarrow> api_requirement r ls"
  by (auto simp: requirement_holds_def api_requirement_def selector_op_of_def Let_def split: option.splits)

lemma wire_selector: "selector_matches (wire_match_labels sel) ls \<longleftrightarrow> api_selects sel ls"
  by (auto simp: selector_matches_def wire_match_labels_def api_selects_def list_all_iff wire_requirement)

lemma wire_namespaces:
  "ns \<in> set (matched_namespaces (map_option wire_match_labels sel) (List.map_filter map_namespace nss) policy_ns)
     \<longleftrightarrow> api_namespace_fits sel nss policy_ns ns"
proof (cases sel)
  case (Some s)
  have "(\<exists>n. n \<in> set (List.map_filter map_namespace nss) \<and> selector_matches (wire_match_labels s) (ns_labels n) \<and> ns_name n = ns)
      \<longleftrightarrow> (\<exists>m\<in>set nss. km_name m = Some ns \<and> api_selects s (or_default (km_labels m)))"
    by (auto simp: set_map_filter map_namespace_def wire_selector) force
  then show ?thesis by (auto simp: Some matched_namespaces_def api_namespace_fits_def)
qed (simp add: matched_namespaces_def api_namespace_fits_def)

lemma map_pod_ex:
  "(\<exists>q. map_pod pd = Some q \<and> P (pod_namespace q) (pod_host_network q) (pod_labels q) (pod_ips q))
     \<longleftrightarrow> (\<exists>ns. km_namespace (kpod_meta pd) = Some ns \<and> km_name (kpod_meta pd) \<noteq> None
          \<and> P ns (case Option.bind (kpod_spec pd) kps_host_network of Some b \<Rightarrow> b | None \<Rightarrow> False)
              (or_default (km_labels (kpod_meta pd))) (wire_pod_ips (kpod_status pd)))"
  by (cases "km_namespace (kpod_meta pd)"; cases "km_name (kpod_meta pd)") (simp_all add: map_pod_def)

lemma host_network_simp:
  "\<not> (case x of Some b \<Rightarrow> b | None \<Rightarrow> False) \<longleftrightarrow> x \<noteq> Some True"
  by (cases x) auto

lemma wire_peer:
  assumes "peer_readable parse_net p"
  obtains q where "map_peer parse_net p = Some q"
    "peer_covers api (List.map_filter map_pod pods) (List.map_filter map_namespace nss) policy_ns q a
      \<longleftrightarrow> api_peer_covers api parse_net pods nss policy_ns p a"
proof (cases "kp_ip_block p")
  case None
  let ?n = "map_option wire_match_labels (kp_namespace_selector p)"
  let ?s = "map_option wire_match_labels (kp_pod_selector p)"
  have s: "(case ?s of None \<Rightarrow> True | Some s \<Rightarrow> selector_matches s ls)
      \<longleftrightarrow> (\<forall>s. kp_pod_selector p = Some s \<longrightarrow> api_selects s ls)" for ls
    by (cases "kp_pod_selector p") (simp_all add: wire_selector)
  have "peer_covers api (List.map_filter map_pod pods) (List.map_filter map_namespace nss) policy_ns (Selector ?n ?s) a
      \<longleftrightarrow> (\<exists>pd\<in>set pods. \<exists>q. map_pod pd = Some q \<and> pod_namespace q \<in> set (matched_namespaces ?n (List.map_filter map_namespace nss) policy_ns)
            \<and> \<not> pod_host_network q \<and> (case ?s of None \<Rightarrow> True | Some s \<Rightarrow> selector_matches s (pod_labels q)) \<and> a \<in> set (pod_ips q))"
    by (auto simp: peer_pods_def Let_def list_ex_iff set_map_filter)
  also have "\<dots> \<longleftrightarrow> api_peer_covers api parse_net pods nss policy_ns p a"
    unfolding wire_namespaces s
    unfolding api_peer_covers_def None api_pod_at_def map_pod_ex
      [where P = "\<lambda>ns h ls ips. api_namespace_fits (kp_namespace_selector p) nss policy_ns ns \<and> \<not> h
        \<and> (\<forall>s. kp_pod_selector p = Some s \<longrightarrow> api_selects s ls) \<and> a \<in> set ips"]
    by (simp add: host_network_simp) blast
  finally have e: "peer_covers api (List.map_filter map_pod pods) (List.map_filter map_namespace nss) policy_ns (Selector ?n ?s) a
      \<longleftrightarrow> api_peer_covers api parse_net pods nss policy_ns p a" .
  show ?thesis by (rule that [OF _ e]) (simp add: map_peer_def None)
next
  case (Some b)
  with assms obtain n where n: "parse_net (kb_cidr b) = Some n" by (auto simp: peer_readable_def)
  show ?thesis
  proof (rule that)
    show "map_peer parse_net p = Some (IpBlock n (List.map_filter parse_net (or_default (kb_except b))))"
      using Some n by (simp add: map_peer_def)
    show "peer_covers api (List.map_filter map_pod pods) (List.map_filter map_namespace nss) policy_ns
        (IpBlock n (List.map_filter parse_net (or_default (kb_except b)))) a
      \<longleftrightarrow> api_peer_covers api parse_net pods nss policy_ns p a"
      using Some n by (auto simp: api_peer_covers_def api_block_covers_def list_ex_iff set_map_filter)
  qed
qed

lemma wire_port:
  assumes "port_readable p"
  shows "port_covers named \<lparr> ps_protocol = proto_lower (knp_protocol p), ps_port = port_ref_of (knp_port p) \<rparr> proto port
    \<longleftrightarrow> api_port_covers named p proto port"
proof (cases "knp_port p")
  case None
  then show ?thesis by (simp add: port_covers_def api_port_covers_def port_ref_of_def)
next
  case (Some v)
  show ?thesis
  proof (cases v)
    case (IntValue n)
    then obtain w where "u16_try_from n = Some w" using assms Some by (auto simp: port_readable_def)
    moreover from u16_try_from_Some [OF this] have "port = w \<longleftrightarrow> uint port = sint n"
      by (auto simp: word_uint_eq_iff)
    ultimately show ?thesis
      using assms Some IntValue by (simp add: port_covers_def api_port_covers_def port_ref_of_def port_readable_def)
  qed (simp add: Some port_covers_def api_port_covers_def port_ref_of_def)
qed

lemma map_filter_ex:
  assumes "\<And>p. p \<in> set xs \<Longrightarrow> \<exists>q. f p = Some q \<and> (Q q \<longleftrightarrow> R p)"
  shows "List.map_filter f xs = [] \<longleftrightarrow> xs = []" "(\<exists>q\<in>set (List.map_filter f xs). Q q) \<longleftrightarrow> (\<exists>p\<in>set xs. R p)"
proof -
  show "List.map_filter f xs = [] \<longleftrightarrow> xs = []"
    using assms [of "hd xs"] by (cases xs) (auto simp: List.map_filter_def)
  show "(\<exists>q\<in>set (List.map_filter f xs). Q q) \<longleftrightarrow> (\<exists>p\<in>set xs. R p)"
    unfolding set_map_filter using assms by fastforce
qed

lemma wire_rule:
  assumes "rule_readable parse_net r"
  shows "rule_covers api named (List.map_filter map_pod pods) (List.map_filter map_namespace nss) policy_ns
      (map_rule parse_net r) a proto port
    \<longleftrightarrow> api_rule_covers api parse_net named pods nss policy_ns r a proto port"
proof -
  have "\<exists>q. map_peer parse_net p = Some q \<and>
      (peer_covers api (List.map_filter map_pod pods) (List.map_filter map_namespace nss) policy_ns q a
        \<longleftrightarrow> api_peer_covers api parse_net pods nss policy_ns p a)"
    if "p \<in> set (or_default (knr_peers r))" for p
  proof -
    have "peer_readable parse_net p" using that assms by (simp add: rule_readable_def list_all_iff)
    then show ?thesis by (rule wire_peer) blast
  qed
  note peers = map_filter_ex [OF this]
  have ports: "(\<exists>ps\<in>set (map_ports (knr_ports r)). port_covers named ps proto port)
    \<longleftrightarrow> (\<exists>p\<in>set (or_default (knr_ports r)). api_port_covers named p proto port)"
    using assms by (cases "knr_ports r") (auto simp: map_ports_def rule_readable_def list_all_iff wire_port)
  have "map_ports (knr_ports r) = [] \<longleftrightarrow> or_default (knr_ports r) = []"
    by (cases "knr_ports r") (simp_all add: map_ports_def)
  then show ?thesis
    by (simp add: rule_covers_def api_rule_covers_def map_rule_def peers ports)
qed


text \<open>C33: The projection keeps what a policy means. For a policy whose blocks parse, whose port numbers are ports and which has no port
  ranges, the projected policy selects the same pods, applies to the same directions (with the defaults of the API for
  missing policy types), and its rules cover the same addresses, protocols and ports, given the projected pods and
  namespaces.\<close>

theorem policy_projection_keeps_meaning:
  assumes "map_policy parse_net np = Some pol" and "kn_spec np = Some spec"
    and "list_all (rule_readable parse_net) (or_default (kns_ingress spec) @ or_default (kns_egress spec))"
    and "world = netpol_snapshot parse_net policies pods nss"
  shows "(selector_matches (pol_pod_selector pol) ls \<longleftrightarrow> (case kns_pod_selector spec of Some s \<Rightarrow> api_selects s ls | None \<Rightarrow> True))
    \<and> (dir_on dir pol \<longleftrightarrow> api_dir_on dir spec)
    \<and> ((\<exists>r\<in>set (dir_rules dir pol). rule_covers api named (pw_pods world) (pw_namespaces world) (pol_namespace pol) r a proto port)
         \<longleftrightarrow> (\<exists>r\<in>set (api_rules dir spec). api_rule_covers api parse_net named pods nss (pol_namespace pol) r a proto port))"
proof (intro conjI)
  show "selector_matches (pol_pod_selector pol) ls \<longleftrightarrow> (case kns_pod_selector spec of Some s \<Rightarrow> api_selects s ls | None \<Rightarrow> True)"
  proof -
    have "pol_pod_selector pol = (case kns_pod_selector spec of Some s \<Rightarrow> wire_match_labels s | None \<Rightarrow> from_labels [])"
      using assms(1,2) by (auto simp: map_policy_def bind_eq_Some_conv Let_def)
    then show ?thesis
      by (cases "kns_pod_selector spec") (simp_all add: wire_selector, simp add: selector_matches_def from_labels_def)
  qed
  show "dir_on dir pol \<longleftrightarrow> api_dir_on dir spec"
    using assms(1,2) by (cases dir) (auto simp: map_policy_def bind_eq_Some_conv Let_def api_dir_on_def split: option.splits)
  have rules: "dir_rules dir pol = map (map_rule parse_net) (api_rules dir spec)"
    using assms(1,2) by (cases dir) (auto simp: map_policy_def bind_eq_Some_conv Let_def api_rules_def)
  have "rule_readable parse_net r" if "r \<in> set (api_rules dir spec)" for r
    using that assms(3) by (cases dir) (auto simp: api_rules_def list_all_iff)
  then show "(\<exists>r\<in>set (dir_rules dir pol). rule_covers api named (pw_pods world) (pw_namespaces world) (pol_namespace pol) r a proto port)
      \<longleftrightarrow> (\<exists>r\<in>set (api_rules dir spec). api_rule_covers api parse_net named pods nss (pol_namespace pol) r a proto port)"
    by (simp add: rules assms(4) netpol_snapshot_def wire_rule cong: bex_cong)
qed

text \<open>A rule the projection cannot read fails open. When the blocks of a rule that has nothing else do not parse, the projected rule
  has no peers, which resolves to every peer: the rule admits every address. When a port number is not a port, the
  projected entry stands for all ports.\<close>

theorem unreadable_rule_fails_open:
  assumes "list_all (\<lambda>p. \<exists>b. kp_ip_block p = Some b \<and> parse_net (kb_cidr b) = None) (or_default (knr_peers r))"
    and "u16_try_from n = None"
  shows "peers_admit nf (resolve_peers api (rule_peers (map_rule parse_net r)) pods nss policy_ns family) a
    \<and> port_covers named \<lparr> ps_protocol = proto, ps_port = port_ref_of (Some (IntValue n)) \<rparr> proto port"
proof
  have "List.map_filter (map_peer parse_net) (or_default (knr_peers r)) = []"
    using assms(1) by (auto simp: List.map_filter_def filter_empty_conv list_all_iff map_peer_def)
  then show "peers_admit nf (resolve_peers api (rule_peers (map_rule parse_net r)) pods nss policy_ns family) a"
    by (simp add: map_rule_def resolve_peers_def peers_admit_def)
  show "port_covers named \<lparr> ps_protocol = proto, ps_port = port_ref_of (Some (IntValue n)) \<rparr> proto port"
    using assms(2) by (simp add: port_covers_def port_ref_of_def)
qed

text \<open>A port range is read as its first port alone: the API covers 8001, the projection does not.\<close>

lemma proto_lower_tcp: "proto_lower None = ''tcp''"
  by code_simp

theorem port_range_is_lost:
  "let p = \<lparr> knp_protocol = None, knp_port = Some (IntValue 8000), knp_end_port = Some 9000 \<rparr>
   in api_port_covers named p ''tcp'' 8001
      \<and> \<not> (\<exists>ps\<in>set (map_ports (Some [p])). port_covers named ps ''tcp'' 8001)"
  by (simp add: api_port_covers_def map_ports_def port_covers_def port_ref_of_def u16_try_from_def proto_lower_tcp)

text \<open>A policy in the way its author would write it, with a selector, a block with an exception and a named port.\<close>

definition demo_np_spec :: k8s_np_spec where
  "demo_np_spec =
     \<lparr> kns_pod_selector = Some \<lparr> ks_match_labels = Some [(''app'', ''web'')], ks_match_expressions = None \<rparr>,
       kns_policy_types = None,
       kns_ingress = Some [\<lparr> knr_peers = Some
           [\<lparr> kp_ip_block = Some \<lparr> kb_cidr = ''10.0.0.0/8'', kb_except = Some [''10.1.0.0/16''] \<rparr>,
              kp_namespace_selector = None, kp_pod_selector = None \<rparr>],
         knr_ports = Some [\<lparr> knp_protocol = None, knp_port = Some (IntValue 80), knp_end_port = None \<rparr>] \<rparr>],
       kns_egress = None \<rparr>"

definition demo_np :: k8s_network_policy where
  "demo_np = \<lparr> kn_meta = \<lparr> km_name = Some ''p'', km_namespace = Some ''ns'', km_labels = None, km_annotations = None \<rparr>,
     kn_spec = Some demo_np_spec \<rparr>"


theorem policy_projection_keeps_meaning_witness:
  "\<exists>pol. map_policy cidr_parse demo_np = Some pol
     \<and> (\<exists>r\<in>set (dir_rules Ingress pol). rule_covers cidr_api (\<lambda>_. {}) [] [] ''ns'' r (AddrV4 0x0A020304) ''tcp'' 80)
     \<and> \<not> (\<exists>r\<in>set (dir_rules Ingress pol). rule_covers cidr_api (\<lambda>_. {}) [] [] ''ns'' r (AddrV4 0x0A010304) ''tcp'' 80)"
proof -
  let ?w = "netpol_snapshot cidr_parse [] [] []"
  obtain pol where pol: "map_policy cidr_parse demo_np = Some pol" "pol_namespace pol = ''ns''"
    by (simp add: map_policy_def demo_np_def Let_def)
  have spec: "kn_spec demo_np = Some demo_np_spec" by (simp add: demo_np_def)
  have r: "list_all (rule_readable cidr_parse) (or_default (kns_ingress demo_np_spec) @ or_default (kns_egress demo_np_spec))"
    by code_simp
  have w: "pw_pods ?w = []" "pw_namespaces ?w = []"
    by (simp_all add: netpol_snapshot_def List.map_filter_def)
  note m = policy_projection_keeps_meaning [OF pol(1) spec r refl, where pods = "[]" and nss = "[]" and policies = "[]"
      and dir = Ingress and api = cidr_api and named = "\<lambda>_. {}" and proto = "''tcp''" and port = 80, unfolded pol(2) w]
  have p: "cidr_parse ''10.0.0.0/8'' = Some (Cidr4 0x0A000000 8)" "cidr_parse ''10.1.0.0/16'' = Some (Cidr4 0x0A010000 16)"
    by code_simp+
  have c: "net_contains cidr_api (Cidr4 0x0A000000 8) (AddrV4 0x0A020304)" "\<not> net_contains cidr_api (Cidr4 0x0A010000 16) (AddrV4 0x0A020304)"
    "net_contains cidr_api (Cidr4 0x0A010000 16) (AddrV4 0x0A010304)"
    by code_simp+
  have "\<exists>r\<in>set (api_rules Ingress demo_np_spec). api_rule_covers cidr_api cidr_parse (\<lambda>_. {}) [] [] ''ns'' r (AddrV4 0x0A020304) ''tcp'' 80"
    using c p by (simp add: api_rules_def demo_np_spec_def api_rule_covers_def api_peer_covers_def api_block_covers_def
        api_port_covers_def proto_lower_tcp)
  moreover have "\<not> (\<exists>r\<in>set (api_rules Ingress demo_np_spec). api_rule_covers cidr_api cidr_parse (\<lambda>_. {}) [] [] ''ns'' r (AddrV4 0x0A010304) ''tcp'' 80)"
    using c p by (simp add: api_rules_def demo_np_spec_def api_rule_covers_def api_peer_covers_def api_block_covers_def)
  ultimately show ?thesis using pol(1) m by blast
qed

theorem unreadable_rule_fails_open_witness:
  "let r = \<lparr> knr_peers = Some [\<lparr> kp_ip_block = Some \<lparr> kb_cidr = ''10.0.0.0'', kb_except = None \<rparr>,
                                 kp_namespace_selector = None, kp_pod_selector = None \<rparr>], knr_ports = None \<rparr>
   in \<forall>nf a. peers_admit nf (resolve_peers cidr_api (rule_peers (map_rule cidr_parse r)) [] [] ''ns'' V4) a"
proof -
  let ?r = "\<lparr> knr_peers = Some [\<lparr> kp_ip_block = Some \<lparr> kb_cidr = ''10.0.0.0'', kb_except = None \<rparr>,
                                 kp_namespace_selector = None, kp_pod_selector = None \<rparr>], knr_ports = None \<rparr>"
  have "cidr_parse ''10.0.0.0'' = None" by code_simp
  then have p: "list_all (\<lambda>p. \<exists>b. kp_ip_block p = Some b \<and> cidr_parse (kb_cidr b) = None) (or_default (knr_peers ?r))"
    by simp
  have n: "u16_try_from 70000 = None" by code_simp
  show ?thesis unfolding Let_def
    by (intro allI) (rule unreadable_rule_fails_open [OF p n, THEN conjunct1])
qed


end
