(* ===== verification/Kr_ProxyWire.thy ===== *)
theory Kr_ProxyWire
  imports Kr_Kube Kr_ProxyPlan Kr_Routing
begin

text \<open>
  The two projections of Service and EndpointSlice objects, \<^verbatim>\<open>crates/kube-router-rs/src/proxy_wire.rs\<close> for the service proxy
  and \<^verbatim>\<open>svc_vip_wire.rs\<close> for the advertisement of service addresses, and how they fit together: what the
  routing controller advertises to the network and what the proxy of the same node serves.
\<close>

section \<open>The projection for the proxy\<close>

definition SCHEDULER_ANNOTATION :: string where "SCHEDULER_ANNOTATION = ''kube-router.io/service.scheduler''"
definition SCHEDFLAGS_ANNOTATION :: string where "SCHEDFLAGS_ANNOTATION = ''kube-router.io/service.schedflags''"
definition DSR_ANNOTATION :: string where "DSR_ANNOTATION = ''kube-router.io/service.dsr''"
definition HAIRPIN_ANNOTATION :: string where "HAIRPIN_ANNOTATION = ''kube-router.io/service.hairpin''"
definition HAIRPIN_EXTERNALIPS_ANNOTATION :: string where
  "HAIRPIN_EXTERNALIPS_ANNOTATION = ''kube-router.io/service.hairpin.externalips''"

definition slice_port :: "k8s_slice \<Rightarrow> string \<Rightarrow> u16 option" where
  "slice_port es port_name =
     Option.bind (find (\<lambda>p. or_default (kep_name p) = port_name) (or_default (ksl_ports es)))
       (\<lambda>p. Option.bind (kep_port p) u16_try_from)"

definition slice_endpoints :: "k8s_slice \<Rightarrow> u16 \<Rightarrow> string \<Rightarrow> endpoint_info list" where
  "slice_endpoints es port local_node =
     concat (map (\<lambda>ep. map (\<lambda>ip. \<lparr> ep_ip = ip, ep_port = port, ep_is_local = (ke_node_name ep = Some local_node),
                                  ep_ready = endpoint_ready ep \<rparr>) (List.map_filter parse_addr (ke_addresses ep)))
       (or_default (ksl_endpoints es)))"

definition endpoints_for :: "k8s_slice list \<Rightarrow> string \<Rightarrow> string \<Rightarrow> string \<Rightarrow> string \<Rightarrow> endpoint_info list" where
  "endpoints_for slices ns name port_name local_node =
     concat (map (\<lambda>es. if \<not> slice_of es ns name then []
                       else case slice_port es port_name of None \<Rightarrow> [] | Some port \<Rightarrow> slice_endpoints es port local_node) slices)"

definition wire_scheduler :: "k8s_meta \<Rightarrow> scheduler" where
  "wire_scheduler m = (case ann_get m SCHEDULER_ANNOTATION of Some s \<Rightarrow> scheduler_parse s | None \<Rightarrow> Rr)"

definition wire_sched_flags :: "k8s_meta \<Rightarrow> sched_flags" where
  "wire_sched_flags m =
     (if wire_scheduler m = Mh
      then (case ann_get m SCHEDFLAGS_ANNOTATION of Some s \<Rightarrow> sched_flags_parse s | None \<Rightarrow> no_flags) else no_flags)"

definition local_ann :: "k8s_meta \<Rightarrow> bool" where
  "local_ann m = (ann_get m LOCAL_ANNOTATION = Some ''true'')"

definition wire_affinity :: "k8s_service_spec \<Rightarrow> bool \<times> u32" where
  "wire_affinity spec =
     (if kss_session_affinity spec = Some ''ClientIP''
      then (True, case Option.bind (kss_affinity_timeout spec) u32_try_from of Some t \<Rightarrow> t | None \<Rightarrow> 10800)
      else (False, 0))"

definition service_info_of ::
  "k8s_service \<Rightarrow> k8s_service_spec \<Rightarrow> string \<Rightarrow> string \<Rightarrow> k8s_service_port \<Rightarrow> u16 \<Rightarrow> service_info" where
  "service_info_of svc spec ns name sp port =
     (let m = ksv_meta svc in
      \<lparr> si_namespace = ns, si_name = name, si_port_name = or_default (ksp_name sp),
        si_protocol = protocol_parse (case ksp_protocol sp of Some p \<Rightarrow> p | None \<Rightarrow> ''TCP''),
        si_port = port, si_node_port = Option.bind (ksp_node_port sp) u16_try_from,
        si_cluster_ips = parse_ips (raw_cluster_ips spec),
        si_external_ips = parse_ips (or_default (kss_external_ips spec)),
        si_load_balancer_ips = status_lb_ips svc,
        si_scheduler = wire_scheduler m, si_sched_flags = wire_sched_flags m,
        si_session_affinity = fst (wire_affinity spec), si_affinity_timeout = snd (wire_affinity spec),
        si_dsr = (ann_get m DSR_ANNOTATION \<noteq> None),
        si_internal_traffic_local = (local_ann m \<or> kss_internal_traffic_policy spec = Some ''Local''),
        si_external_traffic_local = (local_ann m \<or> kss_external_traffic_policy spec = Some ''Local''),
        si_hairpin = (ann_get m HAIRPIN_ANNOTATION \<noteq> None),
        si_hairpin_external_ips = (ann_get m HAIRPIN_EXTERNALIPS_ANNOTATION \<noteq> None),
        si_health_check_node_port = Option.bind (kss_health_check_node_port spec) u16_try_from \<rparr>)"

text \<open>The identity and the specification of a service both projections go on with; they skip external names.\<close>

definition service_core :: "k8s_service \<Rightarrow> (string \<times> string \<times> k8s_service_spec) option" where
  "service_core svc =
     Option.bind (km_namespace (ksv_meta svc)) (\<lambda>ns. Option.bind (km_name (ksv_meta svc)) (\<lambda>name.
     Option.bind (ksv_spec svc) (\<lambda>spec. if kss_type spec = Some ''ExternalName'' then None else Some (ns, name, spec))))"

definition map_service :: "k8s_slice list \<Rightarrow> string \<Rightarrow> k8s_service \<Rightarrow> (service_info \<times> endpoint_info list) list" where
  "map_service slices local_node svc = (case service_core svc of
     None \<Rightarrow> []
   | Some (ns, name, spec) \<Rightarrow>
       if parse_ips (raw_cluster_ips spec) = [] then []
       else List.map_filter (\<lambda>sp. map_option (\<lambda>port.
           (service_info_of svc spec ns name sp port, endpoints_for slices ns name (or_default (ksp_name sp)) local_node))
         (u16_try_from (ksp_port sp))) (or_default (kss_ports spec)))"

definition map_services :: "k8s_service list \<Rightarrow> k8s_slice list \<Rightarrow> string \<Rightarrow> (service_info \<times> endpoint_info list) list" where
  "map_services services slices local_node = concat (map (map_service slices local_node) services)"

section \<open>The projection for advertisement\<close>

definition ADV_CLUSTER_ANN :: string where "ADV_CLUSTER_ANN = ''kube-router.io/service.advertise.clusterip''"
definition ADV_EXTERNAL_ANN :: string where "ADV_EXTERNAL_ANN = ''kube-router.io/service.advertise.externalip''"
definition ADV_LB_ANN :: string where "ADV_LB_ANN = ''kube-router.io/service.advertise.loadbalancer''"
definition SKIP_LB_ANN :: string where "SKIP_LB_ANN = ''kube-router.io/service.skiplbips''"

definition ann_bool :: "k8s_meta \<Rightarrow> string \<Rightarrow> bool option" where
  "ann_bool m key = map_option (\<lambda>v. v = ''true'') (ann_get m key)"

definition has_local_endpoints :: "k8s_slice list \<Rightarrow> string \<Rightarrow> string \<Rightarrow> string \<Rightarrow> bool" where
  "has_local_endpoints slices ns name local_node =
     list_ex (\<lambda>es. slice_of es ns name
       \<and> list_ex (\<lambda>ep. ke_node_name ep = Some local_node \<and> endpoint_ready ep) (or_default (ksl_endpoints es))) slices"

definition map_svc_vip :: "k8s_slice list \<Rightarrow> string \<Rightarrow> k8s_service \<Rightarrow> svc_vip option" where
  "map_svc_vip slices local_node svc = map_option (\<lambda>(ns, name, spec). let m = ksv_meta svc in
     \<lparr> sv_cluster_ips = parse_ips (raw_cluster_ips spec),
       sv_external_ips = parse_ips (or_default (kss_external_ips spec)),
       sv_lb_ips = status_lb_ips svc,
       sv_internal_traffic_local = (kss_internal_traffic_policy spec = Some ''Local''),
       sv_external_traffic_local = (local_ann m \<or> kss_external_traffic_policy spec = Some ''Local''),
       sv_has_local_endpoints = has_local_endpoints slices ns name local_node,
       sv_adv_cluster = ann_bool m ADV_CLUSTER_ANN, sv_adv_external = ann_bool m ADV_EXTERNAL_ANN,
       sv_adv_lb = ann_bool m ADV_LB_ANN, sv_skip_lb_ips = (ann_get m SKIP_LB_ANN \<noteq> None) \<rparr>) (service_core svc)"

definition map_svc_vips :: "k8s_service list \<Rightarrow> k8s_slice list \<Rightarrow> string \<Rightarrow> svc_vip list" where
  "map_svc_vips services slices local_node = List.map_filter (map_svc_vip slices local_node) services"

section \<open>Facts about the projections\<close>

text \<open>A ready local endpoint of a projected service is one the advertisement counts.\<close>

lemma local_endpoint_counted:
  assumes "e \<in> set (endpoints_for slices ns name port_name node)" "ep_ready e" "ep_is_local e"
  shows "has_local_endpoints slices ns name node"
  using assms
  by (fastforce simp: endpoints_for_def slice_endpoints_def has_local_endpoints_def list_ex_iff split: if_splits option.splits)

lemma map_service_iff:
  "(info, eps) \<in> set (map_service slices node svc) \<longleftrightarrow> (\<exists>ns name spec sp port. service_core svc = Some (ns, name, spec)
     \<and> parse_ips (raw_cluster_ips spec) \<noteq> [] \<and> sp \<in> set (or_default (kss_ports spec)) \<and> u16_try_from (ksp_port sp) = Some port
     \<and> info = service_info_of svc spec ns name sp port
     \<and> eps = endpoints_for slices ns name (or_default (ksp_name sp)) node)"
proof (cases "service_core svc")
  case (Some core)
  then show ?thesis by (cases core) (auto simp: map_service_def set_map_filter)
qed (simp add: map_service_def)

lemma map_services_iff: "x \<in> set (map_services services slices node) \<longleftrightarrow> (\<exists>svc\<in>set services. x \<in> set (map_service slices node svc))"
  by (auto simp: map_services_def)

lemma service_vips_addrs:
  assumes "map_svc_vip slices node svc = Some v" "service_core svc = Some (ns, name, spec)" "a \<in> set (service_vips d v)"
  shows "a \<in> set (parse_ips (raw_cluster_ips spec)) \<or> a \<in> set (parse_ips (or_default (kss_external_ips spec)))
    \<or> a \<in> set (status_lb_ips svc)"
  using assms by (auto simp: map_svc_vip_def service_vips_def Let_def split: if_splits)

section \<open>Properties\<close>


text \<open>The annotation for local traffic makes the proxy keep to local endpoints for cluster addresses as well, but not the
  advertisement: a node without a ready endpoint advertises the cluster addresses of such a service and has
  no destination for any of them.\<close>

theorem local_annotation_black_hole:
  assumes "map_svc_vip slices node svc = Some v" and "service_core svc = Some (ns, name, spec)"
    and "local_ann (ksv_meta svc)" and "kss_internal_traffic_policy spec \<noteq> Some ''Local''"
    and "\<not> has_local_endpoints slices ns name node"
    and "(case ann_bool (ksv_meta svc) ADV_CLUSTER_ANN of Some b \<Rightarrow> b | None \<Rightarrow> ad_cluster d)"
  shows "set (parse_ips (raw_cluster_ips spec)) \<subseteq> set (service_vips d v)
    \<and> ((info, eps) \<in> set (map_service slices node svc) \<longrightarrow> svc_dests info eps (si_internal_traffic_local info) = [])"
proof (intro conjI impI)
  show "set (parse_ips (raw_cluster_ips spec)) \<subseteq> set (service_vips d v)"
    using assms by (auto simp: map_svc_vip_def service_vips_def should_advertise_def Let_def)
  assume "(info, eps) \<in> set (map_service slices node svc)"
  then have "si_internal_traffic_local info" "\<forall>e\<in>set eps. \<not> (ep_ready e \<and> ep_is_local e)"
    using assms(2,3,5) local_endpoint_counted [of _ slices ns name _ node]
    unfolding map_service_iff by (auto simp: service_info_of_def Let_def)
  then show "svc_dests info eps (si_internal_traffic_local info) = []" by (simp add: svc_dests_Nil)
qed

text \<open>A service without a cluster address is nothing to the proxy, but its external and load-balancer addresses are
  advertised all the same: they attract traffic to a node that has no virtual service for them.\<close>

theorem headless_service_advertised_not_served:
  assumes "map_svc_vip slices node svc = Some v" and "service_core svc = Some (ns, name, spec)"
    and "parse_ips (raw_cluster_ips spec) = []" and "kss_external_traffic_policy spec \<noteq> Some ''Local''" "\<not> local_ann (ksv_meta svc)"
    and "(case ann_bool (ksv_meta svc) ADV_EXTERNAL_ANN of Some b \<Rightarrow> b | None \<Rightarrow> ad_external d)"
  shows "set (parse_ips (or_default (kss_external_ips spec))) \<subseteq> set (service_vips d v) \<and> map_service slices node svc = []"
  using assms by (auto simp: map_svc_vip_def service_vips_def should_advertise_def Let_def map_service_def)


text \<open>A service of one port with a cluster and an external address, and its slice with one endpoint on node \<^verbatim>\<open>a\<close>.\<close>

definition demo_k8s_spec :: "string \<Rightarrow> k8s_service_spec" where
  "demo_k8s_spec cip =
     \<lparr> kss_type = None, kss_cluster_ip = Some cip, kss_cluster_ips = None, kss_external_ips = Some [''192.0.2.1''],
       kss_ports = Some [\<lparr> ksp_name = None, ksp_protocol = None, ksp_port = 80, ksp_node_port = None \<rparr>],
       kss_session_affinity = None, kss_affinity_timeout = None, kss_internal_traffic_policy = None,
       kss_external_traffic_policy = None, kss_health_check_node_port = None,
       kss_load_balancer_class = None, kss_ip_families = None, kss_ip_family_policy = None \<rparr>"

definition demo_k8s_service :: "string \<Rightarrow> labels \<Rightarrow> k8s_service" where
  "demo_k8s_service cip anns =
     \<lparr> ksv_meta = \<lparr> km_name = Some ''web'', km_namespace = Some ''ns'', km_labels = None, km_annotations = Some anns \<rparr>,
       ksv_spec = Some (demo_k8s_spec cip), ksv_ingress = None \<rparr>"

definition demo_k8s_slice :: k8s_slice where
  "demo_k8s_slice =
     \<lparr> ksl_meta = \<lparr> km_name = Some ''web-1'', km_namespace = Some ''ns'', km_labels = Some [(SERVICE_NAME_LABEL, ''web'')],
                     km_annotations = None \<rparr>,
       ksl_ports = Some [\<lparr> kep_name = None, kep_port = Some 8080 \<rparr>],
       ksl_endpoints = Some [\<lparr> ke_addresses = [''10.0.0.2''], ke_ready = None, ke_node_name = Some ''a'' \<rparr>] \<rparr>"

definition demo_adv :: advertise_defaults where
  "demo_adv = \<lparr> ad_cluster = True, ad_external = True, ad_loadbalancer = False \<rparr>"

lemma demo_wire_facts:
  "service_core (demo_k8s_service cip anns) = Some (''ns'', ''web'', demo_k8s_spec cip)"
  "parse_ips (raw_cluster_ips (demo_k8s_spec ''10.96.0.1'')) = [AddrV4 0x0A600001]"
  "parse_ips (raw_cluster_ips (demo_k8s_spec ''None'')) = []"
  "parse_ips (or_default (kss_external_ips (demo_k8s_spec cip))) = [AddrV4 0xC0000201]"
  "u16_try_from 80 = Some 80"
proof -
  show "service_core (demo_k8s_service cip anns) = Some (''ns'', ''web'', demo_k8s_spec cip)"
    by (simp add: service_core_def demo_k8s_service_def demo_k8s_spec_def)
  show "parse_ips (or_default (kss_external_ips (demo_k8s_spec cip))) = [AddrV4 0xC0000201]"
    by (simp add: demo_k8s_spec_def) code_simp
qed code_simp+


theorem local_annotation_black_hole_witness:
  "let svc = demo_k8s_service ''10.96.0.1'' [(LOCAL_ANNOTATION, ''true'')] in
   \<exists>v info eps. map_svc_vip [demo_k8s_slice] ''b'' svc = Some v \<and> AddrV4 0x0A600001 \<in> set (service_vips demo_adv v)
     \<and> (info, eps) \<in> set (map_service [demo_k8s_slice] ''b'' svc) \<and> svc_dests info eps (si_internal_traffic_local info) = []"
proof -
  let ?svc = "demo_k8s_service ''10.96.0.1'' [(LOCAL_ANNOTATION, ''true'')]"
  obtain v where v: "map_svc_vip [demo_k8s_slice] ''b'' ?svc = Some v"
    by (simp add: map_svc_vip_def demo_wire_facts)
  have h: "local_ann (ksv_meta ?svc)" "kss_internal_traffic_policy (demo_k8s_spec ''10.96.0.1'') \<noteq> Some ''Local''"
    "\<not> has_local_endpoints [demo_k8s_slice] ''ns'' ''web'' ''b''"
    "case ann_bool (ksv_meta ?svc) ADV_CLUSTER_ANN of Some b \<Rightarrow> b | None \<Rightarrow> ad_cluster demo_adv"
    by code_simp+
  have sp: "\<lparr> ksp_name = None, ksp_protocol = None, ksp_port = 80, ksp_node_port = None \<rparr>
      \<in> set (or_default (kss_ports (demo_k8s_spec ''10.96.0.1'')))" (is "?sp \<in> _")
    by (simp add: demo_k8s_spec_def)
  have "u16_try_from (ksp_port ?sp) = Some 80" "parse_ips (raw_cluster_ips (demo_k8s_spec ''10.96.0.1'')) \<noteq> []"
    by (simp_all add: demo_wire_facts)
  with sp demo_wire_facts(1) obtain info eps where m: "(info, eps) \<in> set (map_service [demo_k8s_slice] ''b'' ?svc)"
    unfolding map_service_iff by blast
  note b = local_annotation_black_hole [OF v demo_wire_facts(1) h, of info eps]
  have "AddrV4 0x0A600001 \<in> set (service_vips demo_adv v)"
    using b [THEN conjunct1] unfolding demo_wire_facts(2) by simp
  moreover have "svc_dests info eps (si_internal_traffic_local info) = []"
    using b [THEN conjunct2] m by (rule mp)
  ultimately show ?thesis
    unfolding Let_def using v m by blast
qed

theorem headless_service_advertised_not_served_witness:
  "\<exists>v. map_svc_vip [demo_k8s_slice] ''a'' (demo_k8s_service ''None'' []) = Some v
     \<and> AddrV4 0xC0000201 \<in> set (service_vips demo_adv v) \<and> map_service [demo_k8s_slice] ''a'' (demo_k8s_service ''None'' []) = []"
proof -
  let ?svc = "demo_k8s_service ''None'' []"
  obtain v where v: "map_svc_vip [demo_k8s_slice] ''a'' ?svc = Some v"
    by (simp add: map_svc_vip_def demo_wire_facts)
  have h: "kss_external_traffic_policy (demo_k8s_spec ''None'') \<noteq> Some ''Local''" "\<not> local_ann (ksv_meta ?svc)"
    "case ann_bool (ksv_meta ?svc) ADV_EXTERNAL_ANN of Some b \<Rightarrow> b | None \<Rightarrow> ad_external demo_adv"
    by code_simp+
  show ?thesis
    using v headless_service_advertised_not_served [OF v demo_wire_facts(1,3) h] by (simp add: demo_wire_facts)
qed


end
