(* ===== verification/Kr_RoutingWire.thy ===== *)
theory Kr_RoutingWire
  imports Kr_Kube Kr_Routing Kr_Config
begin

text \<open>
  From Node objects to the routing controllers: the selection of node addresses (\<^verbatim>\<open>crates/kube-client/src/node.rs\<close>), the BGP
  annotations of a node (\<^verbatim>\<open>crates/routing/src/annotations.rs\<close>, \<^verbatim>\<open>bgp_policy.rs\<close>), the peers annotation
  (\<^verbatim>\<open>external_peers.rs\<close>), and the construction of the controller and its engine
  (\<^verbatim>\<open>crates/kube-router-rs/src/routing_wire.rs\<close>). Prefix and YAML parsers and the gobgpd process are parameters.
\<close>

section \<open>Node addresses\<close>

datatype node_address_type = Internal | External | Other

record node_address =
  na_kind :: node_address_type
  na_address :: string

record node_ips =
  ni_v4 :: "ip_addr option"
  ni_v6 :: "ip_addr option"

fun rank :: "node_address_type \<Rightarrow> u8" where
  "rank Internal = 0"
| "rank External = 1"
| "rank Other = 2"

text \<open>One address: the selection so far and the ranks of what was selected.\<close>

definition select_step :: "node_address \<Rightarrow> node_ips \<times> u8 \<times> u8 \<Rightarrow> node_ips \<times> u8 \<times> u8" where
  "select_step a = (\<lambda>(out, r4, r6).
     if na_kind a = Other then (out, r4, r6)
     else case parse_ip (na_address a) of
         Inl _ \<Rightarrow> (out, r4, r6)
       | Inr ip \<Rightarrow>
           let r = rank (na_kind a) in
           (case of_addr ip of
              V4 \<Rightarrow> if ni_v4 out = None \<or> r < r4 then (out \<lparr> ni_v4 := Some ip \<rparr>, r, r6) else (out, r4, r6)
            | V6 \<Rightarrow> if ni_v6 out = None \<or> r < r6 then (out \<lparr> ni_v6 := Some ip \<rparr>, r4, r) else (out, r4, r6)))"

definition select_node_ips :: "node_address list \<Rightarrow> node_ips" where
  "select_node_ips addresses =
     fst (fold select_step addresses (\<lparr> ni_v4 = None, ni_v6 = None \<rparr>, 255, 255))"

definition parse_pod_cidrs :: "(string \<Rightarrow> 'n option) \<Rightarrow> string list \<Rightarrow> 'n list" where
  "parse_pod_cidrs parse_net cidrs = List.map_filter (\<lambda>c. parse_net (trim c)) cidrs"

section \<open>BGP annotations\<close>

definition MAX_PATH_PREPEND_REPEAT :: u8 where "MAX_PATH_PREPEND_REPEAT = 8"

record external_peer =
  xp_remote_ip :: ip_addr
  xp_remote_asn :: u32
  xp_local_ip :: "ip_addr option"
  xp_password :: "string option"
  xp_port :: "u16 option"

record 'n node_bgp_config =
  nc_asn :: "u32 option"
  nc_communities :: "string list"
  nc_custom_import_reject :: "'n list"
  nc_path_prepend :: "(u32 \<times> u8) option"
  nc_rr_server :: "string option"
  nc_rr_client :: "string option"
  nc_bgp_local_addresses :: "ip_addr list"
  nc_external_peers :: "external_peer list"

definition WELL_KNOWN_COMMUNITIES :: "string list" where
  "WELL_KNOWN_COMMUNITIES =
     [''no-export'', ''no-advertise'', ''no-peer'', ''internet'', ''blackhole'', ''graceful-shutdown'']"

definition validate_community :: "string \<Rightarrow> bool" where
  "validate_community token =
     (let t = trim token in
      if t \<in> set WELL_KNOWN_COMMUNITIES then True
      else if parse_u32 t \<noteq> None then True
      else case split_once CHR '':'' t of
          Some (a, b) \<Rightarrow> parse_u16 a \<noteq> None \<and> parse_u16 b \<noteq> None
        | None \<Rightarrow> False)"

text \<open>Splitting at commas and blanks.\<close>

definition split_list :: "string \<Rightarrow> string list" where
  "split_list s = filter (\<lambda>x. x \<noteq> []) (map trim (concat (map (split_on CHR '' '') (split_on CHR '','' s))))"

definition parse_u8 :: "string \<Rightarrow> u8 option" where
  "parse_u8 s = map_option of_nat (parse_uint 256 s)"

definition ok_of :: "'e + 'a \<Rightarrow> 'a option" where
  "ok_of r = (case r of Inr a \<Rightarrow> Some a | Inl _ \<Rightarrow> None)"

definition parse_deprecated_peers :: "labels \<Rightarrow> external_peer list" where
  "parse_deprecated_peers anns =
     (case (map_of anns ''kube-router.io/peer.ips'', map_of anns ''kube-router.io/peer.asns'') of
        (Some ips, Some asns) \<Rightarrow>
          let ips = split_list ips; asns = split_list asns;
              field = (\<lambda>k. case map_of anns k of Some s \<Rightarrow> split_list s | None \<Rightarrow> []);
              local_ips = field ''kube-router.io/peer.localips'';
              passwords = field ''kube-router.io/peer.passwords'';
              ports = field ''kube-router.io/peer.ports''
          in if ips = [] \<or> length ips \<noteq> length asns then []
             else List.map_filter (\<lambda>i. case (parse_ip (ips ! i), parse_u32 (asns ! i)) of
                 (Inr remote_ip, Some remote_asn) \<Rightarrow>
                   Some \<lparr> xp_remote_ip = remote_ip, xp_remote_asn = remote_asn,
                     xp_local_ip = Option.bind (list_get local_ips i) (\<lambda>s. ok_of (parse_ip s)),
                     xp_password = list_get passwords i,
                     xp_port = Option.bind (list_get ports i) parse_u16 \<rparr>
               | _ \<Rightarrow> None) [0..<length ips]
      | _ \<Rightarrow> [])"

definition parse_external_peers :: "(string \<Rightarrow> external_peer list option) \<Rightarrow> labels \<Rightarrow> external_peer list" where
  "parse_external_peers yaml anns =
     (case Option.bind (map_of anns ''kube-router.io/peers'') yaml of
        Some peers \<Rightarrow> peers
      | None \<Rightarrow> parse_deprecated_peers anns)"

definition parse_node_bgp ::
  "(string \<Rightarrow> 'n option) \<Rightarrow> (string \<Rightarrow> external_peer list option) \<Rightarrow> labels \<Rightarrow> 'n node_bgp_config" where
  "parse_node_bgp parse_net yaml anns =
     \<lparr> nc_asn = Option.bind (map_of anns ''kube-router.io/node.asn'') (\<lambda>v. parse_u32 (trim v)),
       nc_communities = (case map_of anns ''kube-router.io/node.bgp.communities'' of
          Some v \<Rightarrow> filter validate_community (split_list v) | None \<Rightarrow> []),
       nc_custom_import_reject = (case map_of anns ''kube-router.io/node.bgp.customimportreject'' of
          Some v \<Rightarrow> List.map_filter (\<lambda>c. parse_net (trim c)) (split_list v) | None \<Rightarrow> []),
       nc_path_prepend = (case (map_of anns ''kube-router.io/path-prepend.as'', map_of anns ''kube-router.io/path-prepend.repeat-n'') of
          (Some asn, Some rep) \<Rightarrow>
            (case (parse_u32 (trim asn), parse_u8 (trim rep)) of
               (Some asn, Some rep) \<Rightarrow> if rep \<le> MAX_PATH_PREPEND_REPEAT then Some (asn, rep) else None
             | _ \<Rightarrow> None)
        | _ \<Rightarrow> None),
       nc_rr_server = map_option trim (map_of anns ''kube-router.io/rr.server''),
       nc_rr_client = map_option trim (map_of anns ''kube-router.io/rr.client''),
       nc_bgp_local_addresses = (case map_of anns ''kube-router.io/bgp-local-addresses'' of
          Some v \<Rightarrow> List.map_filter (\<lambda>a. ok_of (parse_ip a)) (split_list v) | None \<Rightarrow> []),
       nc_external_peers = parse_external_peers yaml anns \<rparr>"

section \<open>BGP policy of a node\<close>

datatype policy_parse_error = PolicyParseError string

definition parse_community :: "string \<Rightarrow> policy_parse_error + u32" where
  "parse_community s =
     (let s = trim s in
      case split_once CHR '':'' s of
        Some (hi, lo) \<Rightarrow>
          (case parse_u16 hi of
             None \<Rightarrow> Inl (PolicyParseError (''community high part: '' @ hi))
           | Some h \<Rightarrow>
              (case parse_u16 lo of
                 None \<Rightarrow> Inl (PolicyParseError (''community low part: '' @ lo))
               | Some l \<Rightarrow> Inr (push_bit 16 (ucast h) OR ucast l)))
      | None \<Rightarrow> (case parse_u32 s of Some v \<Rightarrow> Inr v | None \<Rightarrow> Inl (PolicyParseError (''community: '' @ s))))"

text \<open>Collecting results stops at the first error.\<close>

fun collect :: "('e + 'a) list \<Rightarrow> 'e + 'a list" where
  "collect [] = Inr []"
| "collect (Inl e # rs) = Inl e"
| "collect (Inr a # rs) = (case collect rs of Inl e \<Rightarrow> Inl e | Inr as \<Rightarrow> Inr (a # as))"

definition comma_tokens :: "string \<Rightarrow> string list" where
  "comma_tokens s = filter (\<lambda>p. p \<noteq> []) (map trim (split_on CHR '','' s))"

definition parse_communities :: "string \<Rightarrow> policy_parse_error + u32 list" where
  "parse_communities s = collect (map parse_community (comma_tokens s))"

definition parse_import_reject :: "(string \<Rightarrow> 'n option) \<Rightarrow> string \<Rightarrow> 'n list" where
  "parse_import_reject parse_net s = List.map_filter parse_net (comma_tokens s)"

record 'n bgp_policy_config =
  bc_communities :: "u32 list"
  bc_path_prepend :: "(u32 \<times> u8) option"
  bc_import_reject :: "'n list"

definition default_policy :: "'n bgp_policy_config" where
  "default_policy = \<lparr> bc_communities = [], bc_path_prepend = None, bc_import_reject = [] \<rparr>"

definition path_prepend_of :: "string option \<Rightarrow> string option \<Rightarrow> policy_parse_error + (u32 \<times> u8) option" where
  "path_prepend_of prepend_as prepend_repeat = (case prepend_as of
     None \<Rightarrow> Inr None
   | Some asn \<Rightarrow>
      (case parse_u32 (trim asn) of
         None \<Rightarrow> Inl (PolicyParseError (''path-prepend.as: '' @ asn))
       | Some a \<Rightarrow>
          (case prepend_repeat of
             None \<Rightarrow> Inr (Some (a, 1))
           | Some r \<Rightarrow>
              (case parse_u8 (trim r) of
                 None \<Rightarrow> Inl (PolicyParseError ''path-prepend.repeat-n'')
               | Some n \<Rightarrow> Inr (if n > 0 then Some (a, n) else None)))))"

definition from_annotations ::
  "(string \<Rightarrow> 'n option) \<Rightarrow> string option \<Rightarrow> string option \<Rightarrow> string option \<Rightarrow> string option
     \<Rightarrow> policy_parse_error + 'n bgp_policy_config" where
  "from_annotations parse_net communities prepend_as prepend_repeat import_reject =
     (case (case communities of Some s \<Rightarrow> parse_communities s | None \<Rightarrow> Inr []) of
        Inl e \<Rightarrow> Inl e
      | Inr cs \<Rightarrow>
         (case path_prepend_of prepend_as prepend_repeat of
            Inl e \<Rightarrow> Inl e
          | Inr pp \<Rightarrow> Inr \<lparr> bc_communities = cs, bc_path_prepend = pp,
              bc_import_reject = (case import_reject of Some s \<Rightarrow> parse_import_reject parse_net s | None \<Rightarrow> []) \<rparr>))"

section \<open>Nodes\<close>

definition address_kind :: "string \<Rightarrow> node_address_type" where
  "address_kind t = (if t = ''InternalIP'' then Internal else if t = ''ExternalIP'' then External else Other)"

definition node_addresses :: "k8s_node \<Rightarrow> node_address list" where
  "node_addresses node =
     map (\<lambda>(t, a). \<lparr> na_kind = address_kind t, na_address = a \<rparr>) (or_default (kno_addresses node))"

definition primary_ip :: "k8s_node \<Rightarrow> ip_addr option" where
  "primary_ip node = (let ips = select_node_ips (node_addresses node) in case ni_v4 ips of Some ip \<Rightarrow> Some ip | None \<Rightarrow> ni_v6 ips)"

definition node_to_bgp ::
  "(string \<Rightarrow> 'n option) \<Rightarrow> (string \<Rightarrow> external_peer list option) \<Rightarrow> u32 \<Rightarrow> k8s_node \<Rightarrow> node_bgp option" where
  "node_to_bgp parse_net yaml cluster_asn node =
     Option.bind (km_name (kno_meta node)) (\<lambda>name. Option.bind (primary_ip node) (\<lambda>ip.
       let bgp = parse_node_bgp parse_net yaml (or_default (km_annotations (kno_meta node))) in
       Some \<lparr> nb_name = name, nb_ip = ip,
              nb_asn = (case nc_asn bgp of Some a \<Rightarrow> a | None \<Rightarrow> cluster_asn),
              nb_rr_server = Option.bind (nc_rr_server bgp) parse_u32,
              nb_rr_client = Option.bind (nc_rr_client bgp) parse_u32 \<rparr>))"

definition find_node :: "k8s_node list \<Rightarrow> string \<Rightarrow> k8s_node option" where
  "find_node nodes name = find (\<lambda>n. km_name (kno_meta n) = Some name) nodes"

definition local_node_bgp_policy :: "(string \<Rightarrow> 'n option) \<Rightarrow> k8s_node list \<Rightarrow> string \<Rightarrow> 'n bgp_policy_config" where
  "local_node_bgp_policy parse_net nodes name =
     (let anns = or_default (Option.bind (find_node nodes name) (\<lambda>n. km_annotations (kno_meta n))) in
      case from_annotations parse_net (map_of anns ''kube-router.io/node.bgp.communities'')
             (map_of anns ''kube-router.io/path-prepend.as'') (map_of anns ''kube-router.io/path-prepend.repeat-n'')
             (map_of anns ''kube-router.io/node.bgp.customimportreject'') of
        Inr c \<Rightarrow> c
      | Inl _ \<Rightarrow> default_policy)"

definition local_node ::
  "(string \<Rightarrow> 'n option) \<Rightarrow> (string \<Rightarrow> external_peer list option) \<Rightarrow> u32 \<Rightarrow> k8s_node list \<Rightarrow> string \<Rightarrow> node_bgp option" where
  "local_node parse_net yaml cluster_asn nodes name = Option.bind (find_node nodes name) (node_to_bgp parse_net yaml cluster_asn)"

definition local_node_peers_annotation :: "k8s_node list \<Rightarrow> string \<Rightarrow> string option" where
  "local_node_peers_annotation nodes name =
     Option.bind (find_node nodes name) (\<lambda>n. ann_get (kno_meta n) ''kube-router.io/peers'')"

definition provider_nodes ::
  "(string \<Rightarrow> 'n option) \<Rightarrow> (string \<Rightarrow> external_peer list option) \<Rightarrow> u32 \<Rightarrow> k8s_node list \<Rightarrow> node_bgp list" where
  "provider_nodes parse_net yaml cluster_asn nodes = List.map_filter (node_to_bgp parse_net yaml cluster_asn) nodes"

definition node_pod_cidrs :: "(string \<Rightarrow> 'n option) \<Rightarrow> k8s_node \<Rightarrow> 'n list" where
  "node_pod_cidrs parse_net node =
     (let raw = (if or_default (kno_pod_cidrs node) \<noteq> [] then or_default (kno_pod_cidrs node)
                 else (case kno_pod_cidr node of Some c \<Rightarrow> [c] | None \<Rightarrow> []))
      in List.map_filter parse_net raw)"

definition node_to_route :: "(string \<Rightarrow> 'n option) \<Rightarrow> k8s_node \<Rightarrow> 'n node_route option" where
  "node_to_route parse_net node =
     Option.bind (km_name (kno_meta node)) (\<lambda>name. map_option (\<lambda>ip.
       \<lparr> nr_name = name, nr_ip = ip, nr_pod_cidrs = node_pod_cidrs parse_net node \<rparr>) (primary_ip node))"

definition local_pod_cidrs :: "(string \<Rightarrow> 'n option) \<Rightarrow> k8s_node list \<Rightarrow> string \<Rightarrow> 'n list" where
  "local_pod_cidrs parse_net nodes name =
     (case find_node nodes name of Some n \<Rightarrow> node_pod_cidrs parse_net n | None \<Rightarrow> [])"

definition node_routes :: "(string \<Rightarrow> 'n option) \<Rightarrow> k8s_node list \<Rightarrow> 'n node_route list" where
  "node_routes parse_net nodes = List.map_filter (node_to_route parse_net) nodes"

definition resolve_node_name :: "string option \<Rightarrow> string option \<Rightarrow> string \<Rightarrow> string option" where
  "resolve_node_name env_node_name env_hostname hostname_override =
     (if hostname_override \<noteq> [] then Some hostname_override
      else case env_node_name of Some n \<Rightarrow> Some n | None \<Rightarrow> env_hostname)"

section \<open>External peers of the annotation\<close>

text \<open>An entry as the YAML decoder (the parameter \<open>yaml_entries\<close>) delivers it.\<close>

record peer_entry =
  pe_remoteip :: string
  pe_remoteasn :: u32
  pe_localip :: "string option"
  pe_entry_password :: "string option"
  pe_entry_port :: "u32 option"

definition u16_of_u32 :: "u32 \<Rightarrow> u16 option" where
  "u16_of_u32 p = (if p < 65536 then Some (ucast p) else None)"

definition peer_of_entry :: "u8 option \<Rightarrow> graceful_restart option \<Rightarrow> peer_entry \<Rightarrow> peer_parse_error + peer_config" where
  "peer_of_entry ttl gr e = (case parse_addr (pe_remoteip e) of
     None \<Rightarrow> Inl (PeersYaml (''bad remoteip: '' @ pe_remoteip e))
   | Some neighbor \<Rightarrow> Inr \<lparr> pc_neighbor = neighbor, pc_peer_asn = pe_remoteasn e, pc_is_external = True,
       pc_rr_client = False, pc_rr_cluster_id = None, pc_local_address = Option.bind (pe_localip e) parse_addr,
       pc_password = opt_filter (\<lambda>p. p \<noteq> []) (pe_entry_password e),
       pc_port = opt_filter (\<lambda>p. p \<noteq> 0) (Option.bind (pe_entry_port e) u16_of_u32),
       pc_multihop_ttl = ttl, pc_graceful_restart = gr \<rparr>)"

definition parse_peers_annotation ::
  "(string \<Rightarrow> string + peer_entry list) \<Rightarrow> string \<Rightarrow> u8 option \<Rightarrow> graceful_restart option \<Rightarrow> peer_parse_error + peer_config list" where
  "parse_peers_annotation yaml_entries yaml ttl gr = (case yaml_entries yaml of
     Inl e \<Rightarrow> Inl (PeersYaml e)
   | Inr entries \<Rightarrow> collect (map (peer_of_entry ttl gr) entries))"

section \<open>Controller and engine\<close>

definition config_graceful_restart :: "kube_router_config \<Rightarrow> graceful_restart option" where
  "config_graceful_restart c =
     (if kc_bgp_graceful_restart c
      then Some \<lparr> restart_time_secs = of_nat (kc_bgp_graceful_restart_time c div 10 ^ 9),
                  deferral_time_secs = of_nat (kc_bgp_graceful_restart_deferral_time c div 10 ^ 9) \<rparr> else None)"

definition config_external_peers :: "(string \<Rightarrow> string + peer_entry list) \<Rightarrow> kube_router_config \<Rightarrow> ip_addr \<Rightarrow> string option \<Rightarrow> peer_config list" where
  "config_external_peers yaml_entries c local_ip annotation =
     (let ports = List.map_filter u16_of_u32 (kc_peer_router_ports c);
          ttl = (if kc_peer_router_multihop_ttl c > 0 then Some (kc_peer_router_multihop_ttl c) else None);
          gr = config_graceful_restart c;
          global = (case zip_peers (kc_peer_router_ips c) (kc_peer_router_asns c) ports (kc_peer_router_passwords c) ttl
                           (Some local_ip) gr of Inr p \<Rightarrow> p | Inl _ \<Rightarrow> [])
      in case annotation of
           None \<Rightarrow> global
         | Some y \<Rightarrow> (case parse_peers_annotation yaml_entries y ttl gr of Inr p \<Rightarrow> global @ p | Inl _ \<Rightarrow> global))"

definition build_controller ::
  "(string \<Rightarrow> 'n option) \<Rightarrow> (string \<Rightarrow> external_peer list option) \<Rightarrow> (string \<Rightarrow> string + peer_entry list) \<Rightarrow> kube_router_config
     \<Rightarrow> k8s_node list \<Rightarrow> string \<Rightarrow> routes_controller option" where
  "build_controller parse_net yaml yaml_entries c nodes local_name =
     map_option (\<lambda>local.
       with_external_peers (config_external_peers yaml_entries c (nb_ip local) (local_node_peers_annotation nodes local_name))
         (nrc_new \<lparr> rc_local = local, rc_full_mesh = kc_nodes_full_mesh c, rc_enable_ibgp = kc_enable_ibgp c,
                    rc_graceful_restart = config_graceful_restart c \<rparr>))
       (local_node parse_net yaml (kc_cluster_asn c) nodes local_name)"

text \<open>The engine that only logs, and the choice between it and gobgpd.\<close>

definition logging_ops :: "('s, 'n) bgp_ops" where
  "logging_ops = \<lparr> bgp_start = (\<lambda>_. eff_ok ()), bgp_stop = eff_ok (), bgp_add_peer = (\<lambda>_. eff_ok ()),
     bgp_delete_peer = (\<lambda>_. eff_ok ()), bgp_add_path = (\<lambda>_. eff_ok ()), bgp_delete_path = (\<lambda>_. eff_ok ()) \<rparr>"

datatype ('s, 'n) selected_engine = Logging | Gobgp "('s, 'n) bgp_ops"

fun selected_ops :: "('s, 'n) selected_engine \<Rightarrow> ('s, 'n) bgp_ops" where
  "selected_ops Logging = logging_ops"
| "selected_ops (Gobgp e) = e"

text \<open>The process: whether its binary is there, starting it, waiting for its port, connecting.\<close>

record ('s, 'n) gobgp_env =
  ge_exists :: bool
  ge_spawn :: "string \<Rightarrow> u16 \<Rightarrow> ('s, string, unit) eff"
  ge_wait_port_ready :: "string \<Rightarrow> 's \<Rightarrow> bool \<times> 's"
  ge_connect :: "string \<Rightarrow> u16 \<Rightarrow> string + ('s, 'n) bgp_ops"

definition engine_global :: "kube_router_config \<Rightarrow> ip_addr option \<Rightarrow> global_config" where
  "engine_global c local_ip =
     \<lparr> gc_asn = kc_cluster_asn c, gc_router_id = map_option show_addr (opt_filter (\<lambda>ip. \<not> is_ipv6 ip) local_ip),
       gc_listen_port = kc_bgp_port c, gc_listen_addresses = (case local_ip of Some ip \<Rightarrow> [ip] | None \<Rightarrow> []) \<rparr>"

definition build_engine ::
  "('s, 'n) gobgp_env \<Rightarrow> kube_router_config \<Rightarrow> ip_addr option \<Rightarrow> 's \<Rightarrow> ('s, 'n) selected_engine \<times> 's" where
  "build_engine env c local_ip s =
     (if kc_gobgp_admin_port c = 0 \<or> \<not> ge_exists env then (Logging, s)
      else let admin_addr = (if kc_gobgp_admin_address c = [] then ''127.0.0.1'' else kc_gobgp_admin_address c) in
        case ge_spawn env admin_addr (kc_gobgp_admin_port c) s of
          (Inl _, s1) \<Rightarrow> (Logging, s1)
        | (Inr _, s1) \<Rightarrow>
           (case ge_wait_port_ready env (admin_addr @ '':'' @ show_nat (unat (kc_gobgp_admin_port c))) s1 of
              (False, s2) \<Rightarrow> (Logging, s2)
            | (True, s2) \<Rightarrow>
               (case ge_connect env admin_addr (kc_gobgp_admin_port c) of
                  Inl _ \<Rightarrow> (Logging, s2)
                | Inr engine \<Rightarrow>
                   (case bgp_start engine (engine_global c local_ip) s2 of
                      (Inl _, s3) \<Rightarrow> (Logging, s3)
                    | (Inr _, s3) \<Rightarrow> (Gobgp engine, s3)))))"


section \<open>Properties\<close>

text \<open>The parsed addresses of a family and kind, in order, and the one a node is known by.\<close>

definition addrs_of :: "ip_family \<Rightarrow> node_address_type \<Rightarrow> node_address list \<Rightarrow> ip_addr list" where
  "addrs_of f k as = List.map_filter (\<lambda>a. if na_kind a = k
     then (case parse_ip (na_address a) of Inr ip \<Rightarrow> if of_addr ip = f then Some ip else None | Inl _ \<Rightarrow> None) else None) as"

definition best_addr :: "ip_family \<Rightarrow> node_address list \<Rightarrow> ip_addr option" where
  "best_addr f as = (case addrs_of f Internal as of
     ip # _ \<Rightarrow> Some ip | [] \<Rightarrow> (case addrs_of f External as of ip # _ \<Rightarrow> Some ip | [] \<Rightarrow> None))"

definition best_rank :: "ip_family \<Rightarrow> node_address list \<Rightarrow> u8" where
  "best_rank f as = (if addrs_of f Internal as \<noteq> [] then 0 else if addrs_of f External as \<noteq> [] then 1 else 255)"

lemma addrs_of_append: "addrs_of f k (as @ bs) = addrs_of f k as @ addrs_of f k bs"
  by (simp add: addrs_of_def List.map_filter_def)

lemma addrs_of_single:
  "addrs_of f k [a] = (if na_kind a = k
     then (case parse_ip (na_address a) of Inr ip \<Rightarrow> if of_addr ip = f then [ip] else [] | Inl _ \<Rightarrow> []) else [])"
  by (auto simp: addrs_of_def List.map_filter_def split: sum.splits)

lemma select_fold:
  "fold select_step as (\<lparr> ni_v4 = None, ni_v6 = None \<rparr>, 255, 255)
     = (\<lparr> ni_v4 = best_addr V4 as, ni_v6 = best_addr V6 as \<rparr>, best_rank V4 as, best_rank V6 as)"
proof (induction as rule: rev_induct)
  case Nil
  then show ?case by (simp add: best_addr_def best_rank_def addrs_of_def List.map_filter_def)
next
  case (snoc a as)
  have "select_step a (\<lparr> ni_v4 = best_addr V4 as, ni_v6 = best_addr V6 as \<rparr>, best_rank V4 as, best_rank V6 as)
    = (\<lparr> ni_v4 = best_addr V4 (as @ [a]), ni_v6 = best_addr V6 (as @ [a]) \<rparr>, best_rank V4 (as @ [a]), best_rank V6 (as @ [a]))"
  proof (cases "parse_ip (na_address a)")
    case (Inl e)
    then have e: "addrs_of f k (as @ [a]) = addrs_of f k as" for f k
      by (simp add: addrs_of_append addrs_of_single)
    have "best_addr f (as @ [a]) = best_addr f as" "best_rank f (as @ [a]) = best_rank f as" for f
      unfolding best_addr_def best_rank_def e by (rule refl)+
    with Inl show ?thesis by (simp add: select_step_def)
  next
    case (Inr ip)
    show ?thesis
      by (cases "na_kind a"; cases "of_addr ip")
         (auto simp: Inr select_step_def best_addr_def best_rank_def addrs_of_append addrs_of_single Let_def
           split: list.splits)
  qed
  with snoc show ?case by simp
qed

text \<open>A node is known by its first internal address of a family, by its first external one when it has no internal one, and by
  none otherwise, whatever the order of its addresses; host names and texts that are no addresses do not count.\<close>

theorem select_node_ips_prefers_internal:
  "select_node_ips as = \<lparr> ni_v4 = best_addr V4 as, ni_v6 = best_addr V6 as \<rparr>"
  by (simp add: select_node_ips_def select_fold)

lemma collect_Inl: "Inl e \<in> set rs \<Longrightarrow> \<exists>e'. collect rs = Inl e'"
  by (induction rs rule: collect.induct) (auto split: sum.splits)


lemma read_digits_rest: "read_digits r v n s = (w, m, rest) \<Longrightarrow> set s = {c \<in> set s. to_digit r c \<noteq> None} \<union> set rest"
  by (induction r v n s rule: read_digits.induct) (auto split: option.splits)

lemma parse_uint_chars:
  assumes "parse_uint bound s = Some v" "c \<in> set s"
  shows "c = CHR ''+'' \<or> to_digit 10 c \<noteq> None"
proof -
  let ?ds = "if s \<noteq> [] \<and> hd s = CHR ''+'' then tl s else s"
  from assms(1) obtain w n where "read_digits 10 0 0 ?ds = (w, n, [])"
    by (auto simp: parse_uint_def Let_def split: prod.splits if_splits)
  then have "set ?ds \<subseteq> {c. to_digit 10 c \<noteq> None}"
    using read_digits_rest by fastforce
  then show ?thesis using assms(2) by (cases s) (auto split: if_splits)
qed

lemma parse_u32_no_colon: "CHR '':'' \<in> set s \<Longrightarrow> parse_u32 s = None"
  using parse_uint_chars [of "2 ^ 32" s _ "CHR '':''"] by (cases "parse_uint (2 ^ 32) s") (auto simp: parse_u32_def to_digit_def)

lemma parse_community_well_known:
  assumes "trim t \<in> set WELL_KNOWN_COMMUNITIES"
  shows "\<exists>e. parse_community t = Inl e"
proof -
  have "list_all (\<lambda>n. split_once CHR '':'' n = None \<and> parse_u32 n = None) WELL_KNOWN_COMMUNITIES"
    by (simp add: WELL_KNOWN_COMMUNITIES_def parse_u32_def parse_uint_def to_digit_def)
  with assms show ?thesis by (auto simp: list_all_iff parse_community_def)
qed

text \<open>The two readings of a community token agree up to the well-known names: the annotation parser accepts a token exactly
  when the policy parser can turn it into a number, or when it is one of the names, for none of which the policy
  parser has a number.\<close>

theorem community_readings_agree:
  "(validate_community t \<longleftrightarrow> trim t \<in> set WELL_KNOWN_COMMUNITIES \<or> (\<exists>v. parse_community t = Inr v))
   \<and> \<not> (trim t \<in> set WELL_KNOWN_COMMUNITIES \<and> (\<exists>v. parse_community t = Inr v))"
proof
  have "(parse_u32 (trim t) \<noteq> None \<or> (case split_once CHR '':'' (trim t) of
          Some (a, b) \<Rightarrow> parse_u16 a \<noteq> None \<and> parse_u16 b \<noteq> None | None \<Rightarrow> False))
      \<longleftrightarrow> (\<exists>v. parse_community t = Inr v)"
  proof (cases "split_once CHR '':'' (trim t)")
    case None
    then show ?thesis by (cases "parse_u32 (trim t)") (simp_all add: parse_community_def)
  next
    case (Some p)
    then have "CHR '':'' \<in> set (trim t)" using split_once_Some by (cases p) fastforce
    from parse_u32_no_colon [OF this] Some show ?thesis
      by (cases p) (auto simp: parse_community_def split: option.splits)
  qed
  then show "validate_community t \<longleftrightarrow> trim t \<in> set WELL_KNOWN_COMMUNITIES \<or> (\<exists>v. parse_community t = Inr v)"
    by (auto simp: validate_community_def Let_def)
  show "\<not> (trim t \<in> set WELL_KNOWN_COMMUNITIES \<and> (\<exists>v. parse_community t = Inr v))"
    using parse_community_well_known [of t] by auto
qed

text \<open>One community that the policy parser does not know takes the whole policy of the node with it: the prefixes whose import the
  node is to reject and the path prepending are dropped as well, and every learned route is imported.\<close>

theorem bad_community_drops_policy:
  assumes "find_node nodes name = Some n"
    and "ann_get (kno_meta n) ''kube-router.io/node.bgp.communities'' = Some s"
    and "t \<in> set (comma_tokens s)" and "parse_community t = Inl e"
  shows "local_node_bgp_policy parse_net nodes name = default_policy
    \<and> is_rejected api (with_import_reject (bc_import_reject (local_node_bgp_policy parse_net nodes name)) i) p = False"
proof -
  obtain e' where "parse_communities s = Inl e'"
    unfolding parse_communities_def using collect_Inl [of e] assms(3,4) by (metis image_eqI list.set_map)
  moreover obtain anns where "km_annotations (kno_meta n) = Some anns" "map_of anns ''kube-router.io/node.bgp.communities'' = Some s"
    using assms(2) by (cases "km_annotations (kno_meta n)") (auto simp: ann_get_def)
  ultimately have d: "local_node_bgp_policy parse_net nodes name = default_policy"
    using assms(1) by (simp add: local_node_bgp_policy_def from_annotations_def)
  then show ?thesis
    by (simp add: default_policy_def is_rejected_def with_import_reject_def)
qed

text \<open>The speaker of a node is started with the AS number of the cluster, while every other node expects the one its annotation
  gives it: a session between them is configured with an AS number that the node does not announce.\<close>

theorem annotated_asn_not_announced:
  assumes "node_to_bgp parse_net yaml (kc_cluster_asn c) node = Some nb"
    and "ann_get (kno_meta node) ''kube-router.io/node.asn'' = Some s" and "parse_u32 (trim s) = Some a" and "a \<noteq> kc_cluster_asn c"
    and "peer_with other full_mesh nb = Some p"
  shows "pc_peer_asn (to_peer_config gr p) \<noteq> gc_asn (engine_global c local_ip)"
proof -
  obtain anns where "km_annotations (kno_meta node) = Some anns" "map_of anns ''kube-router.io/node.asn'' = Some s"
    using assms(2) by (cases "km_annotations (kno_meta node)") (auto simp: ann_get_def)
  then have "nb_asn nb = a"
    using assms(1,3) by (auto simp: node_to_bgp_def bind_eq_Some_conv Let_def parse_node_bgp_def)
  then show ?thesis
    using assms(4,5) by (auto simp: peer_with_def Let_def to_peer_config_def engine_global_def split: if_splits)
qed

text \<open>The router id of the configuration, which validation demands for a cluster with IPv6 only, does not reach the speaker.\<close>

theorem router_id_not_passed:
  "is_ipv6 ip \<Longrightarrow> gc_router_id (engine_global (c \<lparr> kc_router_id := rid \<rparr>) (Some ip)) = None"
  by (simp add: engine_global_def opt_filter_def)

text \<open>Peer addresses without AS numbers pass validation, and then no external peer is configured.\<close>

theorem peers_without_asns_ignored:
  "kc_peer_router_ips c \<noteq> [] \<Longrightarrow> kc_peer_router_asns c = [] \<Longrightarrow> config_external_peers yaml_entries c ip None = []"
  by (simp add: config_external_peers_def zip_peers_def Let_def)

text \<open>A node with an AS number, a community list with a well-known name and a prefix to reject.\<close>

definition demo_node :: k8s_node where
  "demo_node =
     \<lparr> kno_meta = \<lparr> km_name = Some ''n1'', km_namespace = None, km_labels = None,
         km_annotations = Some [(''kube-router.io/node.asn'', ''64513''),
           (''kube-router.io/node.bgp.communities'', ''65000:1,no-export''),
           (''kube-router.io/node.bgp.customimportreject'', ''10.0.0.0/8'')] \<rparr>,
       kno_pod_cidr = None, kno_pod_cidrs = None, kno_addresses = Some [(''InternalIP'', ''192.168.0.1'')] \<rparr>"

lemma demo_node_facts:
  "find_node [demo_node] ''n1'' = Some demo_node"
  "ann_get (kno_meta demo_node) ''kube-router.io/node.bgp.communities'' = Some ''65000:1,no-export''"
  "ann_get (kno_meta demo_node) ''kube-router.io/node.asn'' = Some ''64513''"
  "ann_get (kno_meta demo_node) ''kube-router.io/node.bgp.customimportreject'' = Some ''10.0.0.0/8''"
  "''no-export'' \<in> set (comma_tokens ''65000:1,no-export'')"
  "primary_ip demo_node = Some (AddrV4 0xC0A80001)"
  by code_simp+

theorem bad_community_drops_policy_witness:
  "local_node_bgp_policy cidr_parse [demo_node] ''n1'' = default_policy
   \<and> parse_import_reject cidr_parse ''10.0.0.0/8'' = [Cidr4 0x0A000000 8]"
proof
  have "trim ''no-export'' \<in> set WELL_KNOWN_COMMUNITIES" by code_simp
  then obtain e where e: "parse_community ''no-export'' = Inl e"
    using parse_community_well_known by blast
  show "local_node_bgp_policy cidr_parse [demo_node] ''n1'' = default_policy"
    using bad_community_drops_policy [OF demo_node_facts(1,2,5) e, where parse_net = cidr_parse] by blast
  show "parse_import_reject cidr_parse ''10.0.0.0/8'' = [Cidr4 0x0A000000 8]" by code_simp
qed

lemma parse_64513: "parse_u32 (trim ''64513'') = Some 64513"
  by (simp add: parse_u32_def parse_uint_def trim_def is_space_def to_digit_def)

theorem annotated_asn_not_announced_witness:
  "\<exists>nb p. node_to_bgp cidr_parse (\<lambda>_. None) 64512 demo_node = Some nb
     \<and> peer_with \<lparr> nb_name = ''n2'', nb_ip = AddrV4 0xC0A80002, nb_asn = 64512, nb_rr_server = None, nb_rr_client = None \<rparr> True nb = Some p
     \<and> pc_peer_asn (to_peer_config None p) \<noteq> gc_asn (engine_global demo_config (Some (AddrV4 0xC0A80001)))"
proof -
  let ?o = "\<lparr> nb_name = ''n2'', nb_ip = AddrV4 0xC0A80002, nb_asn = 64512, nb_rr_server = None, nb_rr_client = None \<rparr>"
  have c: "kc_cluster_asn demo_config = 64512" by (simp add: demo_config_def default_config_def)
  have "km_name (kno_meta demo_node) = Some ''n1''" by (simp add: demo_node_def)
  then obtain nb where nb: "node_to_bgp cidr_parse (\<lambda>_. None) (kc_cluster_asn demo_config) demo_node = Some nb"
    using demo_node_facts(6) by (simp add: node_to_bgp_def Let_def)
  obtain p where p: "peer_with ?o True nb = Some p" by (simp add: peer_with_def)
  have "(64513 :: u32) \<noteq> kc_cluster_asn demo_config" by (simp add: c)
  with annotated_asn_not_announced [OF nb demo_node_facts(3) parse_64513 _ p] nb p c show ?thesis by auto
qed


end
