(* ===== verification/Kr_Health.thy ===== *)
theory Kr_Health
  imports Kr_Config
begin

text \<open>
  Heartbeats of the controllers and the health endpoint (\<^verbatim>\<open>crates/observability/src/health.rs\<close>), and the orchestration helpers
  that decide which controllers are watched (\<^verbatim>\<open>crates/kube-router-rs/src/orchestrate.rs\<close>). Instants and durations
  are nanoseconds; subtraction of instants saturates at zero, as \<^verbatim>\<open>saturating_duration_since\<close> does.
\<close>

section \<open>Heartbeats\<close>

datatype agent_component =
  NetworkRoutes | LoadBalancer | NetworkPolicyC | NetworkServices | Hairpin | Metrics | RouteSync

definition GRACE :: nat where "GRACE = 1500 * 10 ^ 6"

record component_health =
  ch_last :: nat
  ch_registered :: nat
  ch_sync_period :: nat
  ch_ttl :: "nat option"

definition window :: "component_health \<Rightarrow> nat" where
  "window h = ch_sync_period h + (case ch_ttl h of Some t \<Rightarrow> t | None \<Rightarrow> 0) + GRACE"

text \<open>The map of components; its order is that of the hash map, and nothing below depends on it.\<close>

type_synonym health_state = "(agent_component \<times> component_health) list"

definition health_register :: "agent_component \<Rightarrow> nat \<Rightarrow> nat \<Rightarrow> health_state \<Rightarrow> health_state" where
  "health_register c sync_period now h =
     AList.update c \<lparr> ch_last = now, ch_registered = now, ch_sync_period = sync_period, ch_ttl = None \<rparr> h"

definition beat_component :: "nat \<Rightarrow> component_health \<Rightarrow> component_health" where
  "beat_component now x =
     (let x = (if ch_ttl x = None then x \<lparr> ch_ttl := Some (now - ch_registered x) \<rparr> else x) in x \<lparr> ch_last := now \<rparr>)"

definition heartbeat :: "agent_component \<Rightarrow> nat \<Rightarrow> health_state \<Rightarrow> health_state" where
  "heartbeat c now h = map (\<lambda>(k, x). (k, if k = c then beat_component now x else x)) h"

definition stale_components :: "nat \<Rightarrow> health_state \<Rightarrow> (agent_component \<times> nat) list" where
  "stale_components now h =
     List.map_filter (\<lambda>(c, x). let since = now - ch_last x in if since > window x then Some (c, since) else None) h"

definition is_healthy :: "nat \<Rightarrow> health_state \<Rightarrow> bool" where
  "is_healthy now h = (stale_components now h = [])"

definition healthz_response :: "nat \<Rightarrow> health_state \<Rightarrow> nat \<times> string" where
  "healthz_response now h = (if stale_components now h = [] then (200, ''OK'') else (500, ''Unhealthy''))"

section \<open>Orchestration\<close>

datatype not_root = NotRoot u32

definition require_root :: "u32 \<Rightarrow> not_root + unit" where
  "require_root euid = (if euid = 0 then Inr () else Inl (NotRoot euid))"

definition components_for :: "kube_router_config \<Rightarrow> (agent_component \<times> nat) list" where
  "components_for c =
     (if kc_run_router c then [(NetworkRoutes, kc_routes_sync_period c), (RouteSync, kc_routes_sync_period c)] else [])
     @ (if kc_run_firewall c then [(NetworkPolicyC, kc_iptables_sync_period c)] else [])
     @ (if kc_run_service_proxy c then [(NetworkServices, kc_ipvs_sync_period c)] else [])
     @ (if kc_run_loadbalancer c then [(LoadBalancer, kc_loadbalancer_sync_period c)] else [])"

definition enabled_controllers :: "kube_router_config \<Rightarrow> string list" where
  "enabled_controllers c =
     (if kc_run_router c then [''router (BGP + routes)''] else [])
     @ (if kc_run_firewall c then [''firewall (network policy)''] else [])
     @ (if kc_run_service_proxy c then [''service-proxy (IPVS)''] else [])
     @ (if kc_run_loadbalancer c then [''loadbalancer-allocator''] else [])"

definition bind_addr :: "string \<Rightarrow> u16 \<Rightarrow> string" where
  "bind_addr host port = (if host = [] then ''0.0.0.0'' else host) @ '':'' @ show_nat (unat port)"

text \<open>Registration at start-up (\<^verbatim>\<open>main.rs\<close>).\<close>

definition register_all :: "kube_router_config \<Rightarrow> nat \<Rightarrow> health_state" where
  "register_all c now = fold (\<lambda>(comp, period). health_register comp period now) (components_for c) []"

section \<open>What the endpoint says\<close>

text \<open>The times at which a component beat, in a sequence of heartbeats.\<close>

type_synonym beats = "(agent_component \<times> nat) list"

definition beats_of :: "agent_component \<Rightarrow> beats \<Rightarrow> nat list" where
  "beats_of c es = map snd (filter (\<lambda>(k, _). k = c) es)"

definition beat_all :: "beats \<Rightarrow> health_state \<Rightarrow> health_state" where
  "beat_all es h = fold (\<lambda>(c, t). heartbeat c t) es h"

text \<open>The record of a component after its beats.\<close>

definition after_beats :: "nat list \<Rightarrow> component_health \<Rightarrow> component_health" where
  "after_beats ts x = fold beat_component ts x"

lemma beat_all_map: "beat_all es h = map (\<lambda>(k, x). (k, after_beats (beats_of k es) x)) h"
  by (induction es arbitrary: h) (auto simp: beat_all_def after_beats_def beats_of_def heartbeat_def split: prod.splits)

lemma after_beats_fields:
  "after_beats ts x = x \<lparr> ch_last := last (ch_last x # ts),
     ch_ttl := (case ch_ttl x of Some t \<Rightarrow> Some t | None \<Rightarrow> (case ts of [] \<Rightarrow> None | t # _ \<Rightarrow> Some (t - ch_registered x))) \<rparr>"
proof (induction ts arbitrary: x)
  case Nil
  then show ?case by (simp add: after_beats_def split: option.splits)
next
  case (Cons t ts)
  have "after_beats (t # ts) x = after_beats ts (beat_component t x)" by (simp add: after_beats_def)
  also have "\<dots> = x \<lparr> ch_last := last (ch_last x # t # ts),
     ch_ttl := (case ch_ttl x of Some t \<Rightarrow> Some t | None \<Rightarrow> Some (t - ch_registered x)) \<rparr>"
    by (cases "ch_ttl x") (simp_all add: Cons beat_component_def Let_def)
  finally show ?case by (cases "ch_ttl x") simp_all
qed

lemma distinct_components: "distinct (map fst (components_for c))"
  by (auto simp: components_for_def)

lemma update_new: "k \<notin> fst ` set h \<Longrightarrow> AList.update k v h = h @ [(k, v)]"
  by (induction h) auto

lemma register_fold:
  "distinct (map fst cs) \<Longrightarrow> fst ` set cs \<inter> fst ` set h = {} \<Longrightarrow>
   fold (\<lambda>(comp, period). health_register comp period now) cs h
     = h @ map (\<lambda>(comp, period). (comp, \<lparr> ch_last = now, ch_registered = now, ch_sync_period = period, ch_ttl = None \<rparr>)) cs"
proof (induction cs arbitrary: h)
  case (Cons x cs)
  obtain k p where x: "x = (k, p)" by (cases x)
  let ?e = "(k, \<lparr> ch_last = now, ch_registered = now, ch_sync_period = p, ch_ttl = None \<rparr>)"
  have reg: "health_register k p now h = h @ [?e]"
    using Cons.prems by (auto simp: x health_register_def intro: update_new)
  have "fst ` set cs \<inter> fst ` set (h @ [?e]) = {}" using Cons.prems by (auto simp: x)
  with Cons.prems show ?case by (simp add: x reg Cons.IH)
qed simp

lemma stale_none: "stale_components now h = [] \<longleftrightarrow> list_all (\<lambda>(_, x). now - ch_last x \<le> window x) h"
  by (induction h) (auto simp: stale_components_def List.map_filter_simps Let_def split: if_splits)

lemma healthz_of_beats:
  "healthz_response now (beat_all es (register_all c t0)) =
     (if list_all (\<lambda>(comp, period). let ts = beats_of comp es in
           now - last (t0 # ts) \<le> period + (case ts of [] \<Rightarrow> 0 | t # _ \<Rightarrow> t - t0) + GRACE) (components_for c)
      then (200, ''OK'') else (500, ''Unhealthy''))"
proof -
  have r: "register_all c t0 = map (\<lambda>(comp, period).
      (comp, \<lparr> ch_last = t0, ch_registered = t0, ch_sync_period = period, ch_ttl = None \<rparr>)) (components_for c)"
    unfolding register_all_def by (subst register_fold) (simp_all add: distinct_components)
  have "stale_components now (beat_all es (register_all c t0)) = [] \<longleftrightarrow>
      list_all (\<lambda>(comp, period). let ts = beats_of comp es in
           now - last (t0 # ts) \<le> period + (case ts of [] \<Rightarrow> 0 | t # _ \<Rightarrow> t - t0) + GRACE) (components_for c)"
    unfolding r beat_all_map stale_none list.pred_map
    by (intro list.pred_cong refl) (auto simp: Let_def after_beats_fields window_def split: list.split)
  then show ?thesis by (simp add: healthz_response_def)
qed

text \<open>The health endpoint of the agent answers 200 exactly when every controller that is enabled has beaten recently enough: since its last
  beat (or its registration) no more time has passed than its sync period, the time it took to its first
  beat, and the grace of one and a half seconds.\<close>

theorem healthz_tracks_heartbeats:
  "healthz_response now (beat_all es (register_all c t0)) =
     (if list_all (\<lambda>(comp, period). let ts = beats_of comp es in
           now - last (t0 # ts) \<le> period + (case ts of [] \<Rightarrow> 0 | t # _ \<Rightarrow> t - t0) + GRACE) (components_for c)
      then (200, ''OK'') else (500, ''Unhealthy''))"
  by (rule healthz_of_beats)

end
