(* ===== verification/Kr_Cleanup.thy ===== *)
theory Kr_Cleanup
  imports Kr_Config Kr_Netlink Kr_ProxyRules Kr_NetpolSynth
begin

text \<open>
  The programs the agent starts on the host, and its teardown. First the command implementations of the network
  policy sync (\<^verbatim>\<open>SystemIptables\<close> and \<^verbatim>\<open>SystemIpset\<close> of \<^verbatim>\<open>crates/netpol/src\<close>), then \<^verbatim>\<open>crates/kube-router-rs/src/cleanup.rs\<close>: the
  ordered plan, its tolerant execution and the sweep of the dynamically named chains. Starting a program is a parameter;
  the locale \<open>host_tools\<close> adds to the contract of iptables what its documentation says about deleting a chain.
\<close>

section \<open>Programs\<close>

record process_output =
  po_success :: bool
  po_stdout :: string
  po_stderr :: string

text \<open>A program may fail to start, to take its input or to be waited for.\<close>

datatype proc_error = SpawnFailed string | WriteFailed string | WaitFailed string

type_synonym 's spawn = "string \<Rightarrow> string list \<Rightarrow> string \<Rightarrow> ('s, proc_error, process_output) eff"

fun io_message :: "proc_error \<Rightarrow> string" where
  "io_message (SpawnFailed m) = m"
| "io_message (WriteFailed m) = m"
| "io_message (WaitFailed m) = m"

section \<open>The command implementation of the policy sync\<close>

fun ipt_base :: "ip_family \<Rightarrow> string" where
  "ipt_base V4 = ''iptables''"
| "ipt_base V6 = ''ip6tables''"

text \<open>\<^verbatim>\<open>output().await.map_err(..)\<close>: any error has the one prefix.\<close>

definition run_output :: "'s spawn \<Rightarrow> string \<Rightarrow> string list \<Rightarrow> string \<Rightarrow> ('s, string, process_output) eff" where
  "run_output spawn prog args what = map_fail (\<lambda>e. what @ io_message e) (spawn prog args [])"

definition save_filter :: "'s spawn \<Rightarrow> ip_family \<Rightarrow> ('s, string, string) eff" where
  "save_filter spawn f =
     eff_bind (run_output spawn (ipt_base f @ ''-save'') [''-t'', ''filter''] (''spawn '' @ ipt_base f @ ''-save: '')) (\<lambda>out.
       if \<not> po_success out then eff_fail (trim (po_stderr out)) else eff_ok (po_stdout out))"

fun restore_error :: "string \<Rightarrow> string \<Rightarrow> string \<Rightarrow> proc_error \<Rightarrow> string" where
  "restore_error sp wr wt (SpawnFailed m) = sp @ m"
| "restore_error sp wr wt (WriteFailed m) = wr @ m"
| "restore_error sp wr wt (WaitFailed m) = wt @ m"

definition restore_filter :: "'s spawn \<Rightarrow> ip_family \<Rightarrow> string \<Rightarrow> ('s, string, unit) eff" where
  "restore_filter spawn f table_doc =
     eff_bind (map_fail (restore_error (''spawn '' @ ipt_base f @ ''-restore: '') ''write restore doc: '' ''wait restore: '')
         (spawn (ipt_base f @ ''-restore'') [''--wait'', ''-T'', ''filter'', ''--noflush''] table_doc)) (\<lambda>out.
       if \<not> po_success out then eff_fail (trim (po_stderr out)) else eff_ok ())"

definition ensure_jump :: "'s spawn \<Rightarrow> ip_family \<Rightarrow> string \<Rightarrow> string \<Rightarrow> ('s, string, unit) eff" where
  "ensure_jump spawn f builtin target =
     eff_bind (run_output spawn (ipt_base f) [''-w'', ''-C'', builtin, ''-j'', target] (''spawn '' @ ipt_base f @ '' -C: '')) (\<lambda>check.
       if po_success check then eff_ok ()
       else eff_bind (run_output spawn (ipt_base f) [''-w'', ''-I'', builtin, ''1'', ''-j'', target]
              (''spawn '' @ ipt_base f @ '' -I: '')) (\<lambda>ins.
         if \<not> po_success ins then eff_fail (trim (po_stderr ins)) else eff_ok ()))"

definition ipset_restore :: "'s spawn \<Rightarrow> string \<Rightarrow> ('s, string, unit) eff" where
  "ipset_restore spawn payload =
     eff_bind (map_fail (restore_error ''spawn ipset restore: '' ''write payload: '' ''wait ipset: '')
         (spawn ''ipset'' [''restore'', ''-exist''] payload)) (\<lambda>out.
       if \<not> po_success out then eff_fail (trim (po_stderr out)) else eff_ok ())"

definition ipset_destroy :: "'s spawn \<Rightarrow> string \<Rightarrow> ('s, string, unit) eff" where
  "ipset_destroy spawn name =
     eff_bind (run_output spawn ''ipset'' [''destroy'', name] ''spawn ipset destroy: '') (\<lambda>out.
       if po_success out \<or> str_contains (po_stderr out) ''does not exist'' then eff_ok ()
       else eff_fail (trim (po_stderr out)))"

definition system_firewall_ops :: "'s spawn \<Rightarrow> 's firewall_ops" where
  "system_firewall_ops spawn = \<lparr> fo_ipset_restore = ipset_restore spawn, fo_restore_filter = restore_filter spawn,
     fo_ensure_jump = ensure_jump spawn \<rparr>"

section \<open>The teardown plan\<close>

record cleanup_cmd =
  cc_desc :: string
  cc_prog :: string
  cc_args :: "string list"

definition ccmd :: "string \<Rightarrow> string \<Rightarrow> string list \<Rightarrow> cleanup_cmd" where
  "ccmd desc prog args = \<lparr> cc_desc = desc, cc_prog = prog, cc_args = args \<rparr>"

definition firewall_cmds :: "cleanup_cmd list" where
  "firewall_cmds =
     map (\<lambda>chain. ccmd ''unhook KUBE-ROUTER filter jump'' ''iptables''
            [''-w'', ''-t'', ''filter'', ''-D'', chain, ''-j'', ''KUBE-ROUTER-'' @ chain])
       [''INPUT'', ''FORWARD'', ''OUTPUT'']
     @ concat (map (\<lambda>chain.
         [ccmd ''flush filter chain'' ''iptables'' [''-w'', ''-t'', ''filter'', ''-F'', chain],
          ccmd ''delete filter chain'' ''iptables'' [''-w'', ''-t'', ''filter'', ''-X'', chain]])
       [''KUBE-ROUTER-INPUT'', ''KUBE-ROUTER-FORWARD'', ''KUBE-ROUTER-OUTPUT''])
     @ map (\<lambda>st. ccmd ''destroy ipset'' ''ipset'' [''destroy'', st])
       [''kube-router-local-pods'', ''inet6:kube-router-local-pods'']"

definition service_proxy_cmds :: "cleanup_cmd list" where
  "service_proxy_cmds =
     [ccmd ''clear all IPVS services'' ''ipvsadm'' [''-C''],
      ccmd ''delete kube-dummy-if'' ''ip'' [''link'', ''del'', ''kube-dummy-if''],
      ccmd ''unhook KUBE-ROUTER-SERVICES INPUT jump'' ''iptables''
        [''-w'', ''-t'', ''filter'', ''-D'', ''INPUT'', ''-j'', ''KUBE-ROUTER-SERVICES''],
      ccmd ''flush KUBE-ROUTER-SERVICES'' ''iptables'' [''-w'', ''-t'', ''filter'', ''-F'', ''KUBE-ROUTER-SERVICES''],
      ccmd ''delete KUBE-ROUTER-SERVICES'' ''iptables'' [''-w'', ''-t'', ''filter'', ''-X'', ''KUBE-ROUTER-SERVICES''],
      ccmd ''flush KUBE-ROUTER-HAIRPIN'' ''iptables'' [''-w'', ''-t'', ''nat'', ''-F'', ''KUBE-ROUTER-HAIRPIN''],
      ccmd ''delete KUBE-ROUTER-HAIRPIN'' ''iptables'' [''-w'', ''-t'', ''nat'', ''-X'', ''KUBE-ROUTER-HAIRPIN'']]
     @ map (\<lambda>st. ccmd ''destroy ipset'' ''ipset'' [''destroy'', st])
       [''kube-router-local-ips'', ''kube-router-svip'', ''kube-router-svip-prt'',
        ''inet6:kube-router-local-ips'', ''inet6:kube-router-svip'', ''inet6:kube-router-svip-prt'']"

definition router_cmds :: "cleanup_cmd list" where
  "router_cmds =
     [ccmd ''flush DSR route table'' ''ip'' [''route'', ''flush'', ''table'', ''78''],
      ccmd ''flush external-IP route table'' ''ip'' [''route'', ''flush'', ''table'', ''79''],
      ccmd ''delete DSR ip rule'' ''ip'' [''rule'', ''del'', ''table'', ''78''],
      ccmd ''delete external-IP ip rule'' ''ip'' [''rule'', ''del'', ''table'', ''79''],
      ccmd ''delete kube-tunnel-if'' ''ip'' [''link'', ''del'', ''kube-tunnel-if''],
      ccmd ''delete kube-tunnel-v6'' ''ip'' [''link'', ''del'', ''kube-tunnel-v6'']]"

definition cleanup_plan :: "kube_router_config \<Rightarrow> cleanup_cmd list" where
  "cleanup_plan c =
     (if kc_run_service_proxy c then service_proxy_cmds else [])
     @ (if kc_run_firewall c then firewall_cmds else [])
     @ (if kc_run_router c then router_cmds else [])"

text \<open>Every command is run; what it returns is only logged.\<close>

definition run_plan :: "'s spawn \<Rightarrow> cleanup_cmd list \<Rightarrow> 's \<Rightarrow> 's" where
  "run_plan spawn plan s = fold (\<lambda>c s. snd (spawn (cc_prog c) (cc_args c) [] s)) plan s"

definition swept_chains :: "string \<Rightarrow> string list" where
  "swept_chains doc =
     filter (\<lambda>c. starts_with ''KUBE-POD-FW-'' c \<or> starts_with ''KUBE-NWPLCY-'' c)
       (List.map_filter (\<lambda>l. case split_whitespace l of [] \<Rightarrow> None | w # _ \<Rightarrow> Some w)
         (List.map_filter (strip_prefix '':'') (str_lines doc)))"

definition sweep_chain :: "'s spawn \<Rightarrow> string \<Rightarrow> string \<Rightarrow> 's \<Rightarrow> 's" where
  "sweep_chain spawn bin chain s =
     (let s1 = snd (spawn bin [''-w'', ''-t'', ''filter'', ''-F'', chain] [] s)
      in snd (spawn bin [''-w'', ''-t'', ''filter'', ''-X'', chain] [] s1))"

definition sweep_dynamic_chains :: "'s spawn \<Rightarrow> 's \<Rightarrow> 's" where
  "sweep_dynamic_chains spawn s =
     fold (\<lambda>bin s. case spawn (bin @ ''-save'') [''-t'', ''filter''] [] s of
              (Inl _, s') \<Rightarrow> s'
            | (Inr out, s') \<Rightarrow> fold (sweep_chain spawn bin) (swept_chains (po_stdout out)) s')
       [''iptables'', ''ip6tables''] s"

definition cleanup_run :: "'s spawn \<Rightarrow> kube_router_config \<Rightarrow> 's \<Rightarrow> 's" where
  "cleanup_run spawn c s =
     (let s1 = run_plan spawn (cleanup_plan c) s
      in if kc_run_firewall c then sweep_dynamic_chains spawn s1 else s1)"

section \<open>What the documentation says of the programs\<close>

definition exit_run :: "'s spawn \<Rightarrow> string \<Rightarrow> 's ipt_run" where
  "exit_run spawn bin args s =
     (case spawn bin args [] s of (Inl e, s') \<Rightarrow> (Inl (io_message e), s') | (Inr out, s') \<Rightarrow> (Inr (po_success out), s'))"

fun jumps_to :: "string \<Rightarrow> string list \<Rightarrow> bool" where
  "jumps_to c (x # y # r) = ((x = ''-j'' \<and> y = c) \<or> jumps_to c (y # r))"
| "jumps_to c _ = False"

definition referenced :: "ipt_view \<Rightarrow> string \<Rightarrow> string \<Rightarrow> bool" where
  "referenced v t x = (\<exists>c rs r. v t c = Some rs \<and> r \<in> set rs \<and> jumps_to x r)"

abbreviation ipt_bins :: "string set" where "ipt_bins \<equiv> {''iptables'', ''ip6tables''}"

abbreviation builtin_chains :: "string set" where
  "builtin_chains \<equiv> {''INPUT'', ''FORWARD'', ''OUTPUT'', ''PREROUTING'', ''POSTROUTING''}"

text \<open>
  Each of the two programs keeps the contract of iptables on its own tables; a chain is deleted when it is empty and no
  rule jumps to it; without \<^verbatim>\<open>-t\<close> the table is filter; no other program touches the chains, and a program that could not
  be started did nothing.
\<close>

locale host_tools =
  fixes spawn :: "'s spawn"
    and view :: "'s \<Rightarrow> string \<Rightarrow> ipt_view"
  assumes tables: "bin \<in> ipt_bins \<Longrightarrow> iptables (exit_run spawn bin) (\<lambda>s. view s bin)"
    and delete_chain: "bin \<in> ipt_bins \<Longrightarrow> c \<notin> builtin_chains \<Longrightarrow>
        exit_run spawn bin (on_table t [''-X'', c]) s = (Inr b, s') \<Longrightarrow>
        b = (view s bin t c = Some [] \<and> \<not> referenced (view s bin) t c)
        \<and> view s' bin = (if b then chain_upd (view s bin) t c None else view s bin)"
    and default_table: "bin \<in> ipt_bins \<Longrightarrow> v \<noteq> ''-t'' \<Longrightarrow>
        spawn bin (''-w'' # v # args) x s = spawn bin (on_table ''filter'' (v # args)) x s"
    and other_program: "bin \<in> ipt_bins \<Longrightarrow> prog \<noteq> bin \<Longrightarrow> prog \<noteq> bin @ ''-restore'' \<Longrightarrow>
        view (snd (spawn prog args x s)) bin = view s bin"
    and not_started: "spawn prog args [] s = (Inl e, s') \<Longrightarrow> view s' = view s"

section \<open>What a teardown command can do\<close>

text \<open>The three commands of the teardown on a table.\<close>

inductive teardown :: "string list \<Rightarrow> bool" where
  unhook: "teardown (on_table t (''-D'' # c # args))"
| flush: "teardown (on_table t [''-F'', c])"
| delete: "c \<notin> builtin_chains \<Longrightarrow> teardown (on_table t [''-X'', c])"

text \<open>No chain appears and no rule becomes more frequent.\<close>

definition shrinks :: "ipt_view \<Rightarrow> ipt_view \<Rightarrow> bool" where
  "shrinks v v' = (\<forall>t c rs'. v' t c = Some rs' \<longrightarrow>
     (\<exists>rs. v t c = Some rs \<and> (\<forall>r. count_list rs' r \<le> count_list rs r)))"

lemma shrinks_refl: "shrinks v v"
  by (auto simp: shrinks_def)

lemma shrinks_trans: "shrinks u v \<Longrightarrow> shrinks v w \<Longrightarrow> shrinks u w"
  unfolding shrinks_def by (meson order_trans)

lemma count_remove1: "count_list (remove1 x xs) r \<le> count_list xs r"
  by (induction xs) auto

lemma count_remove1_member: "r \<in> set xs \<Longrightarrow> count_list xs r = Suc (count_list (remove1 r xs) r)"
  by (induction xs) auto

lemma shrinks_upd:
  "(\<And>rs'. x = Some rs' \<Longrightarrow> \<exists>rs. v t c = Some rs \<and> (\<forall>r. count_list rs' r \<le> count_list rs r)) \<Longrightarrow>
   shrinks v (chain_upd v t c x)"
  by (auto simp: shrinks_def chain_upd_def)

lemma shrinks_rules: "shrinks v v' \<Longrightarrow> v' t c = Some rs' \<Longrightarrow> r \<in> set rs' \<Longrightarrow> \<exists>rs. v t c = Some rs \<and> r \<in> set rs"
  unfolding shrinks_def by (metis count_list_0_iff le_zero_eq)

lemma shrinks_referenced: "shrinks v v' \<Longrightarrow> referenced v' t x \<Longrightarrow> referenced v t x"
  unfolding referenced_def by (metis shrinks_rules)

lemma shrinks_gone: "shrinks v v' \<Longrightarrow> v t c = None \<Longrightarrow> v' t c = None"
  unfolding shrinks_def by (metis not_Some_eq)

text \<open>A rule that jumps to an existing chain, and a command that cannot remove it.\<close>

definition hooked :: "ipt_view \<Rightarrow> string \<Rightarrow> string \<Rightarrow> string list \<Rightarrow> string \<Rightarrow> bool" where
  "hooked v t c r x = ((\<exists>rs. v t c = Some rs \<and> r \<in> set rs) \<and> v t x \<noteq> None)"

inductive harmless :: "string \<Rightarrow> string \<Rightarrow> string list \<Rightarrow> string list \<Rightarrow> bool" for t c r where
  unhook: "args \<noteq> r \<Longrightarrow> harmless t c r (on_table t' (''-D'' # c' # args))"
| flush: "t' \<noteq> t \<or> c' \<noteq> c \<Longrightarrow> harmless t c r (on_table t' [''-F'', c'])"
| delete: "c' \<notin> builtin_chains \<Longrightarrow> harmless t c r (on_table t' [''-X'', c'])"

context host_tools
begin

lemmas bin_flush = iptables.flush [OF tables]
lemmas bin_delete_rule = iptables.delete_rule [OF tables]

lemma effect_cases:
  assumes "bin \<in> ipt_bins"
  obtains b where "exit_run spawn bin args s = (Inr b, snd (spawn bin args [] s))"
  | "view (snd (spawn bin args [] s)) bin = view s bin"
proof (cases "spawn bin args [] s")
  case (Pair res s')
  show ?thesis
  proof (cases res)
    case (Inl e)
    then show ?thesis using not_started Pair that(2) by simp
  next
    case (Inr out)
    then show ?thesis using Pair that(1) by (simp add: exit_run_def)
  qed
qed

lemma unhook_effect:
  assumes "bin \<in> ipt_bins"
  shows "view (snd (spawn bin (on_table t (''-D'' # c # args)) [] s)) bin
     \<in> {view s bin, chain_upd (view s bin) t c (map_option (remove1 args) (view s bin t c))}"
  using effect_cases [OF assms, of "on_table t (''-D'' # c # args)" s] bin_delete_rule [OF assms]
  by (metis insertCI)

lemma flush_effect:
  assumes "bin \<in> ipt_bins"
  shows "view (snd (spawn bin (on_table t [''-F'', c]) [] s)) bin
     \<in> {view s bin} \<union> {chain_upd (view s bin) t c (Some []) |x. view s bin t c \<noteq> None}"
proof (rule effect_cases [OF assms, of "on_table t [''-F'', c]" s])
  fix b
  assume "exit_run spawn bin (on_table t [''-F'', c]) s = (Inr b, snd (spawn bin (on_table t [''-F'', c]) [] s))"
  from bin_flush [OF assms this] show ?thesis by auto
qed simp

lemma delete_effect:
  assumes "bin \<in> ipt_bins" "c \<notin> builtin_chains"
  shows "view (snd (spawn bin (on_table t [''-X'', c]) [] s)) bin
     \<in> {view s bin} \<union> {chain_upd (view s bin) t c None |x. view s bin t c = Some [] \<and> \<not> referenced (view s bin) t c}"
proof (rule effect_cases [OF assms(1), of "on_table t [''-X'', c]" s])
  fix b
  assume "exit_run spawn bin (on_table t [''-X'', c]) s = (Inr b, snd (spawn bin (on_table t [''-X'', c]) [] s))"
  from delete_chain [OF assms this] show ?thesis by auto
qed simp

lemma teardown_shrinks:
  assumes "bin \<in> ipt_bins" "teardown args"
  shows "shrinks (view s bin) (view (snd (spawn bin args [] s)) bin)"
  using assms(2)
proof cases
  case (unhook t c args)
  then show ?thesis
    using unhook_effect [OF assms(1), of t c args s]
    by (auto intro!: shrinks_refl shrinks_upd count_remove1)
next
  case (flush t c)
  then show ?thesis
    using flush_effect [OF assms(1), of t c s] by (auto intro!: shrinks_refl shrinks_upd)
next
  case (delete c t)
  then show ?thesis
    using delete_effect [OF assms(1), of c t s] by (auto intro!: shrinks_refl shrinks_upd)
qed

lemma harmless_keeps:
  assumes "bin \<in> ipt_bins" "harmless t c r args" "jumps_to x r" "hooked (view s bin) t c r x"
  shows "hooked (view (snd (spawn bin args [] s)) bin) t c r x"
proof -
  obtain rs where rs: "view s bin t c = Some rs" "r \<in> set rs" "view s bin t x \<noteq> None"
    using assms(4) by (auto simp: hooked_def)
  from assms(2) show ?thesis
  proof cases
    case (unhook a t' c')
    then show ?thesis
      using unhook_effect [OF assms(1), of t' c' a s] rs
      by (auto simp: hooked_def chain_upd_def)
  next
    case (flush t' c')
    then show ?thesis
      using flush_effect [OF assms(1), of t' c' s] rs by (auto simp: hooked_def chain_upd_def)
  next
    case (delete c' t')
    moreover have "referenced (view s bin) t x"
      using rs assms(3) by (auto simp: referenced_def)
    ultimately show ?thesis
      using delete_effect [OF assms(1), of c' t' s] rs by (auto simp: hooked_def chain_upd_def)
  qed
qed

end


section \<open>What the teardown does\<close>

text \<open>Every command of a plan either belongs to another program or is a teardown command of iptables.\<close>

lemma teardown_iff [simp]:
  "teardown (on_table t (''-D'' # c # args))" "teardown (on_table t [''-F'', c])"
  "teardown (on_table t [''-X'', c]) \<longleftrightarrow> c \<notin> builtin_chains"
  by (auto simp: teardown.simps)

definition plan_ok :: "cleanup_cmd list \<Rightarrow> bool" where
  "plan_ok plan = (\<forall>c \<in> set plan. cc_prog c \<in> {''ip'', ''ipset'', ''ipvsadm''} \<or> cc_prog c = ''iptables'' \<and> teardown (cc_args c))"

lemma cleanup_plans_ok: "plan_ok service_proxy_cmds" "plan_ok firewall_cmds" "plan_ok router_cmds"
  by (simp_all add: plan_ok_def service_proxy_cmds_def firewall_cmds_def router_cmds_def ccmd_def teardown_iff [simplified])

lemma plan_ok_append [simp]: "plan_ok (xs @ ys) \<longleftrightarrow> plan_ok xs \<and> plan_ok ys"
  by (auto simp: plan_ok_def)

lemma plan_ok_Nil [simp]: "plan_ok []"
  by (simp add: plan_ok_def)

lemma cleanup_plan_ok: "plan_ok (cleanup_plan c)"
  by (simp add: cleanup_plan_def cleanup_plans_ok)

lemma run_plan_append: "run_plan spawn (xs @ ys) s = run_plan spawn ys (run_plan spawn xs s)"
  by (simp add: run_plan_def)

lemma run_plan_Cons: "run_plan spawn (x # ys) s = run_plan spawn ys (snd (spawn (cc_prog x) (cc_args x) [] s))"
  by (simp add: run_plan_def)

lemma swept_prefix: "c \<in> set (swept_chains doc) \<Longrightarrow> take 5 c = ''KUBE-''"
proof -
  have "strip_prefix (''KUBE-'' @ p) c = Some u \<Longrightarrow> take 5 c = ''KUBE-''" for p u
    by (simp add: strip_prefix_Some)
  from this [of "''POD-FW-''"] this [of "''NWPLCY-''"]
  show "c \<in> set (swept_chains doc) \<Longrightarrow> take 5 c = ''KUBE-''"
    by (auto simp: swept_chains_def starts_with_def)
qed

lemma swept_not_builtin: "c \<in> set (swept_chains doc) \<Longrightarrow> c \<notin> builtin_chains"
  using swept_prefix by fastforce

context host_tools
begin

lemma other_bin: "bin \<in> ipt_bins \<Longrightarrow> prog \<noteq> bin \<Longrightarrow> prog \<in> ipt_bins \<union> {''ip'', ''ipset'', ''ipvsadm''} \<Longrightarrow>
   view (snd (spawn prog args [] s)) bin = view s bin"
  by (rule other_program) auto

lemma save_keeps: "bin \<in> ipt_bins \<Longrightarrow> bin' \<in> ipt_bins \<Longrightarrow> spawn (bin' @ ''-save'') args [] s = (res, s') \<Longrightarrow>
   view s' bin = view s bin"
  using other_program [of bin "bin' @ ''-save''" args "[]" s] by auto

lemma run_plan_shrinks:
  assumes "bin \<in> ipt_bins" "plan_ok plan"
  shows "shrinks (view s bin) (view (run_plan spawn plan s) bin)"
  using assms(2)
proof (induction plan arbitrary: s)
  case (Cons c plan)
  have "shrinks (view s bin) (view (snd (spawn (cc_prog c) (cc_args c) [] s)) bin)"
  proof (cases "cc_prog c = bin")
    case True
    then show ?thesis using Cons.prems assms(1) by (auto simp: plan_ok_def intro: teardown_shrinks)
  next
    case False
    then have "view (snd (spawn (cc_prog c) (cc_args c) [] s)) bin = view s bin"
      using Cons.prems by (intro other_bin [OF assms(1)]) (auto simp: plan_ok_def)
    then show ?thesis by (simp add: shrinks_refl)
  qed
  then show ?case using Cons.IH [of "snd (spawn (cc_prog c) (cc_args c) [] s)"] Cons.prems shrinks_trans
    by (auto simp: run_plan_Cons plan_ok_def)
qed (simp add: run_plan_def shrinks_refl)

text \<open>The sweep applies a list of sweeps of single chains to each program's tables.\<close>

lemma sweep_keeps:
  assumes "bin \<in> ipt_bins"
    and step: "\<And>c s. take 5 c = ''KUBE-'' \<Longrightarrow> P s \<Longrightarrow> P (sweep_chain spawn bin c s)"
    and frame: "\<And>s s'. view s' bin = view s bin \<Longrightarrow> P s = P s'"
    and "P s"
  shows "P (sweep_dynamic_chains spawn s)"
proof -
  have own: "set cs \<subseteq> {c. take 5 c = ''KUBE-''} \<Longrightarrow> P u \<Longrightarrow> P (fold (sweep_chain spawn bin) cs u)" for cs u
    by (induction cs arbitrary: u) (auto intro: step)
  have "view (sweep_chain spawn b c u) bin = view u bin" if "b \<in> ipt_bins" "b \<noteq> bin" for b c u
    using that by (simp add: sweep_chain_def Let_def other_bin [OF assms(1)])
  then have "view (fold (sweep_chain spawn b) cs u) bin = view u bin" if "b \<in> ipt_bins" "b \<noteq> bin" for b cs u
    using that by (induction cs arbitrary: u) auto
  then have foreign: "P u \<Longrightarrow> P (fold (sweep_chain spawn b) cs u)" if "b \<in> ipt_bins" "b \<noteq> bin" for b cs u
    using that frame by blast
  have one: "P u \<Longrightarrow> P (case spawn (b @ ''-save'') [''-t'', ''filter''] [] u of (Inl _, s') \<Rightarrow> s'
        | (Inr out, s') \<Rightarrow> fold (sweep_chain spawn b) (swept_chains (po_stdout out)) s')" if "b \<in> ipt_bins" for b u
  proof (cases "spawn (b @ ''-save'') [''-t'', ''filter''] [] u")
    case (Pair res u')
    assume "P u"
    then have "P u'" using frame save_keeps [OF assms(1) that Pair] by blast
    then have "P (fold (sweep_chain spawn b) (swept_chains doc) u')" for doc
      using own [of "swept_chains doc"] swept_prefix foreign that by (cases "b = bin") auto
    with Pair \<open>P u'\<close> show ?thesis by (cases res) simp_all
  qed
  show ?thesis using one [of "''ip6tables''", OF _ one [of "''iptables''", OF _ assms(4)]] by (simp add: sweep_dynamic_chains_def)
qed

end


text \<open>What the policy sync inserts: the jump, at the top unless it is there already.\<close>

context host_tools
begin

lemma ensure_jump_ok:
  assumes "ensure_jump spawn f b t s = (Inr u, s')"
  obtains rs where "view s (ipt_base f) ''filter'' b = Some rs"
    "view s' (ipt_base f) = chain_upd (view s (ipt_base f)) ''filter'' b
       (Some (if [''-j'', t] \<in> set rs then rs else [''-j'', t] # rs))"
proof -
  let ?b = "ipt_base f" and ?r = "[''-j'', t]"
  have bin: "?b \<in> ipt_bins" by (cases f) simp_all
  have w: "spawn ?b [''-w'', ''-C'', b, ''-j'', t] [] = spawn ?b (on_table ''filter'' (''-C'' # b # ?r)) []"
    "spawn ?b [''-w'', ''-I'', b, ''1'', ''-j'', t] [] = spawn ?b (on_table ''filter'' (''-I'' # b # ''1'' # ?r)) []"
    by (rule ext, rule default_table [OF bin], simp)+
  obtain c s1 where c: "spawn ?b (on_table ''filter'' (''-C'' # b # ?r)) [] s = (Inr c, s1)"
    and rest: "(if po_success c then eff_ok () else eff_bind (run_output spawn ?b [''-w'', ''-I'', b, ''1'', ''-j'', t]
          (''spawn '' @ ?b @ '' -I: '')) (\<lambda>ins. if \<not> po_success ins then eff_fail (trim (po_stderr ins)) else eff_ok ())) s1 = (Inr u, s')"
    using assms unfolding ensure_jump_def run_output_def w by (elim eff_bind_okE map_fail_okE) blast
  have chk: "exit_run spawn ?b (on_table ''filter'' (''-C'' # b # ?r)) s = (Inr (po_success c), s1)"
    using c by (simp add: exit_run_def)
  note check = iptables.check_rule [OF tables [OF bin] chk]
  have idem: "chain_upd v ''filter'' b (Some rs) = v" if "v ''filter'' b = Some rs" for v rs
    using that by (simp add: chain_upd_def fun_upd_idem)
  show ?thesis
  proof (cases "po_success c")
    case True
    then show ?thesis using rest check idem that by (auto simp: eff_ok_def)
  next
    case False
    then obtain i where i: "spawn ?b (on_table ''filter'' (''-I'' # b # ''1'' # ?r)) [] s1 = (Inr i, s')" "po_success i"
      using rest unfolding run_output_def w
      by (auto simp: eff_ok_def eff_fail_def elim!: eff_bind_okE map_fail_okE split: if_splits)
    have "exit_run spawn ?b (on_table ''filter'' (''-I'' # b # ''1'' # ?r)) s1 = (Inr True, s')"
      using i by (simp add: exit_run_def)
    from iptables.insert_rule [OF tables [OF bin] this] check False that show ?thesis by fastforce
  qed
qed

end

text \<open>The rules that hook chains of the agent into the built-in chains and that no command of the teardown removes.\<close>

definition kept_hooks :: "(string \<times> string \<times> string \<times> string list \<times> string) list" where
  "kept_hooks =
     [(''iptables'', ''filter'', ''INPUT'', input_jump_rule False, FIREWALL_CHAIN),
      (''iptables'', ''nat'', ''POSTROUTING'', hairpin_jump_args, HAIRPIN_CHAIN),
      (''ip6tables'', ''filter'', ''INPUT'', input_jump_rule True, FIREWALL_CHAIN),
      (''ip6tables'', ''nat'', ''POSTROUTING'', hairpin_jump_args, HAIRPIN_CHAIN),
      (''ip6tables'', ''filter'', ''INPUT'', [''-j'', ROUTER_INPUT], ROUTER_INPUT),
      (''ip6tables'', ''filter'', ''FORWARD'', [''-j'', ROUTER_FORWARD], ROUTER_FORWARD),
      (''ip6tables'', ''filter'', ''OUTPUT'', [''-j'', ROUTER_OUTPUT], ROUTER_OUTPUT)]"

lemma kept_hooks_facts:
  assumes "(bin, t, c, r, x) \<in> set kept_hooks"
  shows "bin \<in> ipt_bins" "jumps_to x r" "c \<in> builtin_chains" "take 5 x = ''KUBE-''"
    and "bin = ''iptables'' \<Longrightarrow> \<forall>k \<in> set (cleanup_plan cfg). cc_prog k = ''iptables'' \<longrightarrow> harmless t c r (cc_args k)"
proof -
  note defs = kept_hooks_def input_jump_rule_def hairpin_jump_args_def FIREWALL_CHAIN_def HAIRPIN_CHAIN_def
    ROUTER_INPUT_def ROUTER_FORWARD_def ROUTER_OUTPUT_def
  show "bin \<in> ipt_bins" "jumps_to x r" "c \<in> builtin_chains" "take 5 x = ''KUBE-''"
    using assms by (auto simp: defs)
  show "\<forall>k \<in> set (cleanup_plan cfg). cc_prog k = ''iptables'' \<longrightarrow> harmless t c r (cc_args k)" if "bin = ''iptables''"
    using assms that
    by (auto simp: defs cleanup_plan_def service_proxy_cmds_def firewall_cmds_def router_cmds_def ccmd_def harmless.simps
        split: if_splits)
qed

context host_tools
begin

lemma hook_survives_plan:
  assumes "bin \<in> ipt_bins" "jumps_to x r" "plan_ok plan"
    and "\<forall>k \<in> set plan. cc_prog k = bin \<longrightarrow> harmless t c r (cc_args k)"
    and "hooked (view s bin) t c r x"
  shows "hooked (view (run_plan spawn plan s) bin) t c r x"
  using assms(3-)
proof (induction plan arbitrary: s)
  case (Cons k plan)
  have "hooked (view (snd (spawn (cc_prog k) (cc_args k) [] s)) bin) t c r x"
  proof (cases "cc_prog k = bin")
    case True
    then show ?thesis using Cons.prems assms(1,2) by (auto intro: harmless_keeps)
  next
    case False
    then have "view (snd (spawn (cc_prog k) (cc_args k) [] s)) bin = view s bin"
      using Cons.prems by (intro other_bin [OF assms(1)]) (auto simp: plan_ok_def)
    then show ?thesis using Cons.prems by simp
  qed
  then show ?case using Cons by (simp add: run_plan_Cons plan_ok_def)
qed (simp add: run_plan_def)

lemma hook_survives_chain:
  assumes "bin \<in> ipt_bins" "jumps_to x r" "k \<noteq> c" "k \<notin> builtin_chains" "hooked (view s bin) t c r x"
  shows "hooked (view (sweep_chain spawn bin k s) bin) t c r x"
  unfolding sweep_chain_def Let_def
  using harmless_keeps [OF assms(1) harmless.delete [OF assms(4)] assms(2)]
    harmless_keeps [OF assms(1) harmless.flush assms(2) assms(5)] assms(3) by (metis append_Cons append_Nil)

lemma kube_not_builtin: "take 5 k = ''KUBE-'' \<Longrightarrow> k \<notin> builtin_chains"
  by auto

lemma hook_survives_cleanup:
  assumes "(bin, t, c, r, x) \<in> set kept_hooks" "hooked (view s bin) t c r x"
  shows "hooked (view (cleanup_run spawn cfg s) bin) t c r x"
proof -
  note f = kept_hooks_facts [OF assms(1)]
  have "\<forall>k \<in> set (cleanup_plan cfg). cc_prog k = bin \<longrightarrow> harmless t c r (cc_args k)"
  proof (cases "bin = ''iptables''")
    case False
    then have "cc_prog k \<noteq> bin" if "k \<in> set (cleanup_plan cfg)" for k
      using f(1) that cleanup_plan_ok [of cfg] by (auto simp: plan_ok_def)
    then show ?thesis by blast
  qed (use f(5) in blast)
  then have "hooked (view (run_plan spawn (cleanup_plan cfg) s) bin) t c r x"
    using f(1,2) assms(2) by (intro hook_survives_plan cleanup_plan_ok)
  moreover have "hooked (view (sweep_dynamic_chains spawn u) bin) t c r x" if "hooked (view u bin) t c r x" for u
  proof (rule sweep_keeps [OF f(1)])
    show "hooked (view (sweep_chain spawn bin k w) bin) t c r x" if "take 5 k = ''KUBE-''" "hooked (view w bin) t c r x" for k w
      using that kube_not_builtin f(3) hook_survives_chain [OF f(1,2), of k c w t] by metis
  qed (use that in simp_all)
  ultimately show ?thesis by (simp add: cleanup_run_def Let_def)
qed

text \<open>A chain is kept by the sweep when a chain that comes later in the list still jumps to it.\<close>

lemma chain_survives_sweeps:
  assumes "bin \<in> ipt_bins" "set cs \<subseteq> - builtin_chains" "p \<notin> set cs" "view s bin t p \<noteq> None"
  shows "view (fold (sweep_chain spawn bin) cs s) bin t p \<noteq> None"
  using assms(2-)
proof (induction cs arbitrary: s)
  case (Cons k cs)
  let ?s1 = "snd (spawn bin (on_table ''filter'' [''-F'', k]) [] s)"
  have "view ?s1 bin t p \<noteq> None"
    using flush_effect [OF assms(1), of "''filter''" k s] Cons.prems by (auto simp: chain_upd_def)
  then have "view (snd (spawn bin (on_table ''filter'' [''-X'', k]) [] ?s1)) bin t p \<noteq> None"
    using delete_effect [OF assms(1), of k "''filter''" ?s1] Cons.prems by (auto simp: chain_upd_def)
  then have "view (sweep_chain spawn bin k s) bin t p \<noteq> None" by (simp add: sweep_chain_def Let_def)
  then show ?case using Cons by simp
qed simp

lemma hook_survives_sweeps:
  assumes "bin \<in> ipt_bins" "jumps_to x r" "set cs \<subseteq> - builtin_chains" "c \<notin> set cs" "hooked (view s bin) t c r x"
  shows "hooked (view (fold (sweep_chain spawn bin) cs s) bin) t c r x"
  using assms(3-)
proof (induction cs arbitrary: s)
  case (Cons k cs)
  then have "hooked (view (sweep_chain spawn bin k s) bin) t c r x"
    by (intro hook_survives_chain assms(1,2)) auto
  then show ?case using Cons by simp
qed simp

lemma swept_early_survives:
  assumes save: "spawn ''iptables-save'' [''-t'', ''filter''] [] s = (Inr out, s1)"
    and list: "swept_chains (po_stdout out) = pre @ p # rest" "distinct (pre @ p # rest)" "q \<in> set rest"
    and hook: "hooked (view s ''iptables'') ''filter'' q r p" "jumps_to p r"
  shows "view (sweep_dynamic_chains spawn s) ''iptables'' ''filter'' p \<noteq> None"
proof -
  have sub: "set (pre @ p # rest) \<subseteq> - builtin_chains" using swept_not_builtin list(1) by (metis ComplI subsetI)
  have v1: "view s1 ''iptables'' = view s ''iptables''"
    using save_keeps [of "''iptables''" "''iptables''"] save by simp
  let ?sweep = "\<lambda>bin. fold (sweep_chain spawn bin)"
  have "hooked (view (?sweep ''iptables'' (pre @ [p]) s1) ''iptables'') ''filter'' q r p"
    using sub list(2,3) hook v1 by (intro hook_survives_sweeps) (auto simp del: fold_append)
  then have "view (?sweep ''iptables'' rest (?sweep ''iptables'' (pre @ [p]) s1)) ''iptables'' ''filter'' p \<noteq> None"
    using sub list(2) by (subst chain_survives_sweeps) (auto simp: hooked_def simp del: fold_append)
  then have a: "view (?sweep ''iptables'' (pre @ p # rest) s1) ''iptables'' ''filter'' p \<noteq> None" by simp
  define u where "u = ?sweep ''iptables'' (pre @ p # rest) s1"
  have "view (sweep_chain spawn ''ip6tables'' k w) ''iptables'' = view w ''iptables''" for k w
    by (simp add: sweep_chain_def Let_def other_bin)
  then have v6: "view (?sweep ''ip6tables'' cs w) ''iptables'' = view w ''iptables''" for cs w
    by (induction cs arbitrary: w) auto
  have sw: "sweep_dynamic_chains spawn s = (case spawn ''ip6tables-save'' [''-t'', ''filter''] [] u of (Inl _, s') \<Rightarrow> s'
      | (Inr out, s') \<Rightarrow> ?sweep ''ip6tables'' (swept_chains (po_stdout out)) s')"
    using save list(1) by (simp add: sweep_dynamic_chains_def u_def)
  obtain res u' where 6: "spawn ''ip6tables-save'' [''-t'', ''filter''] [] u = (res, u')" by fastforce
  moreover have "view u' ''iptables'' = view u ''iptables''"
    using save_keeps [of "''iptables''" "''ip6tables''"] 6 by simp
  ultimately show ?thesis using a v6 by (cases res) (simp_all add: sw u_def)
qed

end


text \<open>The chains of the policy sync, on the other hand, are unhooked and deleted.\<close>

definition ipt_cmd :: "string \<Rightarrow> string list \<Rightarrow> cleanup_cmd" where
  "ipt_cmd desc args = ccmd desc ''iptables'' (on_table ''filter'' args)"

definition sole_hook :: "ipt_view \<Rightarrow> string \<Rightarrow> string \<Rightarrow> bool" where
  "sole_hook v b t = ((\<forall>c rs r. v ''filter'' c = Some rs \<and> r \<in> set rs \<and> jumps_to t r \<longrightarrow> c = b \<and> r = [''-j'', t])
     \<and> (\<forall>rs. v ''filter'' b = Some rs \<longrightarrow> count_list rs [''-j'', t] \<le> 1))"

lemma sole_hook_shrinks: "shrinks v v' \<Longrightarrow> sole_hook v b t \<Longrightarrow> sole_hook v' b t"
  unfolding sole_hook_def by (meson order_trans shrinks_def shrinks_rules)

context host_tools
begin

lemma shrinks_cmd: "teardown args \<Longrightarrow> shrinks (view s ''iptables'') (view (snd (spawn ''iptables'' args [] s)) ''iptables'')"
  by (intro teardown_shrinks) simp_all

lemma started_exit:
  assumes "\<And>p a s. \<exists>out s'. spawn p a [] s = (Inr out, s')"
  obtains b where "exit_run spawn p a s = (Inr b, snd (spawn p a [] s))"
  using assms [of p a s] by (auto simp: exit_run_def)

lemma unhooked:
  assumes starts: "\<And>p a s. \<exists>out s'. spawn p a [] s = (Inr out, s')" and sole: "sole_hook (view s ''iptables'') b t"
  shows "\<not> referenced (view (snd (spawn ''iptables'' (on_table ''filter'' (''-D'' # b # [''-j'', t])) [] s)) ''iptables'') ''filter'' t"
proof
  let ?s = "snd (spawn ''iptables'' (on_table ''filter'' (''-D'' # b # [''-j'', t])) [] s)"
  assume "referenced (view ?s ''iptables'') ''filter'' t"
  then obtain c rs r where r: "view ?s ''iptables'' ''filter'' c = Some rs" "r \<in> set rs" "jumps_to t r"
    by (auto simp: referenced_def)
  have "sole_hook (view ?s ''iptables'') b t" by (rule sole_hook_shrinks [OF shrinks_cmd sole]) (simp only: teardown_iff)
  then have c: "c = b" "r = [''-j'', t]" using r by (auto simp: sole_hook_def)
  obtain d where "exit_run spawn ''iptables'' (on_table ''filter'' (''-D'' # b # [''-j'', t])) s = (Inr d, ?s)"
    using started_exit [OF starts] by blast
  from bin_delete_rule [OF _ this] have eff: "view ?s ''iptables'' = (if d then chain_upd (view s ''iptables'') ''filter'' b
        (map_option (remove1 r) (view s ''iptables'' ''filter'' b)) else view s ''iptables'')"
    and d: "d = (\<exists>rs. view s ''iptables'' ''filter'' b = Some rs \<and> r \<in> set rs)"
    unfolding c(2) by simp_all
  show False
  proof (cases d)
    case True
    then obtain rs0 where rs0: "view s ''iptables'' ''filter'' b = Some rs0" "r \<in> set rs0" using d by blast
    then have rs: "rs = remove1 r rs0" using eff r(1) c(1) True by simp
    have "count_list rs0 r \<le> 1" using sole c(2) rs0(1) unfolding sole_hook_def by blast
    then have "count_list (remove1 r rs0) r = 0" using count_remove1_member [OF rs0(2)] by linarith
    then show False using r(2) rs count_list_0_iff by metis
  next
    case False
    then have "view s ''iptables'' ''filter'' b = Some rs" using eff r(1) c(1) by simp
    then show False using False d r(2) by blast
  qed
qed

lemma emptied_deleted:
  assumes starts: "\<And>p a s. \<exists>out s'. spawn p a [] s = (Inr out, s')"
    and unref: "\<not> referenced (view s ''iptables'') ''filter'' t" and "t \<notin> builtin_chains"
  shows "view (snd (spawn ''iptables'' (on_table ''filter'' [''-X'', t]) []
      (snd (spawn ''iptables'' (on_table ''filter'' [''-F'', t]) [] s)))) ''iptables'' ''filter'' t = None"
proof -
  let ?s1 = "snd (spawn ''iptables'' (on_table ''filter'' [''-F'', t]) [] s)"
  let ?s2 = "snd (spawn ''iptables'' (on_table ''filter'' [''-X'', t]) [] ?s1)"
  obtain f where "exit_run spawn ''iptables'' (on_table ''filter'' [''-F'', t]) s = (Inr f, ?s1)"
    using started_exit [OF starts] by blast
  from bin_flush [OF _ this] have 1: "view ?s1 ''iptables'' ''filter'' t \<in> {None, Some []}" by (auto split: if_splits)
  have unref1: "\<not> referenced (view ?s1 ''iptables'') ''filter'' t"
    using unref shrinks_referenced shrinks_cmd [OF teardown_iff(2)] by blast
  obtain x where "exit_run spawn ''iptables'' (on_table ''filter'' [''-X'', t]) ?s1 = (Inr x, ?s2)"
    using started_exit [OF starts] by blast
  from delete_chain [OF _ assms(3) this] 1 unref1 show ?thesis by (cases "view ?s1 ''iptables'' ''filter'' t") simp_all
qed

lemma chain_torn_down:
  assumes starts: "\<And>p a s. \<exists>out s'. spawn p a [] s = (Inr out, s')"
    and plan: "plan = p1 @ ipt_cmd d1 (''-D'' # b # [''-j'', t]) # p2 @ ipt_cmd d2 [''-F'', t] # ipt_cmd d3 [''-X'', t] # p3"
    and ok: "plan_ok p1" "plan_ok p2" "plan_ok p3" and t: "t \<notin> builtin_chains"
    and sole: "sole_hook (view s ''iptables'') b t"
  shows "view (run_plan spawn plan s) ''iptables'' ''filter'' t = None
    \<and> \<not> referenced (view (run_plan spawn plan s) ''iptables'') ''filter'' t"
proof -
  define s1 where "s1 = run_plan spawn p1 s"
  define s2 where "s2 = snd (spawn ''iptables'' (on_table ''filter'' (''-D'' # b # [''-j'', t])) [] s1)"
  define s3 where "s3 = run_plan spawn p2 s2"
  define s4 where "s4 = snd (spawn ''iptables'' (on_table ''filter'' [''-F'', t]) [] s3)"
  define s5 where "s5 = snd (spawn ''iptables'' (on_table ''filter'' [''-X'', t]) [] s4)"
  have run: "run_plan spawn plan s = run_plan spawn p3 s5"
    by (simp add: plan run_plan_append run_plan_Cons ipt_cmd_def ccmd_def s1_def s2_def s3_def s4_def s5_def)
  have "sole_hook (view s1 ''iptables'') b t"
    unfolding s1_def by (rule sole_hook_shrinks [OF run_plan_shrinks sole]) (simp_all add: ok)
  then have u2: "\<not> referenced (view s2 ''iptables'') ''filter'' t" unfolding s2_def by (rule unhooked [OF starts])
  have u3: "\<not> referenced (view s3 ''iptables'') ''filter'' t"
    using u2 shrinks_referenced run_plan_shrinks [OF _ ok(2)] unfolding s3_def by blast
  have n5: "view s5 ''iptables'' ''filter'' t = None"
    unfolding s5_def s4_def by (rule emptied_deleted [OF starts u3 t])
  have "shrinks (view s3 ''iptables'') (view s5 ''iptables'')"
    unfolding s5_def s4_def by (rule shrinks_trans [OF shrinks_cmd shrinks_cmd]) (simp_all only: teardown_iff t simp_thms)
  then have "shrinks (view s3 ''iptables'') (view (run_plan spawn p3 s5) ''iptables'')"
    using run_plan_shrinks [OF _ ok(3)] shrinks_trans by blast
  then show ?thesis unfolding run
    using u3 shrinks_referenced shrinks_gone [OF run_plan_shrinks [OF _ ok(3)] n5] by blast
qed

end


definition policy_hooks :: "(string \<times> string) set" where
  "policy_hooks = {(''INPUT'', ROUTER_INPUT), (''FORWARD'', ROUTER_FORWARD), (''OUTPUT'', ROUTER_OUTPUT)}"

lemma firewall_split:
  assumes "(b, t) \<in> policy_hooks"
  obtains p1 d1 p2 d2 d3 p3 where
    "firewall_cmds = p1 @ ipt_cmd d1 (''-D'' # b # [''-j'', t]) # p2 @ ipt_cmd d2 [''-F'', t] # ipt_cmd d3 [''-X'', t] # p3"
proof -
  have "\<exists>i j. firewall_cmds = take i firewall_cmds
       @ ipt_cmd ''unhook KUBE-ROUTER filter jump'' (''-D'' # b # [''-j'', t])
       # take j (drop (Suc i) firewall_cmds) @ ipt_cmd ''flush filter chain'' [''-F'', t]
       # ipt_cmd ''delete filter chain'' [''-X'', t] # drop (i + j + 3) firewall_cmds"
    using assms unfolding policy_hooks_def
  proof (elim insertE emptyE)
  qed (rule exI [of _ 0], rule exI [of _ 2], simp add: firewall_cmds_def ipt_cmd_def ccmd_def ROUTER_INPUT_def,
      rule exI [of _ 1], rule exI [of _ 3], simp add: firewall_cmds_def ipt_cmd_def ccmd_def ROUTER_FORWARD_def,
      rule exI [of _ 2], rule exI [of _ 4], simp add: firewall_cmds_def ipt_cmd_def ccmd_def ROUTER_OUTPUT_def)
  then show ?thesis using that by metis
qed

lemma cleanup_plan_split:
  assumes "kc_run_firewall cfg" "(b, t) \<in> policy_hooks"
  obtains p1 d1 p2 d2 d3 p3 where
    "cleanup_plan cfg = p1 @ ipt_cmd d1 (''-D'' # b # [''-j'', t]) # p2 @ ipt_cmd d2 [''-F'', t] # ipt_cmd d3 [''-X'', t] # p3"
    "plan_ok p1" "plan_ok p2" "plan_ok p3" "t \<notin> builtin_chains"
proof -
  obtain p1 d1 p2 d2 d3 p3 where f:
    "firewall_cmds = p1 @ ipt_cmd d1 (''-D'' # b # [''-j'', t]) # p2 @ ipt_cmd d2 [''-F'', t] # ipt_cmd d3 [''-X'', t] # p3"
    using firewall_split [OF assms(2)] by blast
  let ?pre = "if kc_run_service_proxy cfg then service_proxy_cmds else []"
  let ?post = "if kc_run_router cfg then router_cmds else []"
  have ok: "plan_ok p1" "plan_ok p2" "plan_ok p3" using cleanup_plans_ok(2) unfolding f plan_ok_def by auto
  have "cleanup_plan cfg = (?pre @ p1) @ ipt_cmd d1 (''-D'' # b # [''-j'', t]) # p2 @ ipt_cmd d2 [''-F'', t]
     # ipt_cmd d3 [''-X'', t] # (p3 @ ?post)"
    using assms(1) by (simp add: cleanup_plan_def f)
  moreover have "t \<notin> builtin_chains"
    using assms(2) by (auto simp: policy_hooks_def ROUTER_INPUT_def ROUTER_FORWARD_def ROUTER_OUTPUT_def)
  ultimately show ?thesis using ok cleanup_plans_ok by (intro that [of "?pre @ p1" d1 p2 d2 d3 "p3 @ ?post"]) simp_all
qed

context host_tools
begin

lemma sweep_shrinks:
  assumes "bin \<in> ipt_bins"
  shows "shrinks (view u bin) (view (sweep_dynamic_chains spawn u) bin)"
proof (rule sweep_keeps [OF assms])
  show "shrinks (view u bin) (view (sweep_chain spawn bin k w) bin)" if "take 5 k = ''KUBE-''" "shrinks (view u bin) (view w bin)" for k w
  proof -
    have k: "teardown (on_table ''filter'' [''-X'', k])" by (rule teardown.delete [OF kube_not_builtin [OF that(1)]])
    show ?thesis
      unfolding sweep_chain_def Let_def
      using shrinks_trans [OF that(2) shrinks_trans [OF teardown_shrinks [OF assms teardown_iff(2)] teardown_shrinks [OF assms k]]]
      by simp
  qed
qed (simp_all add: shrinks_refl)

end

section \<open>A host in memory\<close>

text \<open>The two programs on tables in memory; \<^verbatim>\<open>-save\<close> prints the declarations of the chains, other programs do nothing.\<close>

definition mem_referenced :: "ipt_tables \<Rightarrow> string \<Rightarrow> string \<Rightarrow> bool" where
  "mem_referenced s t x = list_ex (\<lambda>(t', c). t' = t \<and> (case map_of s (t', c) of None \<Rightarrow> False | Some rs \<Rightarrow> list_ex (jumps_to x) rs))
     (map fst s)"

fun table_exec :: "ipt_tables ipt_run" where
  "table_exec [w, dt, t, verb, c] s =
     (if verb = ''-X'' then
        if map_of s (t, c) = Some [] \<and> \<not> mem_referenced s t c then (Inr True, al_drop ((=) (t, c)) s) else (Inr False, s)
      else ipt_exec [w, dt, t, verb, c] s)"
| "table_exec args s = ipt_exec args s"

definition with_table :: "string list \<Rightarrow> string list" where
  "with_table args = (case args of w # v # rest \<Rightarrow> if v = ''-t'' then args else on_table ''filter'' (v # rest) | _ \<Rightarrow> args)"

definition save_text :: "ipt_tables \<Rightarrow> string" where
  "save_text s = concat (map (\<lambda>((t, c), _). if t = ''filter'' then '':'' @ c @ '' - [0:0]'' @ nl else []) s)"

definition mem_spawn :: "(ipt_tables \<times> ipt_tables) spawn" where
  "mem_spawn prog args input s =
     (let out = (\<lambda>b text. \<lparr> po_success = b, po_stdout = text, po_stderr = [] \<rparr>) in
      if prog = ''iptables'' then (case table_exec (with_table args) (fst s) of
          (Inl e, u) \<Rightarrow> (Inr (out False []), s) | (Inr b, u) \<Rightarrow> (Inr (out b []), (u, snd s)))
      else if prog = ''ip6tables'' then (case table_exec (with_table args) (snd s) of
          (Inl e, u) \<Rightarrow> (Inr (out False []), s) | (Inr b, u) \<Rightarrow> (Inr (out b []), (fst s, u)))
      else if prog = ''iptables-save'' then (Inr (out True (save_text (fst s))), s)
      else if prog = ''ip6tables-save'' then (Inr (out True (save_text (snd s))), s)
      else (Inr (out True []), s))"

definition mem_view :: "ipt_tables \<times> ipt_tables \<Rightarrow> string \<Rightarrow> ipt_view" where
  "mem_view s bin = ipt_view_of (if bin = ''iptables'' then fst s else snd s)"

lemma mem_referenced_iff: "mem_referenced s t x = referenced (ipt_view_of s) t x"
proof
  assume "mem_referenced s t x"
  then obtain c rs where "map_of s (t, c) = Some rs" "list_ex (jumps_to x) rs"
    by (auto simp: mem_referenced_def list_ex_iff split: option.splits)
  then show "referenced (ipt_view_of s) t x" by (auto simp: referenced_def ipt_view_of_def list_ex_iff)
next
  assume "referenced (ipt_view_of s) t x"
  then obtain c rs r where c: "map_of s (t, c) = Some rs" "r \<in> set rs" "jumps_to x r"
    by (auto simp: referenced_def ipt_view_of_def)
  then have "list_ex (jumps_to x) rs" by (auto simp: list_ex_iff)
  moreover have "(t, c) \<in> set (map fst s)" using c(1) by (auto dest!: map_of_SomeD intro: rev_image_eqI)
  ultimately show "mem_referenced s t x"
    unfolding mem_referenced_def list_ex_iff using c(1) by (intro bexI [of _ "(t, c)"]) (simp_all only: prod.case option.case simp_thms)
qed

lemma ipt_view_drop: "ipt_view_of (al_drop ((=) (t, c)) s) = chain_upd (ipt_view_of s) t c None"
proof -
  have "map_of (al_drop ((=) k) s) j = (if j = k then None else map_of s j)" for j k
    by (induction s) (auto simp: al_drop_def)
  then show ?thesis by (auto simp: ipt_view_of_def chain_upd_def fun_eq_iff)
qed

lemma table_exec_other: "verb \<noteq> ''-X'' \<Longrightarrow> table_exec (on_table t (verb # args)) s = ipt_exec (on_table t (verb # args)) s"
  by (cases args; cases "tl args"; simp)

lemma table_exec_tables: "iptables table_exec ipt_view_of"
  using ipt_mem.iptables_axioms unfolding iptables_def by (simp only: table_exec_other list.inject char.inject simp_thms)


lemma ipt_exec_total: "\<exists>b u. ipt_exec args s = (Inr b, u)"
  by (cases "(args, s)" rule: ipt_exec.cases) (auto split: option.splits)

lemma table_exec_total: "\<exists>b u. table_exec args s = (Inr b, u)"
  by (cases "(args, s)" rule: table_exec.cases) (auto simp add: ipt_exec_total simp del: ipt_exec.simps)

definition mem_side :: "string \<Rightarrow> ipt_tables \<times> ipt_tables \<Rightarrow> ipt_tables" where
  "mem_side bin s = (if bin = ''iptables'' then fst s else snd s)"

lemma mem_view_side: "mem_view s bin = ipt_view_of (mem_side bin s)"
  by (simp add: mem_view_def mem_side_def)

lemma with_table_on [simp]: "with_table (''-w'' # ''-t'' # a) = ''-w'' # ''-t'' # a"
  by (simp add: with_table_def)

lemma exit_mem:
  "bin \<in> ipt_bins \<Longrightarrow> exit_run mem_spawn bin (on_table t a) s = (Inr b, s') \<Longrightarrow>
   table_exec (on_table t a) (mem_side bin s) = (Inr b, mem_side bin s')"
  using table_exec_total [of "on_table t a" "mem_side bin s"]
  by (cases "bin = ''iptables''") (auto simp: exit_run_def mem_spawn_def mem_side_def)

lemmas mem_laws =
  iptables.new_chain [OF table_exec_tables exit_mem] iptables.check_rule [OF table_exec_tables exit_mem]
  iptables.append_rule [OF table_exec_tables exit_mem] iptables.insert_rule [OF table_exec_tables exit_mem]
  iptables.flush [OF table_exec_tables exit_mem] iptables.delete_rule [OF table_exec_tables exit_mem]

lemma mem_tables: "bin \<in> ipt_bins \<Longrightarrow> iptables (exit_run mem_spawn bin) (\<lambda>s. mem_view s bin)"
  unfolding mem_view_side by (rule iptables.intro) (rule mem_laws, assumption, assumption)+

lemma mem_delete:
  assumes "bin \<in> ipt_bins" "exit_run mem_spawn bin (on_table t [''-X'', c]) s = (Inr b, s')"
  shows "b = (mem_view s bin t c = Some [] \<and> \<not> referenced (mem_view s bin) t c)
     \<and> mem_view s' bin = (if b then chain_upd (mem_view s bin) t c None else mem_view s bin)"
proof -
  have e: "table_exec (on_table t [''-X'', c]) (mem_side bin s) = (Inr b, mem_side bin s')" by (rule exit_mem [OF assms])
  show ?thesis
  proof (cases "mem_view s bin t c = Some [] \<and> \<not> referenced (mem_view s bin) t c")
    case True
    with e have "mem_side bin s' = al_drop ((=) (t, c)) (mem_side bin s)" "b"
      by (simp_all add: mem_view_side mem_referenced_iff ipt_view_of_def)
    then show ?thesis using True by (simp add: mem_view_side ipt_view_drop)
  next
    case False
    with e have "mem_side bin s' = mem_side bin s" "\<not> b"
      by (auto simp: mem_view_side mem_referenced_iff ipt_view_of_def split: if_splits)
    then show ?thesis using False by (simp add: mem_view_side)
  qed
qed

interpretation mem_host: host_tools mem_spawn mem_view
proof (rule host_tools.intro)
  show "bin \<in> ipt_bins \<Longrightarrow> iptables (exit_run mem_spawn bin) (\<lambda>s. mem_view s bin)" for bin by (rule mem_tables)
  show "mem_spawn bin (''-w'' # v # args) x s = mem_spawn bin (on_table ''filter'' (v # args)) x s"
    if "bin \<in> ipt_bins" "v \<noteq> ''-t''" for bin v args x s
    using that by (simp add: mem_spawn_def with_table_def)
  show "mem_view (snd (mem_spawn prog args x s)) bin = mem_view s bin"
    if "bin \<in> ipt_bins" "prog \<noteq> bin" "prog \<noteq> bin @ ''-restore''" for prog args x s bin
    using that by (auto simp: mem_spawn_def mem_view_def split: prod.splits sum.splits)
  show "mem_view s' = mem_view s" if "mem_spawn prog args [] s = (Inl e, s')" for prog args s e s'
    using that by (auto simp: mem_spawn_def Let_def split: prod.splits sum.splits if_splits)
  show "b = (mem_view s bin t c = Some [] \<and> \<not> referenced (mem_view s bin) t c)
     \<and> mem_view s' bin = (if b then chain_upd (mem_view s bin) t c None else mem_view s bin)"
    if "bin \<in> ipt_bins" "exit_run mem_spawn bin (on_table t [''-X'', c]) s = (Inr b, s')" for bin c t s b s'
    using that by (rule mem_delete)
qed

section \<open>Properties\<close>



definition demo_host :: "ipt_tables \<times> ipt_tables" where
  "demo_host =
     ([((''filter'', ''INPUT''), [input_jump_rule False, [''-j'', ROUTER_INPUT]]),
       ((''filter'', ROUTER_INPUT), [[''-s'', ''10.0.0.2'', ''-j'', ''KUBE-POD-FW-A'']]),
       ((''filter'', ''KUBE-NWPLCY-B''), [[''-j'', ''ACCEPT'']]),
       ((''filter'', ''KUBE-POD-FW-A''), [[''-j'', ''KUBE-NWPLCY-B'']]),
       ((''filter'', FIREWALL_CHAIN), [[''-j'', ''REJECT'']])],
      [])"

definition demo_cleanup :: kube_router_config where
  "demo_cleanup = demo_config \<lparr> kc_run_router := False \<rparr>"

lemma mem_starts: "\<exists>out s'. mem_spawn p a x s = (Inr out, s')"
  by (auto simp: mem_spawn_def Let_def split: prod.splits sum.splits)

lemma demo_sole: "sole_hook (mem_view demo_host ''iptables'') ''INPUT'' ROUTER_INPUT"
proof -
  note names = demo_host_def ROUTER_INPUT_def FIREWALL_CHAIN_def input_jump_rule_def
  have "c = ''INPUT'' \<and> r = [''-j'', ROUTER_INPUT]"
    if "mem_view demo_host ''iptables'' ''filter'' c = Some rs" "r \<in> set rs" "jumps_to ROUTER_INPUT r" for c rs r
    using that by (auto simp: names mem_view_def ipt_view_of_def split: if_splits)
  moreover have "count_list rs [''-j'', ROUTER_INPUT] \<le> 1" if "mem_view demo_host ''iptables'' ''filter'' ''INPUT'' = Some rs" for rs
    using that by (auto simp: names mem_view_def ipt_view_of_def)
  ultimately show ?thesis by (auto simp: sole_hook_def)
qed


text \<open>A teardown leaves hooks of the agent in the tables: the jump of the service firewall in INPUT carries a comment and a set match, which the
  deletion does not name; nothing deletes the hairpin jump from POSTROUTING; and no command but the sweep of the pod and
  policy chains addresses the IPv6 tables. Each such rule that was there is still there, and the chain it jumps to could not
  be deleted, whatever the commands return.\<close>

theorem cleanup_leaves_hooks:
  assumes "host_tools spawn view" "(bin, t, c, r, x) \<in> set kept_hooks" "hooked (view s bin) t c r x"
  shows "hooked (view (cleanup_run spawn cfg s) bin) t c r x"
  using assms by (rule host_tools.hook_survives_cleanup)

theorem cleanup_leaves_hooks_witness:
  "hooked (mem_view (cleanup_run mem_spawn demo_cleanup demo_host) ''iptables'') ''filter'' ''INPUT''
     (input_jump_rule False) FIREWALL_CHAIN"
proof -
  have "hooked (mem_view demo_host ''iptables'') ''filter'' ''INPUT'' (input_jump_rule False) FIREWALL_CHAIN"
    by (simp add: demo_host_def mem_view_def ipt_view_of_def hooked_def ROUTER_INPUT_def FIREWALL_CHAIN_def)
  then show ?thesis
    by (rule cleanup_leaves_hooks [OF mem_host.host_tools_axioms, rotated]) (simp add: kept_hooks_def)
qed

text \<open>The sweep deletes the chains in the order in which they are listed, each right after it is flushed: a chain that a chain listed later still
  jumps to, such as a policy chain before the pod chain that uses it, cannot be deleted and stays.\<close>

theorem sweep_keeps_referenced_chain:
  assumes "host_tools spawn view" "spawn ''iptables-save'' [''-t'', ''filter''] [] s = (Inr out, s1)"
    and "swept_chains (po_stdout out) = pre @ p # rest" "distinct (pre @ p # rest)" "q \<in> set rest"
    and "hooked (view s ''iptables'') ''filter'' q r p" "jumps_to p r"
  shows "view (sweep_dynamic_chains spawn s) ''iptables'' ''filter'' p \<noteq> None"
  using assms by (rule host_tools.swept_early_survives)

lemma demo_swept: "swept_chains (save_text (fst demo_host)) = [''KUBE-NWPLCY-B'', ''KUBE-POD-FW-A'']"
  unfolding demo_host_def ROUTER_INPUT_def FIREWALL_CHAIN_def input_jump_rule_def by code_simp

theorem sweep_keeps_referenced_chain_witness:
  "mem_view (sweep_dynamic_chains mem_spawn demo_host) ''iptables'' ''filter'' ''KUBE-NWPLCY-B'' \<noteq> None"
proof -
  have save: "mem_spawn ''iptables-save'' [''-t'', ''filter''] [] demo_host
      = (Inr \<lparr> po_success = True, po_stdout = save_text (fst demo_host), po_stderr = [] \<rparr>, demo_host)"
    by (simp add: mem_spawn_def)
  have "hooked (mem_view demo_host ''iptables'') ''filter'' ''KUBE-POD-FW-A'' [''-j'', ''KUBE-NWPLCY-B''] ''KUBE-NWPLCY-B''"
    by (simp add: demo_host_def mem_view_def ipt_view_of_def hooked_def ROUTER_INPUT_def FIREWALL_CHAIN_def)
  then show ?thesis
    using sweep_keeps_referenced_chain [OF mem_host.host_tools_axioms save, of "[]" "''KUBE-NWPLCY-B''" "[''KUBE-POD-FW-A'']"
        "''KUBE-POD-FW-A''"] demo_swept by simp
qed


end
