(* ===== verification/Kr_Node.thy ===== *)
theory Kr_Node
  imports Kr_ProxyPlan Kr_ProxyRules Kr_Dsr
begin

text \<open>
  What the agent writes on its node at start-up: the kernel settings under \<^verbatim>\<open>/proc/sys\<close>
  (\<^verbatim>\<open>crates/common/src/sysctl.rs\<close>, \<^verbatim>\<open>setup_ipvs_sysctls\<close> of \<^verbatim>\<open>main.rs\<close>) and the configuration and plugins of the container network
  (\<^verbatim>\<open>crates/cni/src/lib.rs\<close>, \<^verbatim>\<open>setup_cni\<close> of \<^verbatim>\<open>routing_wire.rs\<close>). The file operations of the standard library are a record;
  the locale \<open>file_store\<close> states what they do.
\<close>

section \<open>Files and paths\<close>

record 's file_ops =
  fs_create_dir_all :: "string \<Rightarrow> ('s, string, unit) eff"
  fs_exists :: "string \<Rightarrow> 's \<Rightarrow> bool"
  fs_copy :: "string \<Rightarrow> string \<Rightarrow> ('s, string, unit) eff"
  fs_set_mode :: "string \<Rightarrow> nat \<Rightarrow> ('s, string, unit) eff"
  fs_write :: "string \<Rightarrow> string \<Rightarrow> ('s, string, unit) eff"
  fs_read :: "string \<Rightarrow> ('s, string, string) eff"

text \<open>\<^verbatim>\<open>PathBuf::push\<close>: an absolute path replaces, another one is appended after a separator.\<close>

definition path_push :: "string \<Rightarrow> string \<Rightarrow> string" where
  "path_push p seg =
     (if starts_with ''/'' seg then seg
      else if p = [] \<or> last p = CHR ''/'' then p @ seg else p @ ''/'' @ seg)"

text \<open>\<^verbatim>\<open>Path::parent\<close>, for a path that does not end in a separator.\<close>

definition path_parent :: "string \<Rightarrow> string option" where
  "path_parent p =
     (if p = [] then None
      else case rsplit_once CHR ''/'' p of None \<Rightarrow> Some [] | Some (d, _) \<Rightarrow> Some (if d = [] then ''/'' else d))"

locale file_store =
  fixes ops :: "'s file_ops"
    and content :: "'s \<Rightarrow> string \<rightharpoonup> string"
  assumes read_file: "fs_read ops p s = (r, s') \<Longrightarrow>
        content s' = content s \<and> (\<forall>v. r = Inr v \<longrightarrow> (\<exists>w. content s p = Some w \<and> trim v = trim w))"
    and write_file: "fs_write ops p v s = (Inr u, s') \<Longrightarrow> content s' = (content s)(p \<mapsto> v)"
    and write_refused: "starts_with ''/proc/sys/'' p \<Longrightarrow> fs_write ops p v s = (Inl e, s') \<Longrightarrow> content s' = content s"
    and exists_file: "fs_exists ops p s = (content s p \<noteq> None)"
    and copy_file: "fs_copy ops p q s = (Inr u, s') \<Longrightarrow> content s p \<noteq> None \<and> content s' = (content s)(q := content s p)"
    and set_mode: "fs_set_mode ops p m s = (Inr u, s') \<Longrightarrow> content s' = content s"
    and create_dir: "fs_create_dir_all ops p s = (Inr u, s') \<Longrightarrow> content s' = content s"

section \<open>Kernel settings\<close>

definition key_to_path :: "string \<Rightarrow> string" where
  "key_to_path key = fold (\<lambda>seg p. path_push p seg) (split_on CHR ''.'' key) ''/proc/sys''"

datatype sysctl_error = Sysctl string string

definition sysctl_read :: "'s file_ops \<Rightarrow> string \<Rightarrow> ('s, sysctl_error, string) eff" where
  "sysctl_read ops key s =
     (case fs_read ops (key_to_path key) s of
        (Inl e, s') \<Rightarrow> (Inl (Sysctl key e), s') | (Inr v, s') \<Rightarrow> (Inr (trim v), s'))"

definition sysctl_write :: "'s file_ops \<Rightarrow> string \<Rightarrow> string \<Rightarrow> ('s, sysctl_error, unit) eff" where
  "sysctl_write ops key val s =
     (case fs_write ops (key_to_path key) val s of
        (Inl e, s') \<Rightarrow> (Inl (Sysctl key e), s') | (Inr _, s') \<Rightarrow> (Inr (), s'))"

text \<open>A failed write is only logged.\<close>

definition ensure_rp_filter_loose :: "'s file_ops \<Rightarrow> string \<Rightarrow> 's \<Rightarrow> 's" where
  "ensure_rp_filter_loose ops iface s =
     (case sysctl_read ops (rp_filter_key iface) s of
        (Inr v, s') \<Rightarrow> if v = ''1'' then snd (sysctl_write ops (rp_filter_key iface) ''2'' s') else s'
      | (Inl _, s') \<Rightarrow> s')"

definition ipvs_sysctls :: "(string \<times> string) list" where
  "ipvs_sysctls =
     [(''net.ipv4.vs.conntrack'', ''1''), (''net.ipv4.vs.expire_nodest_conn'', ''1''),
      (''net.ipv4.vs.expire_quiescent_template'', ''1''), (''net.ipv4.vs.conn_reuse_mode'', ''0''),
      (''net.ipv4.conf.all.arp_ignore'', ''1''), (''net.ipv4.conf.all.arp_announce'', ''2'')]"

definition iface_for_ip :: "('s, string, bool \<times> string) eff \<Rightarrow> ip_addr \<Rightarrow> 's \<Rightarrow> string option \<times> 's" where
  "iface_for_ip addr_show ip s =
     (case addr_show s of
        (Inl _, s') \<Rightarrow> (None, s')
      | (Inr (success, out), s') \<Rightarrow> (if success then parse_iface_for_ip out ip else None, s'))"

text \<open>Opening the IPVS family, which loads the module, is the operation \<open>open_genl\<close>; its result is dropped.\<close>

definition setup_ipvs_sysctls ::
  "'s file_ops \<Rightarrow> ('s \<Rightarrow> 's) \<Rightarrow> ('s, string, bool \<times> string) eff \<Rightarrow> ip_addr option \<Rightarrow> 's \<Rightarrow> 's" where
  "setup_ipvs_sysctls ops open_genl addr_show primary_ip s =
     (let s1 = fold (\<lambda>(key, val) s. snd (sysctl_write ops key val s)) ipvs_sysctls (open_genl s);
          s2 = snd (sysctl_read ops ''net.ipv4.vs.conntrack'' s1);
          s3 = fold (ensure_rp_filter_loose ops) [''all'', KUBE_BRIDGE, DUMMY_IF] s2
      in case primary_ip of
           None \<Rightarrow> s3
         | Some ip \<Rightarrow>
             if is_ipv6 ip then s3
             else case iface_for_ip addr_show ip s3 of
                (None, s4) \<Rightarrow> s4 | (Some iface, s4) \<Rightarrow> ensure_rp_filter_loose ops iface s4)"

section \<open>Configuration of the container network\<close>

datatype json = JNull | JBool bool | JNum string | JStr string | JArr "json list" | JObj "(string \<times> json) list"

type_synonym json_fields = "(string \<times> json) list"

record cni_range =
  rg_subnet :: string
  rg_extra :: json_fields

record cni_ipam =
  ia_type :: "string option"
  ia_ranges :: "cni_range list list option"
  ia_extra :: json_fields

record cni_plugin =
  pl_type :: string
  pl_ipam :: "cni_ipam option"
  pl_extra :: json_fields

record conf_list =
  cl_plugins :: "cni_plugin list"
  cl_extra :: json_fields

text \<open>The reader that the derived deserialiser gives for these records: fields that are not named go to the extra fields.\<close>

definition other_fields :: "string list \<Rightarrow> json_fields \<Rightarrow> json_fields" where
  "other_fields ks kvs = filter (\<lambda>(k, _). k \<notin> set ks) kvs"

fun json_string :: "json \<Rightarrow> string option" where
  "json_string (JStr s) = Some s"
| "json_string _ = None"

fun json_list :: "(json \<Rightarrow> 'a option) \<Rightarrow> json \<Rightarrow> 'a list option" where
  "json_list f (JArr xs) = those (map f xs)"
| "json_list f _ = None"

definition optional_field :: "(json \<Rightarrow> 'a option) \<Rightarrow> string \<Rightarrow> json_fields \<Rightarrow> 'a option option" where
  "optional_field f k kvs =
     (case map_of kvs k of None \<Rightarrow> Some None | Some v \<Rightarrow> if v = JNull then Some None else map_option Some (f v))"

fun read_range :: "json \<Rightarrow> cni_range option" where
  "read_range (JObj kvs) =
     Option.bind (map_of kvs ''subnet'') (\<lambda>v. map_option
       (\<lambda>s. \<lparr> rg_subnet = s, rg_extra = other_fields [''subnet''] kvs \<rparr>) (json_string v))"
| "read_range _ = None"

fun read_ipam :: "json \<Rightarrow> cni_ipam option" where
  "read_ipam (JObj kvs) =
     Option.bind (optional_field json_string ''type'' kvs) (\<lambda>t.
     map_option (\<lambda>r. \<lparr> ia_type = t, ia_ranges = r, ia_extra = other_fields [''type'', ''ranges''] kvs \<rparr>)
       (optional_field (json_list (json_list read_range)) ''ranges'' kvs))"
| "read_ipam _ = None"

fun read_plugin :: "json \<Rightarrow> cni_plugin option" where
  "read_plugin (JObj kvs) =
     Option.bind (Option.bind (map_of kvs ''type'') json_string) (\<lambda>t.
     map_option (\<lambda>i. \<lparr> pl_type = t, pl_ipam = i, pl_extra = other_fields [''type'', ''ipam''] kvs \<rparr>)
       (optional_field read_ipam ''ipam'' kvs))"
| "read_plugin _ = None"

fun read_conf_list :: "json \<Rightarrow> conf_list option" where
  "read_conf_list (JObj kvs) =
     map_option (\<lambda>ps. \<lparr> cl_plugins = ps, cl_extra = other_fields [''plugins''] kvs \<rparr>)
       (Option.bind (map_of kvs ''plugins'') (json_list read_plugin))"
| "read_conf_list _ = None"

datatype cni_error = CniParse string | NoBridgePlugin

text \<open>The JSON parser and printer are parameters.\<close>

definition parse_conf_list :: "(string \<Rightarrow> string + conf_list) \<Rightarrow> string \<Rightarrow> cni_error + conf_list" where
  "parse_conf_list from_str text = (case from_str text of Inl e \<Rightarrow> Inl (CniParse e) | Inr c \<Rightarrow> Inr c)"

definition seed_ipam :: "string list \<Rightarrow> cni_ipam option \<Rightarrow> cni_ipam" where
  "seed_ipam subnets i =
     (let ipam = (case i of Some x \<Rightarrow> x | None \<Rightarrow> \<lparr> ia_type = Some ''host-local'', ia_ranges = None, ia_extra = [] \<rparr>);
          ipam = (if ia_type ipam = None then ipam \<lparr> ia_type := Some ''host-local'' \<rparr> else ipam)
      in ipam \<lparr> ia_ranges := Some (map (\<lambda>c. [\<lparr> rg_subnet = c, rg_extra = [] \<rparr>]) subnets) \<rparr>)"

fun seed_plugins :: "string list \<Rightarrow> cni_plugin list \<Rightarrow> cni_plugin list option" where
  "seed_plugins subnets [] = None"
| "seed_plugins subnets (p # ps) =
     (if pl_type p = ''bridge'' then Some (p \<lparr> pl_ipam := Some (seed_ipam subnets (pl_ipam p)) \<rparr> # ps)
      else map_option ((#) p) (seed_plugins subnets ps))"

definition seed_pod_cidrs :: "('n \<Rightarrow> string) \<Rightarrow> 'n list \<Rightarrow> conf_list \<Rightarrow> cni_error + conf_list" where
  "seed_pod_cidrs show_net pod_cidrs c =
     (case seed_plugins (map show_net pod_cidrs) (cl_plugins c) of
        None \<Rightarrow> Inl NoBridgePlugin | Some ps \<Rightarrow> Inr (c \<lparr> cl_plugins := ps \<rparr>))"

definition seed_conflist ::
  "(string \<Rightarrow> string + conf_list) \<Rightarrow> (conf_list \<Rightarrow> string) \<Rightarrow> ('n \<Rightarrow> string) \<Rightarrow> string \<Rightarrow> 'n list \<Rightarrow> cni_error + string" where
  "seed_conflist from_str to_json show_net text pod_cidrs =
     (case parse_conf_list from_str text of
        Inl e \<Rightarrow> Inl e
      | Inr c \<Rightarrow> (case seed_pod_cidrs show_net pod_cidrs c of Inl e \<Rightarrow> Inl e | Inr c' \<Rightarrow> Inr (to_json c')))"

definition DEFAULT_CONF_PATH :: string where "DEFAULT_CONF_PATH = ''/etc/cni/net.d/10-kuberouter.conflist''"
definition DEFAULT_BIN_DIR :: string where "DEFAULT_BIN_DIR = ''/opt/cni/bin''"
definition REQUIRED_PLUGINS :: "string list" where "REQUIRED_PLUGINS = [''bridge'', ''host-local'', ''loopback'']"
definition BUNDLED_CNI_DIR :: string where "BUNDLED_CNI_DIR = ''/opt/cni-bundled''"

definition kuberouter_doc :: "('n \<Rightarrow> string) \<Rightarrow> 'n list \<Rightarrow> json" where
  "kuberouter_doc show_net pod_cidrs =
     JObj [(''cniVersion'', JStr ''1.0.0''), (''name'', JStr ''kube-router-rs''),
       (''plugins'', JArr
         [JObj [(''type'', JStr ''bridge''), (''bridge'', JStr ''kube-bridge''), (''isDefaultGateway'', JBool True),
            (''hairpinMode'', JBool True),
            (''ipam'', JObj [(''type'', JStr ''host-local''),
               (''ranges'', JArr (map (\<lambda>c. JArr [JObj [(''subnet'', JStr (show_net c))]]) pod_cidrs))])],
          JObj [(''type'', JStr ''loopback'')]])]"

definition write_conflist ::
  "'s file_ops \<Rightarrow> (json \<Rightarrow> string) \<Rightarrow> ('n \<Rightarrow> string) \<Rightarrow> string \<Rightarrow> 'n list \<Rightarrow> ('s, string, unit) eff" where
  "write_conflist ops pretty show_net path pod_cidrs =
     eff_bind (case path_parent path of None \<Rightarrow> eff_ok () | Some d \<Rightarrow> fs_create_dir_all ops d) (\<lambda>_.
       fs_write ops path (pretty (kuberouter_doc show_net pod_cidrs)))"

fun install_loop :: "'s file_ops \<Rightarrow> string \<Rightarrow> string \<Rightarrow> string list \<Rightarrow> string list \<Rightarrow> ('s, string, string list) eff" where
  "install_loop ops src dst [] installed s = (Inr installed, s)"
| "install_loop ops src dst (name # names) installed s =
     (if fs_exists ops (path_push dst name) s then install_loop ops src dst names installed s
      else if \<not> fs_exists ops (path_push src name) s then install_loop ops src dst names installed s
      else case fs_copy ops (path_push src name) (path_push dst name) s of
             (Inl e, s1) \<Rightarrow> (Inl e, s1)
           | (Inr _, s1) \<Rightarrow> (case fs_set_mode ops (path_push dst name) 493 s1 of
                 (Inl e, s2) \<Rightarrow> (Inl e, s2)
               | (Inr _, s2) \<Rightarrow> install_loop ops src dst names (installed @ [name]) s2))"

definition install_plugins :: "'s file_ops \<Rightarrow> string \<Rightarrow> string \<Rightarrow> string list \<Rightarrow> ('s, string, string list) eff" where
  "install_plugins ops src dst names =
     eff_bind (fs_create_dir_all ops dst) (\<lambda>_. install_loop ops src dst names [])"

definition setup_cni ::
  "'s file_ops \<Rightarrow> ('s \<Rightarrow> 's) \<Rightarrow> (json \<Rightarrow> string) \<Rightarrow> ('n \<Rightarrow> string) \<Rightarrow> 'n list \<Rightarrow> bool \<Rightarrow> bool \<Rightarrow> ('s, string, unit) eff" where
  "setup_cni ops modprobe pretty show_net local_pod_cidrs enable_cni enable_ipv6 =
     eff_bind
       (if enable_cni then
          eff_bind (install_plugins ops BUNDLED_CNI_DIR DEFAULT_BIN_DIR REQUIRED_PLUGINS) (\<lambda>_.
            write_conflist ops pretty show_net DEFAULT_CONF_PATH local_pod_cidrs)
        else eff_ok ())
       (\<lambda>_ s.
         let write = (\<lambda>key val s. snd (sysctl_write ops key val s));
             s1 = write ''net.ipv4.ip_forward'' ''1'' s;
             s2 = (if enable_ipv6 then write ''net.ipv6.conf.all.forwarding'' ''1''
                     (write ''net.ipv6.conf.all.disable_ipv6'' ''0'' s1) else s1);
             s3 = write ''net.bridge.bridge-nf-call-iptables'' ''1'' (modprobe s2);
             s4 = (if enable_ipv6 then write ''net.bridge.bridge-nf-call-ip6tables'' ''1'' s3 else s3)
         in (Inr (), s4))"

section \<open>Paths of settings\<close>

lemma split_on_join: "split_on c (a @ c # b) = split_on c a @ split_on c b"
  by (induction a) (auto split: list.split)

definition plain_segment :: "string \<Rightarrow> bool" where
  "plain_segment s = (s \<noteq> [] \<and> CHR ''/'' \<notin> set s \<and> CHR ''.'' \<notin> set s)"

lemma push_plain:
  assumes "plain_segment s" "p \<noteq> []" "last p \<noteq> CHR ''/''"
  shows "path_push p s = p @ ''/'' @ s"
proof -
  have "\<not> starts_with ''/'' s" using assms(1) by (cases s) (auto simp: plain_segment_def starts_with_def)
  then show ?thesis using assms(2,3) by (simp add: path_push_def)
qed

lemma push_all_plain:
  assumes "list_all plain_segment ss" "p \<noteq> []" "last p \<noteq> CHR ''/''"
  shows "fold (\<lambda>seg p. path_push p seg) ss p = p @ concat (map (\<lambda>s. ''/'' @ s) ss)"
  using assms
proof (induction ss arbitrary: p)
  case (Cons s ss)
  have "s \<noteq> []" "last s \<noteq> CHR ''/''"
    using Cons.prems(1) last_in_set [of s] by (auto simp: plain_segment_def simp del: last_in_set)
  then have "last (p @ ''/'' @ s) \<noteq> CHR ''/''" by simp
  then show ?case using Cons by (simp add: push_plain)
qed simp

text \<open>The path of a key whose parts are plain names.\<close>

lemma key_path:
  assumes "list_all plain_segment (split_on CHR ''.'' key)"
  shows "key_to_path key = ''/proc/sys'' @ concat (map (\<lambda>s. ''/'' @ s) (split_on CHR ''.'' key))"
  unfolding key_to_path_def by (rule push_all_plain [OF assms]) simp_all

lemma rp_filter_segments:
  "split_on CHR ''.'' (rp_filter_key iface) = [''net'', ''ipv4'', ''conf''] @ split_on CHR ''.'' iface @ [''rp_filter'']"
  using split_on_join [of "CHR ''.''" iface "''rp_filter''"] by (simp add: rp_filter_key_def)

lemma rp_filter_path:
  assumes "list_all plain_segment (split_on CHR ''.'' iface)"
  shows "key_to_path (rp_filter_key iface)
    = ''/proc/sys/net/ipv4/conf'' @ concat (map (\<lambda>s. ''/'' @ s) (split_on CHR ''.'' iface)) @ ''/rp_filter''"
  using assms by (subst key_path) (simp_all add: rp_filter_segments plain_segment_def)

lemma push_relative: "CHR ''/'' \<notin> set s \<Longrightarrow> \<exists>u. path_push p s = p @ u"
  by (cases s) (auto simp: path_push_def starts_with_def)

lemma push_all_relative: "\<forall>s \<in> set ss. CHR ''/'' \<notin> set s \<Longrightarrow> \<exists>u. fold (\<lambda>seg p. path_push p seg) ss p = p @ u"
proof (induction ss arbitrary: p)
  case (Cons s ss)
  obtain u where "path_push p s = p @ u" using push_relative [of s p] Cons.prems by auto
  then show ?case using Cons.IH [of "p @ u"] Cons.prems by auto
qed simp

lemma split_on_subset: "s \<in> set (split_on c a) \<Longrightarrow> set s \<subseteq> set a"
proof (induction a arbitrary: s)
  case (Cons x a)
  show ?case
  proof (cases "split_on c a")
    case Nil
    then show ?thesis using Cons.prems by (auto split: if_splits)
  next
    case (Cons y ys)
    then show ?thesis using Cons.IH [of y] Cons.IH [of s] Cons.prems by (auto split: if_splits)
  qed
qed simp

lemma rp_filter_proc:
  assumes "CHR ''/'' \<notin> set iface"
  shows "starts_with ''/proc/sys/'' (key_to_path (rp_filter_key iface))"
proof -
  have "\<forall>s \<in> set ([''ipv4'', ''conf''] @ split_on CHR ''.'' iface @ [''rp_filter'']). CHR ''/'' \<notin> set s"
    using assms split_on_subset by fastforce
  then obtain u where "fold (\<lambda>seg p. path_push p seg) ([''ipv4'', ''conf''] @ split_on CHR ''.'' iface @ [''rp_filter''])
      ''/proc/sys/net'' = ''/proc/sys/net'' @ u"
    using push_all_relative by blast
  moreover have "path_push ''/proc/sys'' ''net'' = ''/proc/sys/net''" by (simp add: path_push_def starts_with_def)
  ultimately have "key_to_path (rp_filter_key iface) = ''/proc/sys/net'' @ u"
    unfolding key_to_path_def rp_filter_segments by simp
  then show ?thesis by (simp add: starts_with_def)
qed

lemma rp_filter_suffix: "\<exists>q. key_to_path (rp_filter_key iface) = q @ ''rp_filter''"
proof -
  have "key_to_path (rp_filter_key iface) = path_push (fold (\<lambda>seg p. path_push p seg)
     ([''net'', ''ipv4'', ''conf''] @ split_on CHR ''.'' iface) ''/proc/sys'') ''rp_filter''"
    unfolding key_to_path_def rp_filter_segments by simp
  then show ?thesis by (auto simp: path_push_def starts_with_def intro: exI [of _ "_ @ ''/''"])
qed

definition plain_keys :: "string list" where
  "plain_keys = map fst ipvs_sysctls"

lemma ipvs_paths:
  "map key_to_path plain_keys = map (\<lambda>k. ''/proc/sys/net/ipv4/'' @ k)
     [''vs/conntrack'', ''vs/expire_nodest_conn'', ''vs/expire_quiescent_template'', ''vs/conn_reuse_mode'',
      ''conf/all/arp_ignore'', ''conf/all/arp_announce'']"
  unfolding plain_keys_def ipvs_sysctls_def by code_simp

text \<open>What the loosening of one interface does.\<close>

context file_store
begin

lemma sysctl_path_refused: "starts_with ''/proc/sys/'' (key_to_path key) \<Longrightarrow>
   content (snd (sysctl_write ops key v s)) \<in> {content s, (content s)(key_to_path key \<mapsto> v)}"
  using write_file write_refused by (auto simp: sysctl_write_def split: prod.split sum.split)

lemma sysctl_read_keeps: "content (snd (sysctl_read ops key s)) = content s"
  using read_file [of "key_to_path key" s] by (auto simp: sysctl_read_def split: prod.split sum.split)

lemma sysctl_read_value: "sysctl_read ops key s = (Inr v, s') \<Longrightarrow> map_option trim (content s (key_to_path key)) = Some v"
  using read_file [of "key_to_path key" s] by (auto simp: sysctl_read_def split: prod.splits sum.splits)

lemma loosen_effect:
  assumes "CHR ''/'' \<notin> set iface"
  shows "content (ensure_rp_filter_loose ops iface s) = content s
    \<or> map_option trim (content s (key_to_path (rp_filter_key iface))) = Some ''1''
      \<and> content (ensure_rp_filter_loose ops iface s) = (content s)(key_to_path (rp_filter_key iface) \<mapsto> ''2'')"
proof (cases "sysctl_read ops (rp_filter_key iface) s")
  case (Pair r s1)
  have c: "content s1 = content s" using sysctl_read_keeps [of "rp_filter_key iface" s] Pair by simp
  show ?thesis
  proof (cases r)
    case (Inr v)
    then show ?thesis
      using Pair c sysctl_path_refused [OF rp_filter_proc [OF assms], of "''2''" s1] sysctl_read_value [of "rp_filter_key iface" s v s1]
      by (auto simp: ensure_rp_filter_loose_def)
  qed (use Pair c in \<open>simp add: ensure_rp_filter_loose_def\<close>)
qed

end


text \<open>A file that holds the strict value.\<close>

definition strict_at :: "(string \<rightharpoonup> string) \<Rightarrow> string \<Rightarrow> bool" where
  "strict_at m p = (map_option trim (m p) = Some ''1'')"

lemma strict_upd: "strict_at (m(q \<mapsto> ''2'')) p \<Longrightarrow> strict_at m p"
  by (auto simp: strict_at_def trim_def is_space_def split: if_splits)

text \<open>The settings of a start-up on a node whose setting files can be read and written.\<close>

locale open_settings = file_store ops content
  for ops :: "'s file_ops" and content :: "'s \<Rightarrow> string \<rightharpoonup> string" +
  assumes writable: "starts_with ''/proc/sys/'' p \<Longrightarrow> \<exists>s'. fs_write ops p v s = (Inr (), s')"
    and readable: "content s p \<noteq> None \<Longrightarrow> \<exists>v s'. fs_read ops p s = (Inr v, s')"
begin

lemma sysctl_write_sets:
  "starts_with ''/proc/sys/'' (key_to_path key) \<Longrightarrow> content (snd (sysctl_write ops key v s)) = (content s)(key_to_path key \<mapsto> v)"
  using writable [of "key_to_path key" v s] write_file by (auto simp: sysctl_write_def)

lemma fold_writes_other:
  "\<forall>(k, v) \<in> set kvs. starts_with ''/proc/sys/'' (key_to_path k) \<and> key_to_path k \<noteq> p \<Longrightarrow>
   content (fold (\<lambda>(key, val) s. snd (sysctl_write ops key val s)) kvs s) p = content s p"
  by (induction kvs arbitrary: s) (auto simp: sysctl_write_sets)

lemma fold_writes:
  assumes "\<forall>(k, v) \<in> set kvs. starts_with ''/proc/sys/'' (key_to_path k)" "distinct (map (key_to_path \<circ> fst) kvs)" "(k, v) \<in> set kvs"
  shows "content (fold (\<lambda>(key, val) s. snd (sysctl_write ops key val s)) kvs s) (key_to_path k) = Some v"
  using assms
proof (induction kvs arbitrary: s)
  case (Cons kv kvs)
  show ?case
  proof (cases "(k, v) = kv")
    case True
    have "\<forall>(k', v') \<in> set kvs. starts_with ''/proc/sys/'' (key_to_path k') \<and> key_to_path k' \<noteq> key_to_path k"
      using Cons.prems True by (force simp: image_iff)
    then show ?thesis using Cons.prems(1) True [symmetric] by (simp add: fold_writes_other sysctl_write_sets)
  qed (use Cons in auto)
qed simp

lemma loosen_never_strict: "CHR ''/'' \<notin> set iface \<Longrightarrow> \<not> strict_at (content s) p \<Longrightarrow> \<not> strict_at (content (ensure_rp_filter_loose ops iface s)) p"
  using loosen_effect [of iface s] strict_upd by metis

lemma loosened:
  assumes "CHR ''/'' \<notin> set iface"
  shows "\<not> strict_at (content (ensure_rp_filter_loose ops iface s)) (key_to_path (rp_filter_key iface))"
proof (cases "strict_at (content s) (key_to_path (rp_filter_key iface))")
  case True
  let ?p = "key_to_path (rp_filter_key iface)"
  obtain w where w: "content s ?p = Some w" "trim w = ''1''" using True by (auto simp: strict_at_def)
  obtain v s1 where r: "fs_read ops ?p s = (Inr v, s1)" using readable [of s ?p] w by auto
  have "trim v = ''1''" using read_file [OF r] w by auto
  then have "ensure_rp_filter_loose ops iface s = snd (sysctl_write ops (rp_filter_key iface) ''2'' s1)"
    using r by (simp add: ensure_rp_filter_loose_def sysctl_read_def)
  then show ?thesis
    using sysctl_write_sets [OF rp_filter_proc [OF assms]] by (simp add: strict_at_def trim_def is_space_def)
qed (rule loosen_never_strict [OF assms])

lemma loosen_other: "CHR ''/'' \<notin> set iface \<Longrightarrow> \<nexists>q. p = q @ ''rp_filter'' \<Longrightarrow> content (ensure_rp_filter_loose ops iface s) p = content s p"
  using loosen_effect [of iface s] rp_filter_suffix [of iface] by auto

end

lemma ipvs_keys:
  "\<forall>(k, v) \<in> set ipvs_sysctls. starts_with ''/proc/sys/'' (key_to_path k)"
  "distinct (map (key_to_path \<circ> fst) ipvs_sysctls)"
  "(k, v) \<in> set ipvs_sysctls \<Longrightarrow> \<nexists>q. key_to_path k = q @ ''rp_filter''"
proof -
  have p: "map (key_to_path \<circ> fst) ipvs_sysctls = map key_to_path plain_keys" by (simp add: plain_keys_def)
  show "distinct (map (key_to_path \<circ> fst) ipvs_sysctls)" unfolding p ipvs_paths by simp
  have s: "x \<in> set (map key_to_path plain_keys)" if "(k, v) \<in> set ipvs_sysctls" "x = key_to_path k" for k v x
    using that by (force simp: plain_keys_def)
  show "\<forall>(k, v) \<in> set ipvs_sysctls. starts_with ''/proc/sys/'' (key_to_path k)"
  proof (clarify)
    fix k v
    assume "(k, v) \<in> set ipvs_sysctls"
    from s [OF this refl] show "starts_with ''/proc/sys/'' (key_to_path k)"
      unfolding ipvs_paths by (auto simp: starts_with_def)
  qed
  show "\<nexists>q. key_to_path k = q @ ''rp_filter''" if "(k, v) \<in> set ipvs_sysctls"
  proof
    assume "\<exists>q. key_to_path k = q @ ''rp_filter''"
    then obtain q where "key_to_path k = q @ ''rp_filter''" ..
    then have "take 2 (rev (key_to_path k)) = ''re''" by simp
    with s [OF that refl] show False unfolding ipvs_paths by auto
  qed
qed


context open_settings
begin

lemma setup_settings:
  assumes frame: "\<And>s. content (snd (addr_show s)) = content s"
    and names: "\<And>ip s iface. fst (iface_for_ip addr_show ip s) = Some iface \<Longrightarrow> CHR ''/'' \<notin> set iface"
    and "(key, val) \<in> set ipvs_sysctls" "iface \<in> {''all'', KUBE_BRIDGE, DUMMY_IF}"
  shows "content (setup_ipvs_sysctls ops open_genl addr_show primary s) (key_to_path key) = Some val
    \<and> \<not> strict_at (content (setup_ipvs_sysctls ops open_genl addr_show primary s)) (key_to_path (rp_filter_key iface))"
proof -
  define s1 where "s1 = fold (\<lambda>(key, val) s. snd (sysctl_write ops key val s)) ipvs_sysctls (open_genl s)"
  define s2 where "s2 = snd (sysctl_read ops ''net.ipv4.vs.conntrack'' s1)"
  define s3 where "s3 = fold (ensure_rp_filter_loose ops) [''all'', KUBE_BRIDGE, DUMMY_IF] s2"
  define good where "good s \<longleftrightarrow> content s (key_to_path key) = Some val" for s
  define loose where "loose s \<longleftrightarrow> \<not> strict_at (content s) (key_to_path (rp_filter_key iface))" for s
  have keep: "good (ensure_rp_filter_loose ops i u) = good u" "loose u \<Longrightarrow> loose (ensure_rp_filter_loose ops i u)"
    if "CHR ''/'' \<notin> set i" for i u
    unfolding good_def loose_def
    using loosen_other [OF that ipvs_keys(3) [OF assms(3)]] loosen_never_strict [OF that] by auto
  have plain: "CHR ''/'' \<notin> set ''all''" "CHR ''/'' \<notin> set KUBE_BRIDGE" "CHR ''/'' \<notin> set DUMMY_IF"
    by (simp_all add: KUBE_BRIDGE_def DUMMY_IF_def)
  have "good s1" unfolding good_def s1_def by (rule fold_writes [OF ipvs_keys(1,2) assms(3)])
  then have "good s2" unfolding good_def s2_def by (simp add: sysctl_read_keeps)
  then have "good s3" unfolding s3_def using keep(1) plain by simp
  moreover have "loose s3"
    unfolding s3_def using assms(4) plain keep(2) loosened by (auto simp: loose_def loosen_never_strict)
  moreover have "setup_ipvs_sysctls ops open_genl addr_show primary s \<in> {s3} \<union> {u. \<exists>s4 i. content s4 = content s3
      \<and> (u = s4 \<or> CHR ''/'' \<notin> set i \<and> u = ensure_rp_filter_loose ops i s4)}"
  proof (cases primary)
    case (Some ip)
    obtain r s4 where r: "iface_for_ip addr_show ip s3 = (r, s4)" by fastforce
    then have "content s4 = content s3"
      using frame [of s3] by (auto simp: iface_for_ip_def split: prod.splits sum.splits)
    moreover have "r = Some i \<Longrightarrow> CHR ''/'' \<notin> set i" for i using names [of ip s3 i] r by simp
    ultimately show ?thesis
      using r Some by (cases r) (auto simp: setup_ipvs_sysctls_def Let_def s1_def s2_def s3_def)
  qed (simp add: setup_ipvs_sysctls_def Let_def s1_def s2_def s3_def)
  ultimately have "good (setup_ipvs_sysctls ops open_genl addr_show primary s)
      \<and> loose (setup_ipvs_sysctls ops open_genl addr_show primary s)"
    using keep unfolding good_def loose_def by auto
  then show ?thesis by (simp add: good_def loose_def)
qed

end

section \<open>Properties of the settings\<close>

text \<open>Files in memory.\<close>

definition mem_files :: "(string \<rightharpoonup> string) file_ops" where
  "mem_files = \<lparr> fs_create_dir_all = (\<lambda>_ m. (Inr (), m)), fs_exists = (\<lambda>p m. m p \<noteq> None),
     fs_copy = (\<lambda>p q m. case m p of None \<Rightarrow> (Inl ''No such file'', m) | Some v \<Rightarrow> (Inr (), m(q \<mapsto> v))),
     fs_set_mode = (\<lambda>_ _ m. (Inr (), m)), fs_write = (\<lambda>p v m. (Inr (), m(p \<mapsto> v))),
     fs_read = (\<lambda>p m. case m p of None \<Rightarrow> (Inl ''No such file'', m) | Some v \<Rightarrow> (Inr v, m)) \<rparr>"

interpretation mem_store: open_settings mem_files "\<lambda>m. m"
  by unfold_locales (auto simp: mem_files_def split: option.splits)



text \<open>The path of a setting is made by replacing every dot of its key, also one inside the name of the interface: on an interface such as a
  VLAN link \<^verbatim>\<open>eth0.100\<close> the loosening reads and writes another path, and a strict reverse-path filter stays strict.\<close>

theorem dotted_interface_stays_strict:
  assumes "file_store ops content" "plain_segment a" "plain_segment b"
  shows "content (ensure_rp_filter_loose ops (a @ ''.'' @ b) s) (''/proc/sys/net/ipv4/conf/'' @ (a @ ''.'' @ b) @ ''/rp_filter'')
    = content s (''/proc/sys/net/ipv4/conf/'' @ (a @ ''.'' @ b) @ ''/rp_filter'')"
proof -
  have sp: "split_on CHR ''.'' (a @ ''.'' @ b) = [a, b]"
    using split_on_join [of "CHR ''.''" a b] assms(2,3) by (simp add: split_on_free plain_segment_def)
  have path: "key_to_path (rp_filter_key (a @ ''.'' @ b)) = ''/proc/sys/net/ipv4/conf/'' @ a @ ''/'' @ b @ ''/rp_filter''"
    using assms(2,3) by (subst rp_filter_path) (simp_all add: sp [simplified])
  have "CHR ''/'' \<notin> set (a @ ''.'' @ b)" using assms(2,3) by (simp add: plain_segment_def)
  from file_store.loosen_effect [OF assms(1) this, of s] path show ?thesis by auto
qed

theorem dotted_interface_stays_strict_witness:
  "ensure_rp_filter_loose mem_files (''eth0'' @ ''.'' @ ''100'') [''/proc/sys/net/ipv4/conf/eth0.100/rp_filter'' \<mapsto> ''1'']
     (''/proc/sys/net/ipv4/conf/'' @ (''eth0'' @ ''.'' @ ''100'') @ ''/rp_filter'') = Some ''1''"
  using dotted_interface_stays_strict [OF mem_store.file_store_axioms, of "''eth0''" "''100''"
      "[''/proc/sys/net/ipv4/conf/eth0.100/rp_filter'' \<mapsto> ''1'']"] by (simp add: plain_segment_def)


section \<open>Properties of the network configuration\<close>

lemma seed_ipam_again: "seed_ipam b (Some (seed_ipam a i)) = seed_ipam b i"
  by (cases i) (simp_all add: seed_ipam_def Let_def)

lemma seed_plugins_split:
  "seed_plugins a ps = Some qs \<Longrightarrow> \<exists>pre p post. ps = pre @ p # post \<and> pl_type p = ''bridge'' \<and> (\<forall>x \<in> set pre. pl_type x \<noteq> ''bridge'')
     \<and> qs = pre @ p \<lparr> pl_ipam := Some (seed_ipam a (pl_ipam p)) \<rparr> # post"
proof (induction ps arbitrary: qs)
  case (Cons p ps)
  show ?case
  proof (cases "pl_type p = ''bridge''")
    case True
    then show ?thesis using Cons.prems by (intro exI [of _ "[]"]) auto
  next
    case False
    then obtain qs' where q: "seed_plugins a ps = Some qs'" "qs = p # qs'" using Cons.prems by auto
    from Cons.IH [OF q(1)] obtain pre x post where "ps = pre @ x # post" "pl_type x = ''bridge''"
      "\<forall>y \<in> set pre. pl_type y \<noteq> ''bridge''" "qs' = pre @ x \<lparr> pl_ipam := Some (seed_ipam a (pl_ipam x)) \<rparr> # post" by blast
    then show ?thesis using q(2) False by (intro exI [of _ "p # pre"]) auto
  qed
qed simp

lemma seed_plugins_at:
  "\<forall>x \<in> set pre. pl_type x \<noteq> ''bridge'' \<Longrightarrow> pl_type p = ''bridge'' \<Longrightarrow>
   seed_plugins a (pre @ p # post) = Some (pre @ p \<lparr> pl_ipam := Some (seed_ipam a (pl_ipam p)) \<rparr> # post)"
  by (induction pre) auto

text \<open>Seeding a configuration with pod CIDRs changes the ranges of its first bridge plugin (and an absent type of its address
  management) and nothing else: every other plugin, the order and all fields the agent does not know are kept, and a second
  seeding gives what it would have given on the original.\<close>

theorem seeding_keeps_the_rest:
  assumes "seed_pod_cidrs show_net cidrs c = Inr c'"
  shows "seed_pod_cidrs show_net cidrs' c' = seed_pod_cidrs show_net cidrs' c \<and> cl_extra c' = cl_extra c
    \<and> (\<exists>pre p post. cl_plugins c = pre @ p # post
         \<and> cl_plugins c' = pre @ p \<lparr> pl_ipam := Some (seed_ipam (map show_net cidrs) (pl_ipam p)) \<rparr> # post)
    \<and> map pl_type (cl_plugins c') = map pl_type (cl_plugins c) \<and> map pl_extra (cl_plugins c') = map pl_extra (cl_plugins c)"
proof -
  obtain qs where q: "seed_plugins (map show_net cidrs) (cl_plugins c) = Some qs" "c' = c \<lparr> cl_plugins := qs \<rparr>"
    using assms by (auto simp: seed_pod_cidrs_def split: option.splits)
  from seed_plugins_split [OF q(1)] obtain pre p post where s: "cl_plugins c = pre @ p # post" "pl_type p = ''bridge''"
    "\<forall>x \<in> set pre. pl_type x \<noteq> ''bridge''" "qs = pre @ p \<lparr> pl_ipam := Some (seed_ipam (map show_net cidrs) (pl_ipam p)) \<rparr> # post"
    by blast
  have "seed_pod_cidrs show_net cidrs' c' = seed_pod_cidrs show_net cidrs' c"
    using s(2,3) by (simp add: seed_pod_cidrs_def q(2) s(1,4) seed_plugins_at seed_ipam_again)
  then show ?thesis using s by (auto simp: q(2))
qed

definition demo_conflist :: conf_list where
  "demo_conflist = \<lparr> cl_plugins = [\<lparr> pl_type = ''bridge'', pl_ipam = None, pl_extra = [(''mtu'', JNum ''1400'')] \<rparr>,
       \<lparr> pl_type = ''portmap'', pl_ipam = None, pl_extra = [] \<rparr>], cl_extra = [(''name'', JStr ''mynet'')] \<rparr>"

theorem seeding_keeps_the_rest_witness:
  "\<exists>c'. seed_pod_cidrs id [''10.244.0.0/24''] demo_conflist = Inr c' \<and> map pl_extra (cl_plugins c') = [[(''mtu'', JNum ''1400'')], []]"
proof -
  let ?c = "demo_conflist \<lparr> cl_plugins := [\<lparr> pl_type = ''bridge'', pl_ipam = Some (seed_ipam [''10.244.0.0/24''] None),
      pl_extra = [(''mtu'', JNum ''1400'')] \<rparr>, \<lparr> pl_type = ''portmap'', pl_ipam = None, pl_extra = [] \<rparr>] \<rparr>"
  have "seed_pod_cidrs id [''10.244.0.0/24''] demo_conflist = Inr ?c" by (simp add: seed_pod_cidrs_def demo_conflist_def)
  from seeding_keeps_the_rest [OF this, of "[]"] this show ?thesis by (auto simp: demo_conflist_def)
qed

text \<open>C38: The configuration the agent writes for a list of pod CIDRs is, read back, its configuration for no CIDRs seeded with that list: the
  document builder and the seeding of an existing document agree.\<close>

theorem written_conflist_is_seeded:
  "\<exists>c. read_conf_list (kuberouter_doc show_net []) = Some c
     \<and> (\<exists>c'. seed_pod_cidrs show_net cidrs c = Inr c' \<and> read_conf_list (kuberouter_doc show_net cidrs) = Some c')"
proof -
  let ?rs = "\<lambda>cs. map (\<lambda>c. [\<lparr> rg_subnet = show_net c, rg_extra = [] \<rparr>]) cs"
  have those: "those (map (Some \<circ> f) xs) = Some (map f xs)" for f :: "'b \<Rightarrow> 'c" and xs by (induction xs) simp_all
  have ranges: "those (map (json_list read_range \<circ> (\<lambda>c. JArr [JObj [(''subnet'', JStr (show_net c))]])) cs) = Some (?rs cs)" for cs
    using those [of "\<lambda>c. [\<lparr> rg_subnet = show_net c, rg_extra = [] \<rparr>]" cs]
    by (simp add: comp_def other_fields_def)
  let ?c = "\<lambda>cs. \<lparr> cl_plugins = [\<lparr> pl_type = ''bridge'',
       pl_ipam = Some \<lparr> ia_type = Some ''host-local'', ia_ranges = Some (?rs cs), ia_extra = [] \<rparr>,
       pl_extra = [(''bridge'', JStr ''kube-bridge''), (''isDefaultGateway'', JBool True), (''hairpinMode'', JBool True)] \<rparr>,
       \<lparr> pl_type = ''loopback'', pl_ipam = None, pl_extra = [] \<rparr>],
     cl_extra = [(''cniVersion'', JStr ''1.0.0''), (''name'', JStr ''kube-router-rs'')] \<rparr>"
  have "read_conf_list (kuberouter_doc show_net cs) = Some (?c cs)" for cs
    using ranges [of cs] by (simp add: kuberouter_doc_def other_fields_def optional_field_def)
  moreover have "seed_pod_cidrs show_net cidrs (?c []) = Inr (?c cidrs)"
    by (simp add: seed_pod_cidrs_def seed_ipam_def)
  ultimately show ?thesis by blast
qed


text \<open>Installing the plugins copies exactly those that are bundled and missing, and overwrites no file.\<close>

definition apart :: "string \<Rightarrow> string \<Rightarrow> string list \<Rightarrow> bool" where
  "apart src dst names = (distinct (map (path_push dst) names)
     \<and> list_all (\<lambda>n. list_all (\<lambda>m. path_push src n \<noteq> path_push dst m) names) names)"

context file_store
begin

lemma install_loop_result:
  assumes "install_loop ops src dst names acc s = (Inr out, s')" "apart src dst names"
  shows "out = acc @ filter (\<lambda>n. content s (path_push dst n) = None \<and> content s (path_push src n) \<noteq> None) names
    \<and> (\<forall>n \<in> set names. content s (path_push src n) \<noteq> None \<longrightarrow> content s' (path_push dst n) \<noteq> None)
    \<and> (\<forall>p. content s p \<noteq> None \<longrightarrow> content s' p = content s p)"
  using assms
proof (induction names arbitrary: acc s)
  case (Cons name names)
  let ?src = "path_push src" and ?dst = "path_push dst"
  have ap: "apart src dst names" using Cons.prems(2) by (auto simp: apart_def list_all_iff)
  consider (skip) "content s (?dst name) \<noteq> None \<or> content s (?src name) = None"
    | (copy) "content s (?dst name) = None" "content s (?src name) \<noteq> None" by blast
  then show ?case
  proof cases
    case skip
    then have "install_loop ops src dst names acc s = (Inr out, s')"
      using Cons.prems(1) by (simp add: exists_file split: if_splits)
    from Cons.IH [OF this ap] show ?thesis using skip by auto
  next
    case copy
    then obtain u1 s1 u2 s2 where c: "fs_copy ops (?src name) (?dst name) s = (Inr u1, s1)"
      and m: "fs_set_mode ops (?dst name) 493 s1 = (Inr u2, s2)"
      and rest: "install_loop ops src dst names (acc @ [name]) s2 = (Inr out, s')"
      using Cons.prems(1) by (auto simp: exists_file split: prod.splits sum.splits)
    have s2: "content s2 = (content s)(?dst name := content s (?src name))"
      using copy_file [OF c] set_mode [OF m] by simp
    have "\<forall>n \<in> set names. ?dst n \<noteq> ?dst name \<and> ?src n \<noteq> ?dst name"
    proof
      fix n
      assume n: "n \<in> set names"
      then have "?dst n \<in> ?dst ` set names" by (rule imageI)
      moreover have "?dst name \<notin> ?dst ` set names" "?src n \<noteq> ?dst name"
        using Cons.prems(2) n by (simp_all add: apart_def list_all_iff)
      ultimately show "?dst n \<noteq> ?dst name \<and> ?src n \<noteq> ?dst name" by metis
    qed
    then have "filter (\<lambda>n. content s2 (?dst n) = None \<and> content s2 (?src n) \<noteq> None) names
        = filter (\<lambda>n. content s (?dst n) = None \<and> content s (?src n) \<noteq> None) names"
      and "\<forall>n \<in> set names. content s2 (?src n) = content s (?src n)"
      by (auto simp: s2 cong: filter_cong)
    with Cons.IH [OF rest ap] copy s2 show ?thesis by auto
  qed
qed simp

lemma install_plugins_result:
  assumes "install_plugins ops src dst names s = (Inr out, s')" "apart src dst names"
  shows "out = filter (\<lambda>n. content s (path_push dst n) = None \<and> content s (path_push src n) \<noteq> None) names
    \<and> (\<forall>n \<in> set names. content s (path_push src n) \<noteq> None \<longrightarrow> content s' (path_push dst n) \<noteq> None)
    \<and> (\<forall>p. content s p \<noteq> None \<longrightarrow> content s' p = content s p)"
proof -
  obtain u s1 where "fs_create_dir_all ops dst s = (Inr u, s1)" "install_loop ops src dst names [] s1 = (Inr out, s')"
    using assms(1) unfolding install_plugins_def by (elim eff_bind_okE) blast
  then show ?thesis using install_loop_result [OF _ assms(2)] create_dir by fastforce
qed

end

text \<open>A successful installation of the required plugins reports exactly the bundled plugins that were missing on the host; afterwards every
  bundled plugin is there, and no file that was there has changed.\<close>

theorem plugins_installed:
  assumes "file_store ops content"
    and "install_plugins ops BUNDLED_CNI_DIR DEFAULT_BIN_DIR REQUIRED_PLUGINS s = (Inr out, s')"
  shows "out = filter (\<lambda>n. content s (path_push DEFAULT_BIN_DIR n) = None \<and> content s (path_push BUNDLED_CNI_DIR n) \<noteq> None) REQUIRED_PLUGINS
    \<and> (\<forall>n \<in> set REQUIRED_PLUGINS. content s (path_push BUNDLED_CNI_DIR n) \<noteq> None \<longrightarrow> content s' (path_push DEFAULT_BIN_DIR n) \<noteq> None)
    \<and> (\<forall>p. content s p \<noteq> None \<longrightarrow> content s' p = content s p)"
proof -
  have "apart BUNDLED_CNI_DIR DEFAULT_BIN_DIR REQUIRED_PLUGINS" by code_simp
  from file_store.install_plugins_result [OF assms this] show ?thesis .
qed

theorem plugins_installed_witness:
  "\<exists>s'. install_plugins mem_files BUNDLED_CNI_DIR DEFAULT_BIN_DIR REQUIRED_PLUGINS [''/opt/cni-bundled/bridge'' \<mapsto> ''x'']
       = (Inr [''bridge''], s') \<and> s' ''/opt/cni-bundled/bridge'' = Some ''x''"
proof -
  let ?s = "[''/opt/cni-bundled/bridge'' \<mapsto> ''x'']"
  have p: "map (path_push BUNDLED_CNI_DIR) REQUIRED_PLUGINS = [''/opt/cni-bundled/bridge'', ''/opt/cni-bundled/host-local'', ''/opt/cni-bundled/loopback'']"
    "map (path_push DEFAULT_BIN_DIR) REQUIRED_PLUGINS = [''/opt/cni/bin/bridge'', ''/opt/cni/bin/host-local'', ''/opt/cni/bin/loopback'']"
    by code_simp+
  obtain s' where s': "install_plugins mem_files BUNDLED_CNI_DIR DEFAULT_BIN_DIR REQUIRED_PLUGINS ?s = (Inr [''bridge''], s')"
    using p by (simp add: install_plugins_def mem_files_def REQUIRED_PLUGINS_def eff_bind_def)
  from plugins_installed [OF mem_store.file_store_axioms this] s' show ?thesis by auto
qed

text \<open>When the plugin directory cannot be made, the set-up returns before it enables forwarding; its caller only logs the error.\<close>

theorem failed_cni_skips_forwarding:
  "fs_create_dir_all ops DEFAULT_BIN_DIR s = (Inl e, s1) \<Longrightarrow>
   setup_cni ops modprobe pretty show_net cidrs True enable_ipv6 s = (Inl e, s1)"
  by (simp add: setup_cni_def install_plugins_def eff_bind_def)


end
