(* ===== verification/Kr_LbWire.thy ===== *)
theory Kr_LbWire
  imports Kr_Kube Kr_Config Kr_Election
begin

text \<open>
  The load balancer allocator against the API server: the projection of Service objects and the status update
  (\<^verbatim>\<open>crates/kube-router-rs/src/lballoc_wire.rs\<close>), the pools of the configuration and the loop over the informer's store
  (\<^verbatim>\<open>run_loadbalancer\<close> of \<^verbatim>\<open>main.rs\<close>). The two calls of the API are a record; the locale \<open>status_api\<close> says what they do
  to the stored objects.
\<close>

section \<open>Objects\<close>

definition map_lb_service :: "k8s_service \<Rightarrow> lb_service option" where
  "map_lb_service svc =
     Option.bind (km_namespace (ksv_meta svc)) (\<lambda>ns. Option.bind (km_name (ksv_meta svc)) (\<lambda>name.
     map_option (\<lambda>spec.
       \<lparr> lb_namespace = ns, lb_name = name, is_loadbalancer = (kss_type spec = Some ''LoadBalancer''),
         loadbalancer_class = kss_load_balancer_class spec,
         want_v4 = (''IPv4'' \<in> set (or_default (kss_ip_families spec))),
         want_v6 = (''IPv6'' \<in> set (or_default (kss_ip_families spec))),
         require_dual = (kss_ip_family_policy spec = Some ''RequireDualStack''),
         lb_external_ips = parse_ips (or_default (kss_external_ips spec)),
         ingress_ips = status_lb_ips svc \<rparr>) (ksv_spec svc)))"

definition lb_services :: "k8s_service list \<Rightarrow> lb_service list" where
  "lb_services store = List.map_filter map_lb_service store"

section \<open>Status update\<close>

datatype status_error = StatusError string

record 's service_api =
  sa_get_status :: "string \<Rightarrow> string \<Rightarrow> ('s, string, k8s_service) eff"
  sa_replace_status :: "string \<Rightarrow> string \<Rightarrow> k8s_service \<Rightarrow> ('s, string, unit) eff"

definition status_fail :: "('s, string, 'a) eff \<Rightarrow> ('s, status_error, 'a) eff" where
  "status_fail m s = (case m s of (Inl e, s') \<Rightarrow> (Inl (StatusError e), s') | (Inr x, s') \<Rightarrow> (Inr x, s'))"

definition push_ingress :: "ip_addr list \<Rightarrow> k8s_service \<Rightarrow> k8s_service" where
  "push_ingress ips svc = svc \<lparr> ksv_ingress := Some (or_default (ksv_ingress svc) @ map (\<lambda>ip. Some (show_addr ip)) ips) \<rparr>"

definition append_ingress :: "'s service_api \<Rightarrow> ('s, status_error) status_updater" where
  "append_ingress api ns name ips =
     eff_bind (status_fail (sa_get_status api ns name)) (\<lambda>svc.
     eff_bind (status_fail (sa_replace_status api ns name (push_ingress ips svc))) (\<lambda>_. eff_ok ()))"

section \<open>Start\<close>

definition split_ranges :: "'n ipnet_api \<Rightarrow> (string \<Rightarrow> 'n option) \<Rightarrow> string list \<Rightarrow> 'n list \<times> 'n list" where
  "split_ranges api parse_net cidrs =
     (let nets = List.map_filter parse_net cidrs
      in (filter (\<lambda>n. net_family api n = V4) nets, filter (\<lambda>n. net_family api n = V6) nets))"

definition lb_start :: "'n ipnet_api \<Rightarrow> (string \<Rightarrow> 'n option) \<Rightarrow> kube_router_config \<Rightarrow> 's \<Rightarrow> ('n, 's) lb_loop" where
  "lb_start api parse_net c s =
     (case split_ranges api parse_net (kc_loadbalancer_ip_range c) of (r4, r6) \<Rightarrow>
        \<lparr> loop_elector = elector_new,
          loop_allocator = \<lparr> v4_ranges = ranges_new api r4, v6_ranges = ranges_new api r6,
                             is_default_class = kc_loadbalancer_default_class c \<rparr>,
          loop_cluster = s, loop_heartbeats = 0, loop_running = True \<rparr>)"

definition lease_namespace :: "string option \<Rightarrow> string" where
  "lease_namespace env_namespace = (case env_namespace of Some n \<Rightarrow> n | None \<Rightarrow> ''kube-system'')"

definition lease_identity :: "string option \<Rightarrow> string option \<Rightarrow> string" where
  "lease_identity env_pod_name env_hostname =
     (case env_pod_name of Some n \<Rightarrow> n | None \<Rightarrow> (case env_hostname of Some n \<Rightarrow> n | None \<Rightarrow> ''kube-router-rs''))"

text \<open>The arms of the loop. A sync reads the store of the informer, which is a function of the outside.\<close>

datatype lb_arm = ElectArm int | SyncArm | ShutdownArm bool

fun lb_event_of :: "('s \<Rightarrow> k8s_service list) \<Rightarrow> 's \<Rightarrow> lb_arm \<Rightarrow> lb_event" where
  "lb_event_of store s (ElectArm now) = ElectionTick now"
| "lb_event_of store s SyncArm = SyncTick (lb_services (store s))"
| "lb_event_of store s (ShutdownArm flag) = Shutdown flag"

fun lb_run ::
  "'n ipnet_api \<Rightarrow> ('s, status_error) lease_api \<Rightarrow> 's service_api \<Rightarrow> ('s \<Rightarrow> k8s_service list) \<Rightarrow> string \<Rightarrow> lb_arm list
     \<Rightarrow> ('n, 's) lb_loop \<Rightarrow> ('n, 's) lb_loop option" where
  "lb_run api lapi sapi store identity [] st = Some st"
| "lb_run api lapi sapi store identity (arm # arms) st =
     (if \<not> loop_running st then Some st
      else case lb_turn api lapi (append_ingress sapi) identity (lb_event_of store (loop_cluster st) arm) st of
             None \<Rightarrow> None
           | Some st' \<Rightarrow> lb_run api lapi sapi store identity arms st')"

section \<open>The contract of the API\<close>

text \<open>Objects are stored by namespace and name, which they carry. A replaced status changes the ingress entries of a stored object and nothing
  else; a failed call changes nothing.\<close>

locale status_api =
  fixes api :: "'s service_api"
    and objs :: "'s \<Rightarrow> string \<times> string \<rightharpoonup> k8s_service"
  assumes get_ok: "sa_get_status api ns n s = (Inr svc, s') \<Longrightarrow> objs s (ns, n) = Some svc \<and> objs s' = objs s"
    and get_err: "sa_get_status api ns n s = (Inl e, s') \<Longrightarrow> objs s' = objs s"
    and replace_ok: "sa_replace_status api ns n svc s = (Inr u, s') \<Longrightarrow>
      \<exists>old. objs s (ns, n) = Some old \<and> objs s' = (objs s)((ns, n) \<mapsto> old \<lparr> ksv_ingress := ksv_ingress svc \<rparr>)"
    and replace_err: "sa_replace_status api ns n svc s = (Inl e, s') \<Longrightarrow> objs s' = objs s"
    and keyed: "objs s (ns, n) = Some svc \<Longrightarrow> km_namespace (ksv_meta svc) = Some ns \<and> km_name (ksv_meta svc) = Some n"
begin

lemma append_ingress_effect:
  assumes "append_ingress api ns n ips s = (r, s')"
  shows "objs s' = objs s \<or> (\<exists>old. objs s (ns, n) = Some old \<and> objs s' = (objs s)((ns, n) \<mapsto> push_ingress ips old))"
proof -
  obtain g s1 where g: "sa_get_status api ns n s = (g, s1)" by fastforce
  show ?thesis
  proof (cases g)
    case (Inl e)
    then show ?thesis using assms g get_err by (auto simp: append_ingress_def eff_bind_def status_fail_def)
  next
    case (Inr svc)
    have o: "objs s (ns, n) = Some svc" "objs s1 = objs s" using get_ok g Inr by auto
    obtain q s2 where q: "sa_replace_status api ns n (push_ingress ips svc) s1 = (q, s2)" by fastforce
    have s2: "s' = s2"
      using assms g Inr q by (cases q) (auto simp: append_ingress_def eff_bind_def status_fail_def eff_ok_def)
    show ?thesis
    proof (cases q)
      case (Inl e)
      then show ?thesis using replace_err q o s2 by auto
    next
      case (Inr u)
      then show ?thesis using replace_ok [of ns n "push_ingress ips svc" s1 u s2] q o s2 by (auto simp: push_ingress_def)
    qed
  qed
qed

end

section \<open>No address for two services\<close>

definition ingress_at :: "(string \<times> string \<rightharpoonup> k8s_service) \<Rightarrow> string \<times> string \<Rightarrow> ip_addr set" where
  "ingress_at os k = (case Option.bind (os k) map_lb_service of Some lb \<Rightarrow> set (ingress_ips lb) | None \<Rightarrow> {})"

definition unshared :: "(string \<times> string \<rightharpoonup> k8s_service) \<Rightarrow> bool" where
  "unshared os \<longleftrightarrow> (\<forall>k k'. k \<noteq> k' \<longrightarrow> ingress_at os k \<inter> ingress_at os k' = {})"

text \<open>The addresses a pass asked for, by service.\<close>

definition logged_at :: "ingress_log \<Rightarrow> string \<times> string \<Rightarrow> ip_addr set" where
  "logged_at log k = \<Union> {set ips | ips. (fst k, snd k, ips) \<in> set log}"

text \<open>Every service has at most gained what the log says.\<close>

definition grown :: "(string \<times> string \<rightharpoonup> k8s_service) \<Rightarrow> ingress_log \<Rightarrow> (string \<times> string \<rightharpoonup> k8s_service) \<Rightarrow> bool" where
  "grown os log os' \<longleftrightarrow> (\<forall>k svc'. os' k = Some svc' \<longrightarrow>
     (\<exists>svc. os k = Some svc \<and> ksv_meta svc' = ksv_meta svc \<and> ksv_spec svc' = ksv_spec svc
        \<and> set (status_lb_ips svc') \<subseteq> set (status_lb_ips svc) \<union> logged_at log k))"

lemma parse_ips_append [simp]: "parse_ips (as @ bs) = parse_ips as @ parse_ips bs"
  by (simp add: parse_ips_def List.map_filter_def)

lemma parse_ips_show [simp]: "parse_ips (map show_addr ips) = ips"
  by (induction ips) (simp_all add: parse_ips_def List.map_filter_simps)

lemma map_filter_append: "List.map_filter f (xs @ ys) = List.map_filter f xs @ List.map_filter f ys"
  by (simp add: List.map_filter_def)

lemma status_push_ingress: "status_lb_ips (push_ingress ips svc) = status_lb_ips svc @ ips"
proof -
  have "List.map_filter id (map (\<lambda>ip. Some (show_addr ip)) ips) = map show_addr ips"
    by (simp add: List.map_filter_def comp_def)
  then show ?thesis
    by (cases "ksv_ingress svc") (simp_all add: status_lb_ips_def push_ingress_def map_filter_append)
qed

lemma push_ingress_fields [simp]:
  "ksv_meta (push_ingress ips svc) = ksv_meta svc" "ksv_spec (push_ingress ips svc) = ksv_spec svc"
  by (simp_all add: push_ingress_def)

lemma grown_refl: "grown os [] os"
  by (auto simp: grown_def)

lemma logged_at_mono: "set log \<subseteq> set log' \<Longrightarrow> logged_at log k \<subseteq> logged_at log' k"
  by (auto simp: logged_at_def)

lemma grown_push:
  assumes "grown os log os'" "os' (ns, n) = Some old"
  shows "grown os (log @ [(ns, n, ips)]) (os'((ns, n) \<mapsto> push_ingress ips old))"
  unfolding grown_def
proof (intro allI impI)
  fix k svc' assume k: "(os'((ns, n) \<mapsto> push_ingress ips old)) k = Some svc'"
  have mono: "logged_at log k \<subseteq> logged_at (log @ [(ns, n, ips)]) k" by (rule logged_at_mono) auto
  show "\<exists>svc. os k = Some svc \<and> ksv_meta svc' = ksv_meta svc \<and> ksv_spec svc' = ksv_spec svc
      \<and> set (status_lb_ips svc') \<subseteq> set (status_lb_ips svc) \<union> logged_at (log @ [(ns, n, ips)]) k"
  proof (cases "k = (ns, n)")
    case True
    have "set ips \<subseteq> logged_at (log @ [(ns, n, ips)]) k" using True by (auto simp: logged_at_def)
    then show ?thesis
      using k assms True mono by (fastforce simp: grown_def status_push_ingress)
  next
    case False
    then show ?thesis using k assms(1) mono unfolding grown_def by fastforce
  qed
qed

lemma grown_keep: "grown os log os' \<Longrightarrow> grown os (log @ [x]) os'"
  using logged_at_mono [of log "log @ [x]"] unfolding grown_def by fastforce

lemma reconcile_loop_invariant:
  assumes "reconcile_loop api f svcs a4 a6 n al s = Some (r, al', s')" "P s"
    and "\<And>ns name ips s r s'. P s \<Longrightarrow> f ns name ips s = (r, s') \<Longrightarrow> P s'"
  shows "P s'"
  using assms(1,2)
proof (induction svcs arbitrary: a4 a6 n al s)
  case (Cons svc svcs)
  then show ?case
    using assms(3) by (auto simp: Let_def split: if_splits option.splits prod.splits sum.splits)
qed simp

lemma map_lb_service_parts:
  "map_lb_service svc = Some lb \<Longrightarrow> ingress_ips lb = status_lb_ips svc"
  "ksv_meta svc' = ksv_meta svc \<Longrightarrow> ksv_spec svc' = ksv_spec svc \<Longrightarrow>
     (map_lb_service svc' = None) = (map_lb_service svc = None)"
  by (auto simp: map_lb_service_def bind_eq_Some_conv bind_eq_None_conv)

lemma ingress_at_grown:
  assumes "grown os log os'"
  shows "ingress_at os' k \<subseteq> ingress_at os k \<union> logged_at log k"
proof
  fix ip assume "ip \<in> ingress_at os' k"
  then obtain svc' lb' where svc': "os' k = Some svc'" "map_lb_service svc' = Some lb'" "ip \<in> set (status_lb_ips svc')"
    by (auto simp: ingress_at_def map_lb_service_parts(1) bind_eq_Some_conv split: option.splits)
  then obtain svc where svc: "os k = Some svc" "ksv_meta svc' = ksv_meta svc" "ksv_spec svc' = ksv_spec svc"
    "ip \<in> set (status_lb_ips svc) \<union> logged_at log k"
    using assms unfolding grown_def by blast
  obtain lb where "map_lb_service svc = Some lb" using map_lb_service_parts(2) [OF svc(2,3)] svc'(2) by fastforce
  then show "ip \<in> ingress_at os k \<union> logged_at log k"
    using svc(1,4) by (auto simp: ingress_at_def map_lb_service_parts(1))
qed

lemma logged_at_assigned: "logged_at log k \<subseteq> set (assigned log)"
  by (force simp: logged_at_def assigned_def)

lemma logged_at_apart:
  assumes "distinct (assigned log)" "k \<noteq> k'"
  shows "logged_at log k \<inter> logged_at log k' = {}"
  using assms(1)
proof (induction log rule: rev_induct)
  case (snoc x log)
  obtain ns n ips where x: "x = (ns, n, ips)" by (cases x)
  have split: "logged_at (log @ [x]) j \<subseteq> logged_at log j \<union> (if j = (ns, n) then set ips else {})" for j
    by (cases j) (auto simp: logged_at_def x)
  have "distinct (assigned log)" "set (assigned log) \<inter> set ips = {}" using snoc.prems by (auto simp: x)
  then show ?case
    using snoc.IH split [of k] split [of k'] logged_at_assigned [of log k] logged_at_assigned [of log k'] assms(2)
    by (cases "k = (ns, n)"; cases "k' = (ns, n)"; simp) blast+
qed (auto simp: logged_at_def)

lemma lb_pass_unshared:
  assumes "ipnet api" "alloc_wf api al" "status_api sapi objs" "unshared (objs s)"
    and "lb_reconcile api (append_ingress sapi) services al s = Some (res, al', s')"
    and cover: "\<And>k svc lb. objs s k = Some svc \<Longrightarrow> map_lb_service svc = Some lb \<Longrightarrow> lb \<in> set services"
  shows "unshared (objs s') \<and> alloc_wf api al' \<and> dom (objs s') \<subseteq> dom (objs s)"
proof -
  let ?f = "append_ingress sapi"
  obtain log where run: "lb_reconcile api (logged ?f) services al (s, []) = Some (res, al', s', log)"
    and wf: "alloc_wf api al'" and dist: "distinct (assigned log)"
    and fresh: "\<forall>ip\<in>set (assigned log). \<forall>svc\<in>set services. ip \<notin> set (service_ips svc)"
    using ipnet.lb_reconcile_spec [OF assms(1,2), of ?f services s] logged_drop [of api ?f services al s] assms(5) by auto
  have step: "grown (objs s) (snd u') (objs (fst u'))"
    if "grown (objs s) (snd u) (objs (fst u))" "logged ?f ns n ips u = (r, u')" for ns n ips u r u'
    using that status_api.append_ingress_effect [OF assms(3), of ns n ips "fst u"] grown_push grown_keep
    by (fastforce simp: logged_def split: prod.splits)
  obtain a4 a6 where loop: "reconcile_loop api (logged ?f) services a4 a6 0 al (s, []) = Some (res, al', (s', log))"
    using run by (auto simp: lb_reconcile_def split: prod.splits)
  have "grown (objs s) (snd (s', log)) (objs (fst (s', log)))"
    by (rule reconcile_loop_invariant [OF loop, where P = "\<lambda>u. grown (objs s) (snd u) (objs (fst u))"])
       (simp add: grown_refl, rule step)
  then have g: "grown (objs s) log (objs s')" by simp
  have old: "ingress_at (objs s) k \<inter> set (assigned log) = {}" for k
    using fresh cover by (fastforce simp: ingress_at_def bind_eq_Some_conv split: option.splits)
  have "ingress_at (objs s') k \<inter> ingress_at (objs s') k' = {}" if "k \<noteq> k'" for k k'
    using that ingress_at_grown [OF g, of k] ingress_at_grown [OF g, of k'] old [of k] old [of k'] logged_at_assigned [of log]
      logged_at_apart [OF dist that] assms(4) unfolding unshared_def by blast
  moreover have "dom (objs s') \<subseteq> dom (objs s)" using g by (fastforce simp: grown_def)
  ultimately show ?thesis using wf by (simp add: unshared_def)
qed

lemma split_ranges_families:
  "split_ranges api parse_net cidrs = (r4, r6) \<Longrightarrow>
     family_ranges api V4 (ranges_new api r4) \<and> family_ranges api V6 (ranges_new api r6)"
  by (auto simp: split_ranges_def Let_def family_ranges_def ranges_new_def list_all_iff)

lemma lb_start_wf:
  assumes "ipnet api" "no_wrap api (List.map_filter parse_net (kc_loadbalancer_ip_range c))"
  shows "alloc_wf api (loop_allocator (lb_start api parse_net c s))"
proof -
  obtain r4 r6 where r: "split_ranges api parse_net (kc_loadbalancer_ip_range c) = (r4, r6)" by fastforce
  have "no_wrap api r4" "no_wrap api r6" using r assms(2) by (auto simp: split_ranges_def Let_def no_wrap_def list_all_iff)
  then show ?thesis
    using split_ranges_families [OF r] ipnet.wf_new [OF assms(1)] by (simp add: lb_start_def r alloc_wf_def pool_wf_def ranges_new_def)
qed

lemma lb_run_unshared:
  assumes "ipnet api" "status_api sapi objs" and store: "\<And>u. ran (objs u) \<subseteq> set (store u)"
    and lease: "\<And>now u. objs (snd (acquire_or_renew lapi identity now u)) = objs u"
    and "alloc_wf api (loop_allocator st)" "unshared (objs (loop_cluster st))"
  shows "\<exists>st'. lb_run api lapi sapi store identity arms st = Some st' \<and> unshared (objs (loop_cluster st'))"
  using assms(5,6)
proof (induction arms arbitrary: st)
  case (Cons arm arms)
  let ?ev = "lb_event_of store (loop_cluster st) arm"
  have "\<exists>st'. lb_turn api lapi (append_ingress sapi) identity ?ev st = Some st'
      \<and> alloc_wf api (loop_allocator st') \<and> unshared (objs (loop_cluster st'))"
  proof (cases arm)
    case (ElectArm now)
    then show ?thesis
      using Cons.prems lease [of now "loop_cluster st"] by (auto split: prod.splits)
  next
    case SyncArm
    let ?svcs = "lb_services (store (loop_cluster st))"
    obtain res al' s' where run: "lb_reconcile api (append_ingress sapi) ?svcs (loop_allocator st) (loop_cluster st) = Some (res, al', s')"
      using ipnet.lb_reconcile_spec [OF assms(1) Cons.prems(1), of "append_ingress sapi" ?svcs "loop_cluster st"]
        logged_drop [of api "append_ingress sapi" ?svcs "loop_allocator st" "loop_cluster st"] by (auto dest!: sym [of "Some _"])
    have "lb \<in> set ?svcs" if "objs (loop_cluster st) k = Some svc" "map_lb_service svc = Some lb" for k svc lb
    proof -
      have "svc \<in> set (store (loop_cluster st))" using that(1) store [of "loop_cluster st"] by (auto intro: ranI)
      then show ?thesis using that(2) by (force simp: lb_services_def List.map_filter_def)
    qed
    from lb_pass_unshared [OF assms(1) Cons.prems(1) assms(2) Cons.prems(2) run this] show ?thesis
      using SyncArm run Cons.prems by simp
  qed (use Cons.prems in simp)
  then show ?case using Cons.IH Cons.prems by auto
qed simp

text \<open>C3: The allocator of a configuration, over any sequence of election, sync and shutdown turns against an API server that keeps its contract, with calls that may
  fail at any point: the loop always ends its turns, and as long as the store of the informer shows every object of the server when a sync reads it,
  no address ever appears in the status of two services, if none did at the start.\<close>

theorem no_address_for_two_services:
  assumes "ipnet api" "status_api sapi objs" "unshared (objs s)"
    and "no_wrap api (List.map_filter parse_net (kc_loadbalancer_ip_range c))"
    and "\<And>u. ran (objs u) \<subseteq> set (store u)"
    and "\<And>now u. objs (snd (acquire_or_renew lapi identity now u)) = objs u"
  shows "\<exists>st. lb_run api lapi sapi store identity arms (lb_start api parse_net c s) = Some st \<and> unshared (objs (loop_cluster st))"
proof -
  have "loop_cluster (lb_start api parse_net c s) = s" by (simp add: lb_start_def split: prod.splits)
  then show ?thesis
    using assms by (intro lb_run_unshared lb_start_wf) simp_all
qed

section \<open>A concrete server\<close>

text \<open>A list of services behind the two calls, and a lease that is always granted.\<close>

definition svc_key_of :: "k8s_service \<Rightarrow> (string \<times> string) option" where
  "svc_key_of svc = Option.bind (km_namespace (ksv_meta svc)) (\<lambda>ns. map_option (\<lambda>n. (ns, n)) (km_name (ksv_meta svc)))"

definition list_objs :: "k8s_service list \<Rightarrow> string \<times> string \<rightharpoonup> k8s_service" where
  "list_objs s k = find (\<lambda>svc. svc_key_of svc = Some k) s"

definition list_api :: "k8s_service list service_api" where
  "list_api =
     \<lparr> sa_get_status = (\<lambda>ns n s. (case list_objs s (ns, n) of Some svc \<Rightarrow> (Inr svc, s) | None \<Rightarrow> (Inl ''not found'', s))),
       sa_replace_status = (\<lambda>ns n svc s.
         if list_objs s (ns, n) = None then (Inl ''not found'', s)
         else (Inr (), map (\<lambda>x. if svc_key_of x = Some (ns, n) then x \<lparr> ksv_ingress := ksv_ingress svc \<rparr> else x) s)) \<rparr>"

definition free_lease :: "(k8s_service list, status_error) lease_api" where
  "free_lease = \<lparr> lease_get_opt = eff_ok None, lease_replace = (\<lambda>_. eff_ok ()), lease_create = (\<lambda>_. eff_ok ()) \<rparr>"

lemma find_map_update:
  assumes "\<And>x. P (g x) = P x"
  shows "find P (map g xs) = map_option g (find P xs)"
  using assms by (induction xs) auto

lemma svc_key_ingress [simp]: "svc_key_of (x \<lparr> ksv_ingress := i \<rparr>) = svc_key_of x"
  by (simp add: svc_key_of_def)

interpretation list_server: status_api list_api list_objs
proof
  fix ns n svc s s' and u :: unit
  assume r: "sa_replace_status list_api ns n svc s = (Inr u, s')"
  let ?g = "\<lambda>x. if svc_key_of x = Some (ns, n) then x \<lparr> ksv_ingress := ksv_ingress svc \<rparr> else x"
  obtain old where old: "list_objs s (ns, n) = Some old" and s': "s' = map ?g s"
    using r by (auto simp: list_api_def split: if_splits)
  have k: "svc_key_of old = Some (ns, n)" using old by (auto simp: list_objs_def find_Some_iff)
  have "list_objs s' j = map_option ?g (list_objs s j)" for j
    unfolding list_objs_def s' by (rule find_map_update) simp
  moreover have "map_option ?g (list_objs s j) = list_objs s j" if "j \<noteq> (ns, n)" for j
  proof (cases "list_objs s j")
    case (Some x)
    then have "svc_key_of x = Some j" by (auto simp: list_objs_def find_Some_iff)
    then show ?thesis using Some that by simp
  qed simp
  ultimately have "list_objs s' = (list_objs s)((ns, n) \<mapsto> old \<lparr> ksv_ingress := ksv_ingress svc \<rparr>)"
    using old k by (auto simp: fun_eq_iff)
  then show "\<exists>old. list_objs s (ns, n) = Some old
      \<and> list_objs s' = (list_objs s)((ns, n) \<mapsto> old \<lparr> ksv_ingress := ksv_ingress svc \<rparr>)"
    using old by blast
qed (auto simp: list_api_def list_objs_def find_Some_iff svc_key_of_def bind_eq_Some_conv split: option.splits if_splits)

definition demo_lb_object :: "string \<Rightarrow> k8s_service" where
  "demo_lb_object name =
     \<lparr> ksv_meta = \<lparr> km_name = Some name, km_namespace = Some ''ns'', km_labels = None, km_annotations = None \<rparr>,
       ksv_spec = Some \<lparr> kss_type = Some ''LoadBalancer'', kss_cluster_ip = None, kss_cluster_ips = None, kss_external_ips = None,
         kss_ports = None, kss_session_affinity = None, kss_affinity_timeout = None, kss_internal_traffic_policy = None,
         kss_external_traffic_policy = None, kss_health_check_node_port = None, kss_load_balancer_class = None,
         kss_ip_families = Some [''IPv4''], kss_ip_family_policy = None \<rparr>,
       ksv_ingress = None \<rparr>"

definition demo_lb_config :: kube_router_config where
  "demo_lb_config = demo_config \<lparr> kc_loadbalancer_ip_range := [''10.0.0.0/30''] \<rparr>"

definition demo_parse_net :: "string \<Rightarrow> cidr option" where
  "demo_parse_net s = (if s = ''10.0.0.0/30'' then Some (Cidr4 0x0A000000 30) else None)"

definition demo_lb_loop :: "'s \<Rightarrow> (cidr, 's) lb_loop" where
  "demo_lb_loop s =
     \<lparr> loop_elector = elector_new,
       loop_allocator = \<lparr> v4_ranges = ranges_new cidr_api [Cidr4 0x0A000000 30], v6_ranges = ranges_new cidr_api [], is_default_class = True \<rparr>,
       loop_cluster = s, loop_heartbeats = 0, loop_running = True \<rparr>"

lemma demo_lb_nets: "List.map_filter demo_parse_net (kc_loadbalancer_ip_range demo_lb_config) = [Cidr4 0x0A000000 30]"
  by (simp add: demo_lb_config_def demo_parse_net_def List.map_filter_def)

lemma demo_lb_start: "lb_start cidr_api demo_parse_net demo_lb_config s = demo_lb_loop s"
proof -
  have "kc_loadbalancer_default_class demo_lb_config" by (simp add: demo_lb_config_def demo_config_def default_config_def)
  then show ?thesis by (simp add: lb_start_def split_ranges_def demo_lb_nets demo_lb_loop_def cidr_api_def)
qed

lemma demo_lb_addresses:
  "map_option (\<lambda>st. map status_lb_ips (loop_cluster st))
     (lb_run cidr_api free_lease list_api (\<lambda>s. s) ''a'' [ElectArm 0, SyncArm]
        (lb_start cidr_api demo_parse_net demo_lb_config [demo_lb_object ''x'', demo_lb_object ''y'']))
   = Some [[AddrV4 0x0A000000], [AddrV4 0x0A000001]]"
  unfolding demo_lb_start by code_simp

theorem no_address_for_two_services_witness:
  "\<exists>st. lb_run cidr_api free_lease list_api (\<lambda>s. s) ''a'' [ElectArm 0, SyncArm]
        (lb_start cidr_api demo_parse_net demo_lb_config [demo_lb_object ''x'', demo_lb_object ''y'']) = Some st
     \<and> unshared (list_objs (loop_cluster st))
     \<and> map status_lb_ips (loop_cluster st) = [[AddrV4 0x0A000000], [AddrV4 0x0A000001]]"
proof -
  let ?s = "[demo_lb_object ''x'', demo_lb_object ''y'']"
  have none: "ingress_at (list_objs ?s) k = {}" for k
    by (auto simp: ingress_at_def list_objs_def demo_lb_object_def map_lb_service_def status_lb_ips_def split: if_splits)
  then have "unshared (list_objs ?s)" by (simp add: unshared_def)
  moreover have "no_wrap cidr_api (List.map_filter demo_parse_net (kc_loadbalancer_ip_range demo_lb_config))"
    unfolding demo_lb_nets by code_simp
  moreover have "ran (list_objs u) \<subseteq> set u" for u by (auto simp: ran_def list_objs_def find_Some_iff)
  moreover have "list_objs (snd (acquire_or_renew free_lease ''a'' now u)) = list_objs u" for now u
    by (simp add: acquire_or_renew_def free_lease_def eff_bind_def eff_ok_def held_by_other_and_fresh_def)
  ultimately obtain st where "lb_run cidr_api free_lease list_api (\<lambda>s. s) ''a'' [ElectArm 0, SyncArm]
      (lb_start cidr_api demo_parse_net demo_lb_config ?s) = Some st" "unshared (list_objs (loop_cluster st))"
    using no_address_for_two_services [OF cidr.ipnet_axioms list_server.status_api_axioms, of ?s demo_parse_net demo_lb_config "\<lambda>s. s" free_lease "''a''"
        "[ElectArm 0, SyncArm]"] by blast
  then show ?thesis using demo_lb_addresses by auto
qed

text \<open>The status that is read back before the update is not looked at: when the store has not yet seen the update of the last pass, the next pass
  appends a second entry with the same address.\<close>

theorem stale_store_assigns_twice:
  "map_option (\<lambda>st. map status_lb_ips (loop_cluster st))
     (lb_run cidr_api free_lease list_api (\<lambda>_. [demo_lb_object ''x'']) ''a'' [ElectArm 0, SyncArm, SyncArm]
        (lb_start cidr_api demo_parse_net demo_lb_config [demo_lb_object ''x'']))
   = Some [[AddrV4 0x0A000000, AddrV4 0x0A000000]]"
  unfolding demo_lb_start by code_simp

end
