(* ===== verification/Kr_ProxyType.thy ===== *)
theory Kr_ProxyType
  imports Kr_ProxyTables
begin

text \<open>
  The well-formedness of the service proxy's own state (the fields of \<^verbatim>\<open>ServiceSync\<close> in \<^verbatim>\<open>crates/proxy/src/sync.rs\<close>), and that every pass keeps it, whatever
  the outside answers and wherever the pass stops.
\<close>

section \<open>Operations that preserve a predicate of the state\<close>

definition preserves :: "(sync_state \<Rightarrow> bool) \<Rightarrow> ('s, 'a) sync \<Rightarrow> bool" where
  "preserves P m \<longleftrightarrow> (\<forall>ys. P (fst ys) \<longrightarrow> P (fst (snd (m ys))))"

named_theorems preserves_intros "rules for preserved predicates"

lemma preservesD: "preserves P m \<Longrightarrow> P y \<Longrightarrow> m (y, s) = (r, y', s') \<Longrightarrow> P y'"
  unfolding preserves_def by (metis fst_conv snd_conv)

lemma preserves_ok [preserves_intros]: "preserves P (eff_ok a)"
  by (simp add: preserves_def eff_ok_def)

lemma preserves_bind [preserves_intros]:
  fixes m :: "('s, 'a) sync" and f :: "'a \<Rightarrow> ('s, 'b) sync"
  assumes "preserves P m" "\<And>a. preserves P (f a)"
  shows "preserves P (eff_bind m f)"
  unfolding preserves_def
proof (rule allI, rule impI)
  fix ys :: "sync_state \<times> 's" assume P: "P (fst ys)"
  obtain r ys1 where m: "m ys = (r, ys1)" by fastforce
  have P1: "P (fst ys1)" using assms(1) P m by (metis preserves_def snd_conv)
  then show "P (fst (snd (eff_bind m f ys)))"
    using assms(2) by (cases r) (auto simp: eff_bind_def m preserves_def)
qed

lemma preserves_for_each [preserves_intros]:
  fixes f :: "'x \<Rightarrow> ('s, unit) sync"
  assumes "\<And>x. x \<in> set xs \<Longrightarrow> preserves P (f x)"
  shows "preserves P (for_each f xs)"
  unfolding preserves_def
proof (intro allI impI)
  fix ys :: "sync_state \<times> 's" assume P: "P (fst ys)"
  obtain r ys' where e: "for_each f xs ys = (r, ys')" by fastforce
  have "P (fst ys')"
    by (rule for_each_invariant [where P = "\<lambda>t. P (fst t)", OF e P]) (use assms in \<open>metis preserves_def snd_conv\<close>)
  then show "P (fst (snd (for_each f xs ys)))" by (simp add: e)
qed

lemma preserves_outside [preserves_intros]: "preserves P (outside g m)"
  by (auto simp: preserves_def outside_def split: prod.split sum.split)

lemma preserves_modify [preserves_intros]: "(\<And>y. P y \<Longrightarrow> P (f y)) \<Longrightarrow> preserves P (modify_self f)"
  by (auto simp: preserves_def modify_self_def)

lemma preserves_with_self [preserves_intros]: "(\<And>y. preserves P (f y)) \<Longrightarrow> preserves P (with_self f)"
  by (auto simp: preserves_def with_self_def)

lemma preserves_reading [preserves_intros]: "(\<And>x. preserves P (f x)) \<Longrightarrow> preserves P (reading r f)"
  by (auto simp: preserves_def reading_def)

lemma preserves_if [preserves_intros]: "(b \<Longrightarrow> preserves P m) \<Longrightarrow> (\<not> b \<Longrightarrow> preserves P n) \<Longrightarrow> preserves P (if b then m else n)"
  by simp

lemma preserves_keeps: "keeps (\<lambda>ys. h (fst ys)) m \<Longrightarrow> preserves (\<lambda>y. Q (h y)) m"
  by (simp add: preserves_def keeps_def)

section \<open>The invariant\<close>

text \<open>What was applied is a map sorted by the key of each virtual service with live destinations only; the owners are recorded for exactly these
  keys; the bound addresses are an ordered set; the queue holds each destination once, with weight zero.\<close>

definition meta_matches :: "(string \<times> (string \<times> string)) list \<Rightarrow> desired_map \<Rightarrow> bool" where
  "meta_matches meta applied \<longleftrightarrow> bmap_ok meta \<and> fst ` set meta = fst ` set applied"

definition queue_wf :: "graceful_queue \<Rightarrow> bool" where
  "queue_wf q \<longleftrightarrow> gq_ok q \<and> list_all (\<lambda>p. ds_weight (pr_dst p) = 0) q"

definition sync_wf :: "sync_state \<Rightarrow> bool" where
  "sync_wf y \<longleftrightarrow> desired_wf (ss_applied y) \<and> meta_matches (ss_meta y) (ss_applied y)
     \<and> sorted (ss_bound_vips y) \<and> distinct (ss_bound_vips y) \<and> queue_wf (ss_gqueue y)"

lemma sync_wf_upd [simp]:
  "sync_wf (y \<lparr> ss_sloppy_tcp := a \<rparr>) = sync_wf y" "sync_wf (y \<lparr> ss_dsr_registry := b \<rparr>) = sync_wf y"
  "sync_wf (y \<lparr> ss_nphc := d \<rparr>) = sync_wf y" "sync_wf (y \<lparr> ss_firewall_setup_done := e \<rparr>) = sync_wf y"
  by (simp_all add: sync_wf_def)

text \<open>The plan.\<close>

definition plan_wf :: "sync_plan \<Rightarrow> bool" where
  "plan_wf p \<longleftrightarrow> meta_matches (sp_meta p) (sp_desired p) \<and> sorted (sp_want_vips p) \<and> distinct (sp_want_vips p)"

lemma plan_wf_at: "plan_wf p \<Longrightarrow> plan_wf (plan_service_at svc a port ds p)"
  by (simp add: plan_wf_def plan_service_at_def Let_def meta_matches_def bmap_ok_insert bmap_insert_keys)

lemma plan_wf_vip: "plan_wf p \<Longrightarrow> plan_wf (add_vip svc eps lo vip p)"
  using plan_wf_at [of p svc vip "si_port svc" "svc_dests svc eps lo"] by (simp add: plan_wf_def add_vip_def)

lemma plan_wf_fold: "(\<And>x p. plan_wf p \<Longrightarrow> plan_wf (f x p)) \<Longrightarrow> plan_wf p \<Longrightarrow> plan_wf (fold f xs p)"
  by (induction xs arbitrary: p) auto

lemma plan_wf_service: "plan_wf p \<Longrightarrow> plan_wf (plan_service api c x p)"
proof -
  assume "plan_wf p"
  then have "plan_wf (p \<lparr> sp_want_sloppy_tcp := b \<rparr>)" for b by (simp add: plan_wf_def)
  then have "plan_wf (fold (add_vip svc eps lo) vips (p \<lparr> sp_want_sloppy_tcp := b \<rparr>))" for svc eps lo vips b
    by (intro plan_wf_fold plan_wf_vip)
  moreover have "plan_wf (plan_external api c svc eps q)" if "plan_wf q" for svc eps q
  proof -
    have "plan_wf (fold (add_vip svc eps lo) vips q)" for lo vips by (rule plan_wf_fold [OF plan_wf_vip that])
    moreover have "plan_wf (q \<lparr> sp_dsr_jobs := js \<rparr>)" for js using that by (simp add: plan_wf_def)
    ultimately show ?thesis using that by (simp add: plan_external_def Let_def)
  qed
  moreover have "plan_wf (plan_node_port c svc eps q)" if "plan_wf q" for svc eps q
    using that by (auto simp: plan_node_port_def Let_def split: option.split intro: plan_wf_fold plan_wf_at)
  ultimately show ?thesis by (simp add: plan_service_def Let_def split: prod.split)
qed

lemma plan_wf_services: "plan_wf (plan_services api c services)"
proof -
  have "plan_wf plan_empty" by (simp add: plan_wf_def plan_empty_def meta_matches_def bmap_ok_def)
  then show ?thesis unfolding plan_services_def by (intro plan_wf_fold plan_wf_service)
qed

lemma remember_wf: "sync_wf y \<Longrightarrow> sync_wf (remember (plan_services api c services) y)"
  using plan_wf_services [of api c services] desired_wf_plan [of api c services]
  by (simp add: sync_wf_def remember_def plan_wf_def)

text \<open>The queue.\<close>

lemma enqueue_wf: "queue_wf q \<Longrightarrow> queue_wf (gq_enqueue svc (d \<lparr> ds_weight := 0 \<rparr>) t q)"
  using gq_ok_enqueue [of q svc "d \<lparr> ds_weight := 0 \<rparr>" t] by (simp add: queue_wf_def gq_enqueue_def)

lemma remove_destination_wf: "preserves sync_wf (remove_destination c svc dst)"
  unfolding remove_destination_def Let_def
  by (intro preserves_intros) (simp add: sync_wf_def enqueue_wf)

text \<open>Draining: while the taken entries are worked off, the queue and the rest of them stay free of repetition.\<close>

definition draining_wf :: "pending_removal list \<Rightarrow> sync_state \<Rightarrow> bool" where
  "draining_wf todo y \<longleftrightarrow> sync_wf (y \<lparr> ss_gqueue := ss_gqueue y @ todo \<rparr>)"

lemma draining_wf_drop: "draining_wf (p # todo) y \<Longrightarrow> draining_wf todo y"
  by (auto simp: draining_wf_def sync_wf_def queue_wf_def gq_ok_def)

lemma draining_wf_requeue: "draining_wf (p # todo) y \<Longrightarrow> draining_wf todo (y \<lparr> ss_gqueue := gq_requeue p (ss_gqueue y) \<rparr>)"
  by (simp add: draining_wf_def gq_requeue_def)

lemma draining_wf_done: "draining_wf todo y \<Longrightarrow> sync_wf y"
  by (auto simp: draining_wf_def sync_wf_def queue_wf_def gq_ok_def)

lemma drain_one_wf:
  assumes "drain_one c now p (y, s) = (r, y', s')" "draining_wf (p # todo) y"
  shows "draining_wf todo y'"
proof -
  have "y' = y \<or> y' = y \<lparr> ss_gqueue := gq_requeue p (ss_gqueue y) \<rparr>"
    using assms(1)
    by (auto simp: drain_one_def with_self_def eff_bind_def eff_ok_def outside_def modify_self_def
        split: if_splits prod.splits sum.splits)
  then show ?thesis using draining_wf_drop [OF assms(2)] draining_wf_requeue [OF assms(2)] by auto
qed

lemma drain_all_wf:
  assumes "for_each (drain_one c now) todo (y, s) = (r, y', s')" "draining_wf todo y"
  shows "sync_wf y'"
  using assms
proof (induction todo arbitrary: y s)
  case Nil
  then show ?case using draining_wf_done by auto
next
  case (Cons p todo)
  obtain r1 y1 s1 where 1: "drain_one c now p (y, s) = (r1, y1, s1)" by (metis prod_cases3)
  have wf1: "draining_wf todo y1" by (rule drain_one_wf [OF 1 Cons.prems(2)])
  show ?case
    using Cons.prems(1) 1 Cons.IH [OF _ wf1] draining_wf_done [OF wf1] by (cases r1) auto
qed

lemma graceful_queue_wf: "preserves sync_wf (process_graceful_queue c)"
  unfolding preserves_def
proof (intro allI impI)
  fix ys :: "sync_state \<times> 'a" assume wf: "sync_wf (fst ys)"
  obtain y s where ys: "ys = (y, s)" by (cases ys)
  obtain r y' s' where l: "for_each (drain_one c (sy_now c s)) (ss_gqueue y) (y \<lparr> ss_gqueue := [] \<rparr>, s) = (r, y', s')"
    by (metis prod_cases3)
  have "sync_wf y'" by (rule drain_all_wf [OF l]) (use wf ys in \<open>simp add: draining_wf_def\<close>)
  then show "sync_wf (fst (snd (process_graceful_queue c ys)))"
    using wf l by (auto simp: ys process_graceful_queue_def with_self_def reading_def gq_take_def eff_bind_def modify_self_def eff_ok_def)
qed

text \<open>The pass.\<close>

lemma sloppy_wf: "preserves sync_wf (sync_sloppy_tcp c b)"
  by (auto simp: preserves_def sync_sloppy_tcp_def split: prod.split sum.split)

lemma program_tables_wf: "preserves sync_wf (program_tables c full (plan_services api pc services))"
  unfolding program_tables_def by (intro preserves_intros) (auto intro: remove_destination_wf remember_wf split: prod.split)

lemma dsr_family_wf: "preserves sync_wf (dsr_family c job x)"
proof -
  have "preserves sync_wf (\<lambda>(y, s). case f y s of (Inl e, reg, s') \<Rightarrow> (Inl (g e), y \<lparr> ss_dsr_registry := reg \<rparr>, s')
         | (Inr _, reg, s') \<Rightarrow> (Inr (), y \<lparr> ss_dsr_registry := reg \<rparr>, s'))"
    for f :: "sync_state \<Rightarrow> 'a \<Rightarrow> ('e + 'f) \<times> fwmark_registry \<times> 'a" and g
    by (auto simp: preserves_def split: prod.split sum.split)
  then show ?thesis unfolding dsr_family_def Let_def by (cases x) (auto intro!: preserves_intros)
qed

lemma sync_rest_wf: "preserves sync_wf (sync_rest c jobs)"
  unfolding sync_rest_def
proof (intro preserves_intros graceful_queue_wf)
  show "preserves sync_wf (update_metrics c)"
    unfolding update_metrics_def by (auto split: option.split intro!: preserves_intros)
  show "preserves sync_wf (process_dsr_jobs c jobs)"
    unfolding process_dsr_jobs_def by (intro preserves_intros dsr_family_wf)
  show "preserves sync_wf (sync_hairpin_rules c)"
    unfolding sync_hairpin_rules_def by (auto intro!: preserves_intros)
  show "preserves sync_wf (sync_masquerade_rules c)"
    unfolding sync_masquerade_rules_def by (auto split: option.split prod.split intro!: preserves_intros)
  show "preserves sync_wf (sync_nodeport_healthchecks c)"
    unfolding sync_nodeport_healthchecks_def preserves_def by (auto split: option.split prod.split sum.split)
  show "preserves sync_wf (sync_firewall c)"
    unfolding sync_firewall_def by (auto split: option.split intro!: preserves_intros)
qed

lemma reconcile_inner_wf: "preserves sync_wf (reconcile_inner c full)"
  unfolding reconcile_inner_def Let_def
  by (intro preserves_intros sloppy_wf program_tables_wf sync_rest_wf)

lemma sync_run_wf: "sync_wf (fst ys) \<Longrightarrow> sync_wf (fst (sync_run c beat ws ys))"
proof (induction ws arbitrary: ys)
  case (Cons w ws)
  obtain y s where ys: "ys = (y, s)" by (cases ys)
  have step: "sync_wf (fst (snd (reconcile_inner c full (y, s))))" for full
    using reconcile_inner_wf [of c full] Cons.prems ys unfolding preserves_def by (metis fst_conv)
  show ?case
    using Cons step [of True] step [of False] by (cases w) (auto simp: ys split: prod.split)
qed simp

end
