(* ===== verification/Kr_Serve.thy ===== *)
theory Kr_Serve
  imports Kr_Health Kr_ProxySync
begin

text \<open>
  The surfaces of the agent and the processes beside it: the HTTP responder (\<^verbatim>\<open>crates/observability/src/http.rs\<close>), the metrics families
  (\<^verbatim>\<open>metrics.rs\<close>) and the log level (\<^verbatim>\<open>logging.rs\<close>), the supervision of gobgpd (\<^verbatim>\<open>crates/bgp/src/server.rs\<close>) with the names of defined
  sets (\<^verbatim>\<open>policy.rs\<close>), the client of the container runtime (\<^verbatim>\<open>crates/cri/src/lib.rs\<close>) and the choice of the Kubernetes configuration
  (\<^verbatim>\<open>crates/kube-client/src/client.rs\<close>). Sockets, processes, the clock and the decoders of crates are parameters.
\<close>

section \<open>HTTP\<close>

text \<open>The response is the record that the node-port health checks use too.\<close>

definition reason :: "u16 \<Rightarrow> string" where
  "reason status =
     (if status = 200 then ''OK'' else if status = 404 then ''Not Found''
      else if status = 500 then ''Internal Server Error'' else if status = 503 then ''Service Unavailable'' else ''Unknown'')"

definition parse_path :: "string \<Rightarrow> string option" where
  "parse_path req =
     (case str_lines req of
        [] \<Rightarrow> None
      | line # _ \<Rightarrow> (case split_whitespace line of _ # p # _ \<Rightarrow> Some p | _ \<Rightarrow> None))"

definition crlf :: string where "crlf = [CHR 0x0D, CHR 0x0A]"

definition response_text :: "http_response \<Rightarrow> string" where
  "response_text r =
     ''HTTP/1.1 '' @ show_nat (unat (hr_status r)) @ '' '' @ reason (hr_status r) @ crlf @ ''Content-Type: '' @ hr_content_type r @ crlf
     @ ''Content-Length: '' @ show_nat (length (hr_body r)) @ crlf @ ''Connection: close'' @ crlf @ crlf @ hr_body r"

text \<open>One connection: what the single read of at most 2048 bytes delivered (an error closes the connection), and what is written back. \<open>lossy\<close> is
  the decoding of the bytes.\<close>

definition handle_conn :: "(string \<Rightarrow> string) \<Rightarrow> (string \<Rightarrow> http_response) \<Rightarrow> string + string \<Rightarrow> string option" where
  "handle_conn lossy handler received =
     (case received of
        Inl _ \<Rightarrow> None
      | Inr bytes \<Rightarrow> Some (response_text (handler (case parse_path (lossy (take 2048 bytes)) of Some p \<Rightarrow> p | None \<Rightarrow> ''/''))))"

definition not_found :: http_response where
  "not_found = \<lparr> hr_status = 404, hr_content_type = ''text/plain'', hr_body = ''not found'' \<rparr>"

definition health_handler :: "nat \<Rightarrow> health_state \<Rightarrow> string \<Rightarrow> http_response" where
  "health_handler now h path =
     (if starts_with ''/healthz'' path then
        (case healthz_response now h of (status, body) \<Rightarrow> \<lparr> hr_status = of_nat status, hr_content_type = ''text/plain'', hr_body = body \<rparr>)
      else not_found)"

definition metrics_handler :: "string \<Rightarrow> string \<Rightarrow> string \<Rightarrow> http_response" where
  "metrics_handler gathered metrics_path path =
     (if path = metrics_path
      then \<lparr> hr_status = 200, hr_content_type = ''text/plain; version=0.0.4'', hr_body = gathered \<rparr>
      else not_found)"

section \<open>Metrics\<close>

text \<open>A family of gauges maps the values of the labels to the value. The conversion of a counter to floating point is \<open>f\<close>.\<close>

type_synonym 'f gauge = "string list \<rightharpoonup> 'f"

record 'f service_metrics =
  sg_total_connections :: "'f gauge"
  sg_packets_in :: "'f gauge"
  sg_packets_out :: "'f gauge"
  sg_bytes_in :: "'f gauge"
  sg_bytes_out :: "'f gauge"
  sg_cps :: "'f gauge"
  sg_pps_in :: "'f gauge"
  sg_pps_out :: "'f gauge"
  sg_bps_in :: "'f gauge"
  sg_bps_out :: "'f gauge"
  sg_ipvs_services :: nat

definition sample_labels :: "stat_sample \<Rightarrow> string list" where
  "sample_labels s = [sm_namespace s, sm_service s, sm_vip s, sm_protocol s, show_nat (unat (sm_port s))]"

definition reset_gauges :: "'f service_metrics \<Rightarrow> 'f service_metrics" where
  "reset_gauges m =
     m \<lparr> sg_total_connections := Map.empty, sg_packets_in := Map.empty, sg_packets_out := Map.empty, sg_bytes_in := Map.empty,
         sg_bytes_out := Map.empty, sg_cps := Map.empty, sg_pps_in := Map.empty, sg_pps_out := Map.empty,
         sg_bps_in := Map.empty, sg_bps_out := Map.empty \<rparr>"

definition set_sample :: "(u64 \<Rightarrow> 'f) \<Rightarrow> stat_sample \<Rightarrow> 'f service_metrics \<Rightarrow> 'f service_metrics" where
  "set_sample f s m =
     (let l = sample_labels s; st = sm_stats s in
      m \<lparr> sg_total_connections := (sg_total_connections m)(l \<mapsto> f (st_connections st)),
          sg_packets_in := (sg_packets_in m)(l \<mapsto> f (st_packets_in st)), sg_packets_out := (sg_packets_out m)(l \<mapsto> f (st_packets_out st)),
          sg_bytes_in := (sg_bytes_in m)(l \<mapsto> f (st_bytes_in st)), sg_bytes_out := (sg_bytes_out m)(l \<mapsto> f (st_bytes_out st)),
          sg_cps := (sg_cps m)(l \<mapsto> f (st_cps st)), sg_pps_in := (sg_pps_in m)(l \<mapsto> f (st_pps_in st)),
          sg_pps_out := (sg_pps_out m)(l \<mapsto> f (st_pps_out st)), sg_bps_in := (sg_bps_in m)(l \<mapsto> f (st_bps_in st)),
          sg_bps_out := (sg_bps_out m)(l \<mapsto> f (st_bps_out st)) \<rparr>)"

definition metrics_update :: "(u64 \<Rightarrow> 'f) \<Rightarrow> stat_sample list \<Rightarrow> nat \<Rightarrow> 'f service_metrics \<Rightarrow> 'f service_metrics" where
  "metrics_update f samples service_count m = (fold (set_sample f) samples (reset_gauges m)) \<lparr> sg_ipvs_services := service_count \<rparr>"

section \<open>Log level\<close>

datatype level_filter = INFO | DEBUG | TRACE

definition verbosity_to_level :: "string \<Rightarrow> level_filter" where
  "verbosity_to_level v =
     (case parse_u32 (trim v) of None \<Rightarrow> INFO | Some n \<Rightarrow> if n = 0 then INFO else if n = 1 then DEBUG else TRACE)"

section \<open>gobgpd\<close>

record 'h supervisor =
  sp_program :: string
  sp_args :: "string list"
  sp_child :: "'h option"

record ('s, 'h) process_ops =
  po_spawn :: "string \<Rightarrow> string list \<Rightarrow> ('s, string, 'h) eff"
  po_start_kill :: "'h \<Rightarrow> ('s, string, unit) eff"
  po_wait :: "'h \<Rightarrow> ('s, string, unit) eff"

definition supervisor_new :: "string \<Rightarrow> string list \<Rightarrow> 'h supervisor" where
  "supervisor_new program args = \<lparr> sp_program = program, sp_args = args, sp_child = None \<rparr>"

definition gobgpd_args :: "string \<Rightarrow> u16 \<Rightarrow> string list" where
  "gobgpd_args admin_addr admin_port = [''--api-hosts'', admin_addr @ '':'' @ show_nat (unat admin_port)]"

definition supervisor_gobgpd :: "string \<Rightarrow> string \<Rightarrow> u16 \<Rightarrow> 'h supervisor" where
  "supervisor_gobgpd binary admin_addr admin_port = supervisor_new binary (gobgpd_args admin_addr admin_port)"

definition is_running :: "'h supervisor \<Rightarrow> bool" where
  "is_running p = (sp_child p \<noteq> None)"

definition supervisor_spawn :: "('s, 'h) process_ops \<Rightarrow> 'h supervisor \<Rightarrow> 's \<Rightarrow> (string + unit) \<times> 'h supervisor \<times> 's" where
  "supervisor_spawn ops p s =
     (case po_spawn ops (sp_program p) (sp_args p) s of
        (Inl e, s') \<Rightarrow> (Inl e, p, s')
      | (Inr child, s') \<Rightarrow> (Inr (), p \<lparr> sp_child := Some child \<rparr>, s'))"

definition supervisor_terminate :: "('s, 'h) process_ops \<Rightarrow> 'h supervisor \<Rightarrow> 's \<Rightarrow> (string + unit) \<times> 'h supervisor \<times> 's" where
  "supervisor_terminate ops p s =
     (case sp_child p of
        None \<Rightarrow> (Inr (), p, s)
      | Some child \<Rightarrow>
         (case eff_bind (po_start_kill ops child) (\<lambda>_. po_wait ops child) s of (r, s') \<Rightarrow> (r, p \<lparr> sp_child := None \<rparr>, s')))"

text \<open>Times in nanoseconds. The loop is bounded only by the clock.\<close>

record 's port_probe =
  pp_connect :: "string \<Rightarrow> 's \<Rightarrow> bool \<times> 's"
  pp_now :: "'s \<Rightarrow> nat"
  pp_sleep :: "nat \<Rightarrow> 's \<Rightarrow> 's"

partial_function (option) wait_loop :: "'s port_probe \<Rightarrow> string \<Rightarrow> nat \<Rightarrow> 's \<Rightarrow> (bool \<times> 's) option" where
  "wait_loop pr addr deadline s =
     (case pp_connect pr addr s of
        (ready, s1) \<Rightarrow>
         if ready then Some (True, s1)
         else if pp_now pr s1 \<ge> deadline then Some (False, s1)
         else wait_loop pr addr deadline (pp_sleep pr (20 * 10 ^ 6) s1))"

definition wait_port_ready :: "'s port_probe \<Rightarrow> string \<Rightarrow> nat \<Rightarrow> 's \<Rightarrow> (bool \<times> 's) option" where
  "wait_port_ready pr addr timeout s = wait_loop pr addr (pp_now pr s + timeout) s"

section \<open>Defined sets\<close>

datatype defined_set_kind = PodCidrSet | ServiceVipSet | CustomImportReject | DefaultRoute

record 'n defined_set =
  ds_name :: string
  ds_kind :: defined_set_kind
  ds_prefixes :: "'n list"

fun defined_set_base :: "defined_set_kind \<Rightarrow> string" where
  "defined_set_base PodCidrSet = ''podcidrdefinedset''"
| "defined_set_base ServiceVipSet = ''servicevipsdefinedset''"
| "defined_set_base CustomImportReject = ''customimportrejectdefinedset''"
| "defined_set_base DefaultRoute = ''defaultroutedefinedset''"

definition defined_set_new :: "defined_set_kind \<Rightarrow> bool \<Rightarrow> 'n list \<Rightarrow> 'n defined_set" where
  "defined_set_new kind v6 prefixes =
     \<lparr> ds_name = (if v6 then defined_set_base kind @ ''v6'' else defined_set_base kind), ds_kind = kind, ds_prefixes = prefixes \<rparr>"

section \<open>Container runtime\<close>

datatype cri_error = CriEndpoint string | CriTransport string | CriRpc string | CriInfo string | CriTimeout nat

definition squoted :: "string \<Rightarrow> string" where
  "squoted s = [CHR 0x27] @ s @ [CHR 0x27]"

definition BAD_ENDPOINT :: cri_error where
  "BAD_ENDPOINT = CriEndpoint (''bad endpoint format, should be '' @ squoted ''protocol://path'')"

definition endpoint_parser :: "string \<Rightarrow> cri_error + string \<times> string" where
  "endpoint_parser endpoint =
     (case split_once_str ''://'' endpoint of
        Some (p, a) \<Rightarrow> if p \<noteq> [] \<and> a \<noteq> [] then Inr (p, a) else Inl BAD_ENDPOINT
      | None \<Rightarrow> Inl BAD_ENDPOINT)"

record runtime_service =
  rts_path :: string
  rts_timeout :: nat

definition cri_connect :: "string \<Rightarrow> nat \<Rightarrow> cri_error + runtime_service" where
  "cri_connect endpoint timeout =
     (case endpoint_parser endpoint of
        Inl e \<Rightarrow> Inl e
      | Inr (proto, path) \<Rightarrow>
          if proto \<noteq> ''unix'' then Inl (CriEndpoint (''only unix socket is supported, got '' @ squoted proto))
          else Inr \<lparr> rts_path = path, rts_timeout = timeout \<rparr>)"

text \<open>The call of the runtime: its answer may not come in time, may be an error, or carries the verbose information by name. The JSON decoder is a parameter.\<close>

datatype rpc_outcome = RpcElapsed | RpcFailed string | RpcReply "string \<rightharpoonup> string"

definition parse_container_pid :: "(string \<Rightarrow> string + i32) \<Rightarrow> string \<Rightarrow> cri_error + i32" where
  "parse_container_pid json_pid info = (case json_pid info of Inl e \<Rightarrow> Inl (CriInfo e) | Inr pid \<Rightarrow> Inr pid)"

definition container_pid ::
  "(string \<Rightarrow> string + i32) \<Rightarrow> (string \<Rightarrow> string \<Rightarrow> bool \<Rightarrow> rpc_outcome) \<Rightarrow> runtime_service \<Rightarrow> string \<Rightarrow> cri_error + i32" where
  "container_pid json_pid container_status rs container_id =
     (case container_status (rts_path rs) container_id True of
        RpcElapsed \<Rightarrow> Inl (CriTimeout (rts_timeout rs))
      | RpcFailed e \<Rightarrow> Inl (CriRpc e)
      | RpcReply info \<Rightarrow>
         (case info ''info'' of
            None \<Rightarrow> Inl (CriInfo (''missing verbose '' @ squoted ''info'' @ '' field''))
          | Some blob \<Rightarrow> parse_container_pid json_pid blob))"

section \<open>Kubernetes client\<close>

datatype client_error = InferError string | KubeconfigError string | MasterError string | KubeError string

record 'cfg kube_crate =
  kk_read_from :: "string \<Rightarrow> string + 'cfg"
  kk_infer :: "string + 'cfg"
  kk_parse_url :: "string \<Rightarrow> string + string"
  kk_set_url :: "string \<Rightarrow> 'cfg \<Rightarrow> 'cfg"

definition client_config :: "'cfg kube_crate \<Rightarrow> string option \<Rightarrow> string option \<Rightarrow> client_error + 'cfg" where
  "client_config kk kubeconfig master =
     (let base = (case kubeconfig of
                    Some path \<Rightarrow> if path \<noteq> [] then map_sum KubeconfigError id (kk_read_from kk path) else map_sum InferError id (kk_infer kk)
                  | None \<Rightarrow> map_sum InferError id (kk_infer kk))
      in case base of
           Inl e \<Rightarrow> Inl e
         | Inr cfg \<Rightarrow>
            (case master of
               None \<Rightarrow> Inr cfg
             | Some m \<Rightarrow> if m = [] then Inr cfg
                         else (case kk_parse_url kk m of Inl e \<Rightarrow> Inl (MasterError e) | Inr url \<Rightarrow> Inr (kk_set_url kk url cfg))))"

section \<open>Properties\<close>

text \<open>Texts without white space stay whole, and a request line gives its path.\<close>

definition solid :: "string \<Rightarrow> bool" where
  "solid w \<longleftrightarrow> w \<noteq> [] \<and> (\<forall>c\<in>set w. \<not> is_space c)"

lemma solid_facts: "solid w \<Longrightarrow> w \<noteq> []" "solid w \<Longrightarrow> CHR '' '' \<notin> set w" "solid w \<Longrightarrow> CHR 0x0A \<notin> set w"
  "solid w \<Longrightarrow> map (\<lambda>c. if is_space c then CHR '' '' else c) w = w"
proof -
  show "solid w \<Longrightarrow> w \<noteq> []" by (simp add: solid_def)
  have "is_space (CHR '' '')" "is_space (CHR 0x0A)" by code_simp+
  then show "solid w \<Longrightarrow> CHR '' '' \<notin> set w" "solid w \<Longrightarrow> CHR 0x0A \<notin> set w" by (auto simp: solid_def)
  show "solid w \<Longrightarrow> map (\<lambda>c. if is_space c then CHR '' '' else c) w = w" by (intro map_idI) (auto simp: solid_def)
qed

lemma split_whitespace_three:
  assumes "solid a" "solid b" "solid c"
  shows "split_whitespace (a @ '' '' @ b @ '' '' @ c) = [a, b, c]"
proof -
  have sp: "is_space (CHR '' '')" by code_simp
  show ?thesis
    using split_on_append [OF solid_facts(2) [OF assms(1)], of "b @ '' '' @ c"] split_on_append [OF solid_facts(2) [OF assms(2)], of c]
      split_on_free [OF solid_facts(2) [OF assms(3)]]
    by (simp add: split_whitespace_def solid_facts assms sp)
qed

lemma parse_path_request:
  assumes "solid verb" "solid path" "solid version"
  shows "parse_path (verb @ '' '' @ path @ '' '' @ version @ crlf @ rest) = Some path"
proof -
  let ?l = "verb @ '' '' @ path @ '' '' @ version"
  have nl: "CHR 0x0A \<notin> set (?l @ [CHR 0x0D])" using solid_facts(3) assms by auto
  have "split_on (CHR 0x0A) (?l @ crlf @ rest) = (?l @ [CHR 0x0D]) # split_on (CHR 0x0A) rest"
    using split_on_append [OF nl, of rest] by (simp add: crlf_def)
  then have "\<exists>ls. str_lines (?l @ crlf @ rest) = strip_cr (?l @ [CHR 0x0D]) # ls"
    by (simp add: str_lines_def Let_def)
  moreover have "strip_cr (w @ [CHR 0x0D]) = w" for w by (simp add: strip_cr_def)
  ultimately have "\<exists>ls. str_lines (?l @ crlf @ rest) = ?l # ls" by metis
  then show ?thesis using split_whitespace_three [OF assms] by (auto simp: parse_path_def)
qed

lemma health_handler_healthz:
  "health_handler now h (''/healthz'' @ query) =
     \<lparr> hr_status = of_nat (fst (healthz_response now h)), hr_content_type = ''text/plain'', hr_body = snd (healthz_response now h) \<rparr>"
  unfolding health_handler_def starts_with_def strip_prefix_append by (simp split: prod.split)

lemma health_texts:
  "response_text \<lparr> hr_status = 200, hr_content_type = ''text/plain'', hr_body = ''OK'' \<rparr> =
     ''HTTP/1.1 200 OK'' @ crlf @ ''Content-Type: text/plain'' @ crlf @ ''Content-Length: 2'' @ crlf @ ''Connection: close'' @ crlf @ crlf @ ''OK''"
  "response_text \<lparr> hr_status = 500, hr_content_type = ''text/plain'', hr_body = ''Unhealthy'' \<rparr> =
     ''HTTP/1.1 500 Internal Server Error'' @ crlf @ ''Content-Type: text/plain'' @ crlf @ ''Content-Length: 9'' @ crlf
       @ ''Connection: close'' @ crlf @ crlf @ ''Unhealthy''"
  by code_simp+

text \<open>C35: A liveness probe over HTTP: a request for a path under \<^verbatim>\<open>/healthz\<close> that fits the read buffer is answered with the status line 200 exactly when no enabled
  controller is stale, and with 500 otherwise.\<close>

theorem probe_reports_health:
  assumes "solid verb" "solid version" "solid (''/healthz'' @ query)"
    and "req = verb @ '' '' @ (''/healthz'' @ query) @ '' '' @ version @ crlf @ headers" "length req \<le> 2048"
  shows "handle_conn id (health_handler now (beat_all es (register_all c t0))) (Inr req) =
     Some (if list_all (\<lambda>(comp, period). let ts = beats_of comp es in
             now - last (t0 # ts) \<le> period + (case ts of [] \<Rightarrow> 0 | t # _ \<Rightarrow> t - t0) + GRACE) (components_for c)
           then ''HTTP/1.1 200 OK'' @ crlf @ ''Content-Type: text/plain'' @ crlf @ ''Content-Length: 2'' @ crlf @ ''Connection: close''
                  @ crlf @ crlf @ ''OK''
           else ''HTTP/1.1 500 Internal Server Error'' @ crlf @ ''Content-Type: text/plain'' @ crlf @ ''Content-Length: 9'' @ crlf
                  @ ''Connection: close'' @ crlf @ crlf @ ''Unhealthy'')"
proof -
  have p: "parse_path (id (take 2048 req)) = Some (''/healthz'' @ query)"
    using parse_path_request [OF assms(1,3,2), of headers] assms(4,5) by simp
  show ?thesis
    unfolding handle_conn_def sum.case p option.case health_handler_healthz healthz_of_beats
    by (simp only: if_distrib [of fst] if_distrib [of snd] if_distrib [of of_nat] of_nat_numeral fst_conv snd_conv health_texts if_distrib [of "\<lambda>b. Some (response_text b)"] split: if_split) simp
qed

lemma fold_map_upd: "fold (\<lambda>s g. g(l s \<mapsto> v s)) xs g = g ++ map_of (rev (map (\<lambda>s. (l s, v s)) xs))"
  by (induction xs arbitrary: g) (auto simp: map_add_def fun_eq_iff split: option.splits)

text \<open>An update of the metrics publishes exactly the given samples: whatever was published before is gone, and every family holds for the labels of a sample
  the counter of the last sample with these labels.\<close>

theorem metrics_update_replaces:
  "metrics_update f samples n m =
     (let series = (\<lambda>v. map_of (rev (map (\<lambda>s. (sample_labels s, f (v (sm_stats s)))) samples))) in
      \<lparr> sg_total_connections = series st_connections, sg_packets_in = series st_packets_in, sg_packets_out = series st_packets_out,
        sg_bytes_in = series st_bytes_in, sg_bytes_out = series st_bytes_out, sg_cps = series st_cps, sg_pps_in = series st_pps_in,
        sg_pps_out = series st_pps_out, sg_bps_in = series st_bps_in, sg_bps_out = series st_bps_out, sg_ipvs_services = n \<rparr>)"
proof -
  have field: "g (fold (set_sample f) samples m) = fold (\<lambda>s h. h(sample_labels s \<mapsto> f (v (sm_stats s)))) samples (g m)"
    if "\<And>s m. g (set_sample f s m) = (g m)(sample_labels s \<mapsto> f (v (sm_stats s)))" for g v m
    by (induction samples arbitrary: m) (simp_all add: that)
  note step = set_sample_def Let_def
  show ?thesis
    unfolding metrics_update_def Let_def
    by (rule service_metrics.equality)
       (simp_all add: field [of sg_total_connections st_connections] field [of sg_packets_in st_packets_in] field [of sg_packets_out st_packets_out]
          field [of sg_bytes_in st_bytes_in] field [of sg_bytes_out st_bytes_out] field [of sg_cps st_cps] field [of sg_pps_in st_pps_in]
          field [of sg_pps_out st_pps_out] field [of sg_bps_in st_bps_in] field [of sg_bps_out st_bps_out] step fold_map_upd reset_gauges_def)
qed

text \<open>C19: Waiting for the port of gobgpd ends, for every clock that does not go back and that a pause moves on by its length: the answer is positive only after a
  connection succeeded, and negative only when the deadline has passed.\<close>

theorem wait_port_ready_ends:
  fixes s :: 's
  assumes "\<And>s ok s'. pp_connect pr addr s = (ok, s') \<Longrightarrow> pp_now pr s' \<ge> pp_now pr s"
    and "\<And>s d. pp_now pr (pp_sleep pr d s) \<ge> pp_now pr s + d"
  shows "\<exists>ok s'. wait_port_ready pr addr timeout s = Some (ok, s')
     \<and> (ok \<longrightarrow> (\<exists>u. pp_connect pr addr u = (True, s'))) \<and> (\<not> ok \<longrightarrow> pp_now pr s' \<ge> pp_now pr s + timeout)"
proof -
  have "\<exists>ok s'. wait_loop pr addr deadline s = Some (ok, s')
     \<and> (ok \<longrightarrow> (\<exists>u. pp_connect pr addr u = (True, s'))) \<and> (\<not> ok \<longrightarrow> pp_now pr s' \<ge> deadline)" for deadline
  proof (induction "deadline - pp_now pr s" arbitrary: s rule: less_induct)
    case less
    obtain ok s1 where c: "pp_connect pr addr s = (ok, s1)" by fastforce
    note unfolded = wait_loop.simps [of pr addr deadline s, unfolded c prod.case]
    show ?case
    proof (cases "ok \<or> pp_now pr s1 \<ge> deadline")
      case True
      then show ?thesis unfolding unfolded using c by (cases ok) auto
    next
      case False
      let ?s2 = "pp_sleep pr (20 * 10 ^ 6) s1"
      have "deadline - pp_now pr ?s2 < deadline - pp_now pr s"
      proof (rule diff_less_mono2)
        have "0 < (20 * 10 ^ 6 :: nat)" by simp
        then show "pp_now pr s < pp_now pr ?s2" using assms(1) [OF c] assms(2) [of s1 "20 * 10 ^ 6"] by linarith
        show "pp_now pr s < deadline" using False assms(1) [OF c] by auto
      qed
      from less [OF this] show ?thesis unfolding unfolded using False by simp
    qed
  qed
  then show ?thesis by (simp add: wait_port_ready_def)
qed

lemma split_once_str_append:
  assumes "CHR '':'' \<notin> set a"
  shows "split_once_str ''://'' (a @ ''://'' @ b) = Some (a, b)"
  using assms by (induction a) auto

lemma split_once_str_Some:
  "p \<noteq> [] \<Longrightarrow> split_once_str p s = Some (a, b) \<Longrightarrow> s = a @ p @ b"
proof (induction s arbitrary: a)
  case (Cons x xs)
  then show ?case by (auto split: option.splits simp: strip_prefix_Some)
qed simp

text \<open>The runtime endpoints the client accepts are exactly the texts \<^verbatim>\<open>unix://\<close> followed by a path that is not empty.\<close>

theorem cri_connect_accepts:
  "cri_connect endpoint timeout = Inr rs \<longleftrightarrow> (\<exists>path. path \<noteq> [] \<and> endpoint = ''unix://'' @ path \<and> rs = \<lparr> rts_path = path, rts_timeout = timeout \<rparr>)"
proof
  assume "cri_connect endpoint timeout = Inr rs"
  then obtain path where p: "split_once_str ''://'' endpoint = Some (''unix'', path)" "path \<noteq> []" "rs = \<lparr> rts_path = path, rts_timeout = timeout \<rparr>"
    by (auto simp: cri_connect_def endpoint_parser_def split: option.splits if_splits)
  have "endpoint = ''unix'' @ ''://'' @ path" by (rule split_once_str_Some [OF _ p(1)]) simp
  then show "\<exists>path. path \<noteq> [] \<and> endpoint = ''unix://'' @ path \<and> rs = \<lparr> rts_path = path, rts_timeout = timeout \<rparr>"
    using p by simp
next
  assume "\<exists>path. path \<noteq> [] \<and> endpoint = ''unix://'' @ path \<and> rs = \<lparr> rts_path = path, rts_timeout = timeout \<rparr>"
  then obtain path where p: "path \<noteq> []" "endpoint = ''unix'' @ ''://'' @ path" "rs = \<lparr> rts_path = path, rts_timeout = timeout \<rparr>" by auto
  have "split_once_str ''://'' endpoint = Some (''unix'', path)"
    unfolding p(2) by (rule split_once_str_append) simp
  then show "cri_connect endpoint timeout = Inr rs" using p(1,3) by (simp add: cri_connect_def endpoint_parser_def)
qed

text \<open>Ending gobgpd: the supervisor forgets the child before it kills it, so that a failed kill is never tried again.\<close>

theorem terminate_forgets_child:
  assumes "supervisor_terminate ops p s = (r, p', s')"
  shows "\<not> is_running p' \<and> supervisor_terminate ops p' u = (Inr (), p', u)"
  using assms by (auto simp: supervisor_terminate_def is_running_def split: option.splits prod.splits)

definition demo_probe :: "nat port_probe" where
  "demo_probe = \<lparr> pp_connect = (\<lambda>_ s. (s \<ge> 50 * 10 ^ 6, s)), pp_now = (\<lambda>s. s), pp_sleep = (\<lambda>d s. s + d) \<rparr>"

theorem wait_port_ready_ends_witness:
  "\<exists>ok s'. wait_port_ready demo_probe ''127.0.0.1:50051'' (5 * 10 ^ 9) 0 = Some (ok, s')
     \<and> (\<not> ok \<longrightarrow> pp_now demo_probe s' \<ge> pp_now demo_probe 0 + 5 * 10 ^ 9)"
proof -
  have "pp_now demo_probe s' \<ge> pp_now demo_probe s" if "pp_connect demo_probe addr s = (ok, s')" for addr s ok s'
    using that by (simp add: demo_probe_def)
  moreover have "pp_now demo_probe (pp_sleep demo_probe d s) \<ge> pp_now demo_probe s + d" for d s by (simp add: demo_probe_def)
  ultimately show ?thesis using wait_port_ready_ends [of demo_probe "''127.0.0.1:50051''" "5 * 10 ^ 9" 0] by blast
qed

definition demo_idle_config :: kube_router_config where
  "demo_idle_config = demo_config \<lparr> kc_run_router := False, kc_run_firewall := False, kc_run_service_proxy := False, kc_run_loadbalancer := False \<rparr>"

lemma demo_idle_components: "components_for demo_idle_config = []"
  by (simp add: components_for_def demo_idle_config_def)

lemma solid_healthz: "solid (''/healthz'' @ [])"
  by code_simp

theorem probe_reports_health_witness:
  "handle_conn id (health_handler 10 (beat_all [] (register_all demo_idle_config 0)))
     (Inr (''GET'' @ '' '' @ (''/healthz'' @ []) @ '' '' @ ''HTTP/1.1'' @ crlf @ crlf)) =
   Some (''HTTP/1.1 200 OK'' @ crlf @ ''Content-Type: text/plain'' @ crlf @ ''Content-Length: 2'' @ crlf @ ''Connection: close'' @ crlf @ crlf @ ''OK'')"
proof -
  have s1: "solid ''GET''" by code_simp
  have s2: "solid ''HTTP/1.1''" by code_simp
  have s3: "solid (''/healthz'' @ [])" by (rule solid_healthz)
  have l: "length (''GET'' @ '' '' @ (''/healthz'' @ []) @ '' '' @ ''HTTP/1.1'' @ crlf @ crlf) \<le> 2048" by (simp add: crlf_def)
  show ?thesis
    by (subst probe_reports_health [OF s1 s2 s3 refl l]) (simp only: demo_idle_components list.pred_inject(1) if_True)
qed

end
