(* ===== verification/Kr_Agent.thy ===== *)
theory Kr_Agent
  imports Kr_Health Kr_RoutingSync Kr_RoutingWire Kr_ProxyWire Kr_Node
begin

text \<open>
  The routing process of the agent, \<^verbatim>\<open>run_routing\<close> of \<^verbatim>\<open>crates/kube-router-rs/src/main.rs\<close> with the loops it starts: the peer loop
  (\<^verbatim>\<open>run\<close> of \<^verbatim>\<open>routing/src/controller.rs\<close>), the direct-route loop (\<^verbatim>\<open>run\<close> of \<^verbatim>\<open>podnet.rs\<close>), the injection of learned routes
  (\<^verbatim>\<open>receive_side_inject\<close>) and the advertisement of service addresses (\<^verbatim>\<open>advertise_service_vips_task\<close>). The loops share the kernel, the
  BGP engine and the heartbeats. One arm of a \<^verbatim>\<open>select!\<close> is one turn; a run is a sequence of turns of any of the tasks, in any
  interleaving. The outside is the record \<open>routing_env\<close>: prefix and YAML parsers, files, netlink, the gobgp process, environment variables.
\<close>

section \<open>Outside and state\<close>

record ('f, 's, 'e, 'n) routing_env =
  re_api :: "'n ipnet_api"
  re_parse_net :: "string \<Rightarrow> 'n option"
  re_yaml :: "string \<Rightarrow> external_peer list option"
  re_yaml_entries :: "string \<Rightarrow> string + peer_entry list"
  re_files :: "'f file_ops"
  re_modprobe :: "'f \<Rightarrow> 'f"
  re_pretty :: "json \<Rightarrow> string"
  re_netlink :: "('s, 'n) netlink_ops"
  re_gobgp :: "('e, 'n) gobgp_env"
  re_env_node_name :: "string option"
  re_env_hostname :: "string option"

record ('f, 's, 'e, 'n) routing_state =
  rs_local_ip :: "ip_addr option"
  rs_engine :: "('e, 'n) selected_engine"
  rs_ctl :: "routes_controller option"
  rs_podnet :: "'n pod_net"
  rs_inj :: "'n route_injector"
  rs_vips :: "'n advertiser"
  rs_files :: 'f
  rs_net :: 's
  rs_bgp :: 'e
  rs_health :: health_state

section \<open>Start\<close>

text \<open>The error is the message of \<^verbatim>\<open>anyhow!\<close>. The peer loop applies the external peers before its first tick.\<close>

definition NO_NODE_NAME :: string where
  "NO_NODE_NAME = ''cannot determine node name; set --hostname-override or NODE_NAME''"

definition advertise_pod_cidrs ::
  "'n::linorder ipnet_api \<Rightarrow> ('e, 'n) bgp_ops \<Rightarrow> 'n list \<Rightarrow> ip_addr option \<Rightarrow> bool \<Rightarrow> 'e \<Rightarrow> 'e" where
  "advertise_pod_cidrs api ops cidrs local_ip enabled e =
     (case local_ip of
        None \<Rightarrow> e
      | Some nh \<Rightarrow> snd (snd (adv_sync api ops cidrs nh enabled advertiser_new e)))"

definition start_peer_loop :: "('e, 'n) bgp_ops \<Rightarrow> routes_controller option \<Rightarrow> 'e \<Rightarrow> routes_controller option \<times> 'e" where
  "start_peer_loop ops ctl e =
     (case ctl of
        None \<Rightarrow> (None, e)
      | Some c \<Rightarrow> (case apply_external_peers ops c e of (_, c', e') \<Rightarrow> (Some c', e')))"

definition routing_start ::
  "('f, 's, 'e, 'n::linorder) routing_env \<Rightarrow> kube_router_config \<Rightarrow> k8s_node list \<Rightarrow> health_state \<Rightarrow> 'f \<Rightarrow> 's \<Rightarrow> 'e
     \<Rightarrow> string + ('f, 's, 'e, 'n) routing_state" where
  "routing_start env c nodes h f s e =
     (case resolve_node_name (re_env_node_name env) (re_env_hostname env) (kc_hostname_override c) of
        None \<Rightarrow> Inl NO_NODE_NAME
      | Some name \<Rightarrow>
         let bgp_policy = local_node_bgp_policy (re_parse_net env) nodes name;
             local_cidrs = local_pod_cidrs (re_parse_net env) nodes name;
             f1 = snd (setup_cni (re_files env) (re_modprobe env) (re_pretty env) (net_to_string (re_api env))
                         local_cidrs (kc_enable_cni c) (kc_enable_ipv6 c) f);
             local_ip = map_option nb_ip (local_node (re_parse_net env) (re_yaml env) (kc_cluster_asn c) nodes name)
         in case build_engine (re_gobgp env) c local_ip e of
              (engine, e1) \<Rightarrow>
               let e2 = advertise_pod_cidrs (re_api env) (selected_ops engine) local_cidrs local_ip (kc_advertise_pod_cidr c) e1;
                   ctl = build_controller (re_parse_net env) (re_yaml env) (re_yaml_entries env) c nodes name
               in case start_peer_loop (selected_ops engine) ctl e2 of
                    (ctl', e3) \<Rightarrow> Inr
                     \<lparr> rs_local_ip = local_ip, rs_engine = engine, rs_ctl = ctl',
                       rs_podnet = \<lparr> pn_local_name = name, pn_applied = [] \<rparr>,
                       rs_inj = with_import_reject (bc_import_reject bgp_policy) (injector_new [] Subnet 254),
                       rs_vips = with_attributes (bc_communities bgp_policy) (bc_path_prepend bgp_policy) advertiser_new,
                       rs_files = f1, rs_net = s, rs_bgp = e3, rs_health = h \<rparr>)"

section \<open>Turns\<close>

text \<open>
  A tick carries the time of its heartbeat and what the informer stores hold then. The best-path events arrive from the
  watch on gobgpd, in order; the watch reconnects until shutdown, so its channel stays open.
\<close>

datatype 'n routing_event =
    PeerTick nat "k8s_node list"
  | PodTick nat "k8s_node list"
  | PathArrival nat "'n path_event"
  | InjectTick nat
  | VipTick "k8s_service list" "k8s_slice list"

definition peer_tick ::
  "('f, 's, 'e, 'n) routing_env \<Rightarrow> kube_router_config \<Rightarrow> nat \<Rightarrow> k8s_node list \<Rightarrow> ('f, 's, 'e, 'n) routing_state
     \<Rightarrow> ('f, 's, 'e, 'n) routing_state" where
  "peer_tick env c now nodes st =
     (case rs_ctl st of
        None \<Rightarrow> st
      | Some ctl \<Rightarrow>
         (case nrc_reconcile_and_apply (selected_ops (rs_engine st))
                 (provider_nodes (re_parse_net env) (re_yaml env) (kc_cluster_asn c) nodes) ctl (rs_bgp st) of
            (_, ctl', e') \<Rightarrow> st \<lparr> rs_ctl := Some ctl', rs_bgp := e', rs_health := heartbeat NetworkRoutes now (rs_health st) \<rparr>))"

definition pod_tick ::
  "('f, 's, 'e, 'n) routing_env \<Rightarrow> nat \<Rightarrow> k8s_node list \<Rightarrow> ('f, 's, 'e, 'n) routing_state \<Rightarrow> ('f, 's, 'e, 'n) routing_state" where
  "pod_tick env now nodes st =
     (case rs_engine st of
        Gobgp _ \<Rightarrow> st
      | Logging \<Rightarrow>
         (case podnet_reconcile (re_netlink env) (node_routes (re_parse_net env) nodes) (rs_podnet st) (rs_net st) of
            (_, p', s') \<Rightarrow> st \<lparr> rs_podnet := p', rs_net := s', rs_health := heartbeat RouteSync now (rs_health st) \<rparr>))"

definition path_arrival ::
  "('f, 's, 'e, 'n::linorder) routing_env \<Rightarrow> nat \<Rightarrow> 'n path_event \<Rightarrow> ('f, 's, 'e, 'n) routing_state
     \<Rightarrow> ('f, 's, 'e, 'n) routing_state" where
  "path_arrival env now ev st =
     (case rs_engine st of
        Logging \<Rightarrow> st
      | Gobgp _ \<Rightarrow>
         if Some (pe_next_hop ev) = rs_local_ip st then st
         else (case on_event (re_api env) (re_netlink env) ev (rs_inj st) (rs_net st) of
            (_, i', s') \<Rightarrow> st \<lparr> rs_inj := i', rs_net := s', rs_health := heartbeat RouteSync now (rs_health st) \<rparr>))"

definition inject_tick ::
  "('f, 's, 'e, 'n) routing_env \<Rightarrow> nat \<Rightarrow> ('f, 's, 'e, 'n) routing_state \<Rightarrow> ('f, 's, 'e, 'n) routing_state" where
  "inject_tick env now st =
     (case rs_engine st of
        Logging \<Rightarrow> st
      | Gobgp _ \<Rightarrow> st \<lparr> rs_net := snd (injector_sync (re_netlink env) (rs_inj st) (rs_net st)),
                       rs_health := heartbeat RouteSync now (rs_health st) \<rparr>)"

definition advertise_defaults_of :: "kube_router_config \<Rightarrow> advertise_defaults" where
  "advertise_defaults_of c =
     \<lparr> ad_cluster = kc_advertise_cluster_ip c, ad_external = kc_advertise_external_ip c,
       ad_loadbalancer = kc_advertise_loadbalancer_ip c \<rparr>"

definition advertise_any :: "kube_router_config \<Rightarrow> bool" where
  "advertise_any c \<longleftrightarrow> kc_advertise_cluster_ip c \<or> kc_advertise_external_ip c \<or> kc_advertise_loadbalancer_ip c"

definition vip_tick ::
  "('f, 's, 'e, 'n::linorder) routing_env \<Rightarrow> kube_router_config \<Rightarrow> k8s_service list \<Rightarrow> k8s_slice list
     \<Rightarrow> ('f, 's, 'e, 'n) routing_state \<Rightarrow> ('f, 's, 'e, 'n) routing_state" where
  "vip_tick env c services slices st =
     (case (rs_engine st, advertise_any c, rs_local_ip st) of
        (Gobgp ops, True, Some nh) \<Rightarrow>
         (let vips = advertised_service_vips (re_api env) (map_svc_vips services slices (pn_local_name (rs_podnet st)))
                       (advertise_defaults_of c)
          in case adv_sync (re_api env) ops vips nh True (rs_vips st) (rs_bgp st) of
               (_, a', e') \<Rightarrow> st \<lparr> rs_vips := a', rs_bgp := e' \<rparr>)
      | _ \<Rightarrow> st)"

fun routing_turn ::
  "('f, 's, 'e, 'n::linorder) routing_env \<Rightarrow> kube_router_config \<Rightarrow> 'n routing_event \<Rightarrow> ('f, 's, 'e, 'n) routing_state
     \<Rightarrow> ('f, 's, 'e, 'n) routing_state" where
  "routing_turn env c (PeerTick now nodes) st = peer_tick env c now nodes st"
| "routing_turn env c (PodTick now nodes) st = pod_tick env now nodes st"
| "routing_turn env c (PathArrival now ev) st = path_arrival env now ev st"
| "routing_turn env c (InjectTick now) st = inject_tick env now st"
| "routing_turn env c (VipTick services slices) st = vip_tick env c services slices st"

definition routing_run ::
  "('f, 's, 'e, 'n::linorder) routing_env \<Rightarrow> kube_router_config \<Rightarrow> 'n routing_event list \<Rightarrow> ('f, 's, 'e, 'n) routing_state
     \<Rightarrow> ('f, 's, 'e, 'n) routing_state" where
  "routing_run env c ts st = fold (routing_turn env c) ts st"

text \<open>Teardown: the engine is asked to stop; the outcome is only logged.\<close>

definition routing_stop :: "('f, 's, 'e, 'n) routing_state \<Rightarrow> ('f, 's, 'e, 'n) routing_state" where
  "routing_stop st =
     (case rs_engine st of
        Logging \<Rightarrow> st
      | Gobgp ops \<Rightarrow> st \<lparr> rs_bgp := snd (bgp_stop ops (rs_bgp st)) \<rparr>)"

section \<open>What never changes, and the heartbeats\<close>

text \<open>What the start fixes for the life of the process.\<close>

definition routing_fixed :: "('f, 's, 'e, 'n) routing_state \<Rightarrow> ('e, 'n) selected_engine \<times> ip_addr option \<times> bool" where
  "routing_fixed st = (rs_engine st, rs_local_ip st, rs_ctl st = None)"

text \<open>The heartbeats of a turn.\<close>

fun turn_beats :: "('e, 'n) selected_engine \<times> ip_addr option \<times> bool \<Rightarrow> 'n routing_event \<Rightarrow> beats" where
  "turn_beats (engine, local_ip, no_ctl) (PeerTick now nodes) = (if no_ctl then [] else [(NetworkRoutes, now)])"
| "turn_beats (engine, local_ip, no_ctl) (PodTick now nodes) = (case engine of Logging \<Rightarrow> [(RouteSync, now)] | _ \<Rightarrow> [])"
| "turn_beats (engine, local_ip, no_ctl) (PathArrival now ev) =
     (case engine of Logging \<Rightarrow> [] | _ \<Rightarrow> if Some (pe_next_hop ev) = local_ip then [] else [(RouteSync, now)])"
| "turn_beats (engine, local_ip, no_ctl) (InjectTick now) = (case engine of Logging \<Rightarrow> [] | _ \<Rightarrow> [(RouteSync, now)])"
| "turn_beats (engine, local_ip, no_ctl) (VipTick services slices) = []"

lemmas routing_tick_defs = peer_tick_def pod_tick_def path_arrival_def inject_tick_def vip_tick_def

lemma beat_all_simps [simp]:
  "beat_all [] h = h" "beat_all ((k, t) # es) h = beat_all es (heartbeat k t h)" "beat_all (es @ fs) h = beat_all fs (beat_all es h)"
  by (simp_all add: beat_all_def)

lemma routing_turn_fixed [simp]: "routing_fixed (routing_turn env c t st) = routing_fixed st"
  by (cases t) (auto simp: routing_tick_defs routing_fixed_def Let_def split: option.splits selected_engine.splits prod.splits bool.splits)

lemma routing_turn_health: "rs_health (routing_turn env c t st) = beat_all (turn_beats (routing_fixed st) t) (rs_health st)"
  by (cases t) (auto simp: routing_tick_defs routing_fixed_def Let_def split: option.splits selected_engine.splits prod.splits bool.splits)

lemma routing_run_simps [simp]:
  "routing_run env c [] st = st" "routing_run env c (t # ts) st = routing_run env c ts (routing_turn env c t st)"
  by (simp_all add: routing_run_def)

lemma routing_run_fixed: "routing_fixed (routing_run env c ts st) = routing_fixed st"
  by (induction ts arbitrary: st) simp_all

lemma routing_run_health:
  "rs_health (routing_run env c ts st) = beat_all (concat (map (turn_beats (routing_fixed st)) ts)) (rs_health st)"
  by (induction ts arbitrary: st) (simp_all add: routing_turn_health)

lemma beats_of_append [simp]: "beats_of k (es @ fs) = beats_of k es @ beats_of k fs"
  by (simp add: beats_of_def)

lemma beats_of_none: "k \<notin> fst ` set es \<Longrightarrow> beats_of k es = []"
  by (force simp: beats_of_def filter_empty_conv split: prod.splits)

lemma routing_start_facts:
  assumes "routing_start env c nodes h f s e = Inr st"
  obtains name where "resolve_node_name (re_env_node_name env) (re_env_hostname env) (kc_hostname_override c) = Some name"
    and "rs_local_ip st = map_option nb_ip (local_node (re_parse_net env) (re_yaml env) (kc_cluster_asn c) nodes name)"
    and "rs_ctl st = None \<longleftrightarrow> local_node (re_parse_net env) (re_yaml env) (kc_cluster_asn c) nodes name = None"
    and "rs_inj st = with_import_reject (bc_import_reject (local_node_bgp_policy (re_parse_net env) nodes name)) (injector_new [] Subnet 254)"
    and "rs_net st = s" "rs_health st = h"
  using assms
  by (auto simp: routing_start_def Let_def start_peer_loop_def build_controller_def
      split: option.splits prod.splits)

text \<open>C36: An agent that routes, on a node without an address at start: no peer loop is started, its component is never beaten again, and once the
  registration is older than the sync period and the grace, the health endpoint answers 500 as long as the process lives, whatever the other loops of
  the agent do.\<close>

theorem router_without_address_stays_unhealthy:
  assumes "kc_run_router c" "routing_start env c nodes (register_all c t0) f s e = Inr st" "rs_local_ip st = None"
    and "now > t0 + kc_routes_sync_period c + GRACE"
    and "fst ` set others \<subseteq> {NetworkPolicyC, NetworkServices, LoadBalancer}"
  shows "healthz_response now (beat_all others (rs_health (routing_run env c ts st))) = (500, ''Unhealthy'')"
proof -
  have fixed: "routing_fixed st = (rs_engine st, None, True)"
    by (rule routing_start_facts [OF assms(2)]) (use assms(3) in \<open>simp add: routing_fixed_def\<close>)
  have h: "rs_health st = register_all c t0" by (rule routing_start_facts [OF assms(2)])
  have "NetworkRoutes \<notin> fst ` set (turn_beats (rs_engine st, None, True) t)" for t :: "'d routing_event"
    by (cases t) (auto split: selected_engine.splits)
  then have "beats_of NetworkRoutes (concat (map (turn_beats (routing_fixed st)) ts) @ others) = []"
    using assms(5) unfolding fixed by (intro beats_of_none) auto
  moreover have "(NetworkRoutes, kc_routes_sync_period c) \<in> set (components_for c)"
    using assms(1) by (simp add: components_for_def)
  ultimately show ?thesis
    unfolding routing_run_health h beat_all_simps(3) [symmetric] healthz_of_beats
    using assms(4) by (force simp: list_all_iff)
qed

section \<open>Learned routes in the kernel\<close>

text \<open>Every route the injector believes to be installed is in the kernel.\<close>

definition table_covers :: "('n \<times> u32 \<rightharpoonup> ip_addr option) \<Rightarrow> 'n route_injector \<Rightarrow> bool" where
  "table_covers t i \<longleftrightarrow> (\<forall>p nh. inj_view i p = Some nh \<longrightarrow> t (p, inj_table i) = Some (Some nh))"

definition other_tables :: "u32 \<Rightarrow> ('n \<times> u32 \<rightharpoonup> ip_addr option) \<Rightarrow> ('n \<times> u32 \<rightharpoonup> ip_addr option) \<Rightarrow> bool" where
  "other_tables n t t' \<longleftrightarrow> (\<forall>k. snd k \<noteq> n \<longrightarrow> t' k = t k)"

lemma other_tables_trans: "other_tables n t t' \<Longrightarrow> other_tables n t' t'' \<Longrightarrow> other_tables n t t''"
  by (simp add: other_tables_def)

lemma believed_entry:
  assumes "inj_ok i" "(p, ir) \<in> set (inj_routes i)"
  shows "\<exists>nh. inj_view i p = Some nh \<and> rt_gateway (ir_route ir) = Some nh \<and> rt_key (ir_route ir) = (p, inj_table i)"
proof -
  have "map_of (inj_routes i) p = Some ir"
    using assms by (intro map_of_is_SomeI) (auto simp: inj_ok_def bmap_ok_def strict_sorted_iff)
  then show ?thesis using inj_ok_lookup [OF assms(1)] by (auto simp: inj_view_def)
qed

context netlink_ordered
begin

lemma drop_route_covers:
  assumes "drop_route ops p i s = (r, i', s')" "inj_ok i" "table_covers (fib s) i"
  shows "inj_ok i' \<and> table_covers (fib s') i' \<and> inj_table i' = inj_table i \<and> inj_import_reject i' = inj_import_reject i
    \<and> inj_view i' = (inj_view i)(p := None) \<and> other_tables (inj_table i) (fib s) (fib s')"
proof (cases "map_of (inj_routes i) p")
  case None
  then show ?thesis using assms by (auto simp: drop_route_def inj_view_absent other_tables_def)
next
  case (Some ir)
  let ?i = "i \<lparr> inj_routes := bmap_remove p (inj_routes i) \<rparr>"
  have del: "nl_route_del ops (ir_route ir) s = (r, s')" and i': "i' = ?i"
    using assms(1) Some by (auto simp: drop_route_def Let_def split: prod.splits)
  have key: "rt_key (ir_route ir) = (p, inj_table i)" using inj_ok_lookup [OF assms(2) Some] by blast
  have fib': "fib s' = fib s \<or> fib s' = (fib s)((p, inj_table i) := None)"
    using del key route_del_ok [of "ir_route ir" s _ s'] route_del_err [of "ir_route ir" s _ s'] by (cases r) auto
  have view: "inj_view ?i = (inj_view i)(p := None)" by (rule inj_view_remove)
  have "table_covers (fib s') ?i"
    using assms(3) fib' by (auto simp: table_covers_def view)
  then show ?thesis using inj_ok_remove [OF assms(2)] i' view fib' by (auto simp: other_tables_def)
qed

lemma on_event_covers:
  assumes "on_event api ops ev i s = (r, i', s')" "inj_ok i" "table_covers (fib s) i"
  shows "inj_ok i' \<and> table_covers (fib s') i' \<and> inj_table i' = inj_table i \<and> inj_import_reject i' = inj_import_reject i
    \<and> (inj_view i' = inj_view i \<or> inj_view i' = rib_step (is_rejected api i) (inj_view i) ev)
    \<and> other_tables (inj_table i) (fib s) (fib s')"
proof (cases "pe_withdrawal ev \<or> is_rejected api i (pe_prefix ev)")
  case True
  then have "drop_route ops (pe_prefix ev) i s = (r, i', s')"
    using assms(1) by (auto simp: on_event_def split: if_splits)
  from drop_route_covers [OF this assms(2,3)] show ?thesis using True by (auto simp: rib_step_def)
next
  case False
  show ?thesis
  proof (cases r)
    case (Inl e)
    then show ?thesis
      using on_event_replace_err [of api ev i s e i' s'] assms False by (auto simp: other_tables_def)
  next
    case (Inr u)
    let ?r = "\<lparr> rt_dst = pe_prefix ev, rt_gateway = Some (pe_next_hop ev), rt_table = inj_table i \<rparr>"
    let ?ir = "\<lparr> ir_route = ?r, ir_via_tunnel = needs_tunnel api (pe_next_hop ev) (inj_local_subnets i) (inj_overlay i) \<rparr>"
    let ?i = "i \<lparr> inj_routes := bmap_insert (pe_prefix ev) ?ir (inj_routes i) \<rparr>"
    obtain v where rep: "nl_route_replace ops ?r s = (Inr v, s')" and i': "i' = ?i"
      using assms(1) False Inr by (auto simp: on_event_def Let_def split: prod.splits sum.splits)
    have fib': "fib s' = (fib s)((pe_prefix ev, inj_table i) \<mapsto> Some (pe_next_hop ev))"
      using route_replace_ok [OF rep] by simp
    have view: "inj_view ?i = (inj_view i)(pe_prefix ev \<mapsto> pe_next_hop ev)"
      by (rule inj_view_insert) simp
    have "table_covers (fib s') ?i"
      using assms(3) by (auto simp: table_covers_def view fib')
    moreover have "inj_ok ?i" by (rule inj_ok_insert [OF assms(2)]) simp_all
    ultimately show ?thesis using i' view False fib' by (auto simp: rib_step_def other_tables_def)
  qed
qed

lemma injector_sync_covers:
  assumes "injector_sync ops i s = (r, s')" "inj_ok i" "table_covers (fib s) i"
  shows "table_covers (fib s') i \<and> other_tables (inj_table i) (fib s) (fib s')"
proof (rule for_each_invariant [OF assms(1) [unfolded injector_sync_def],
      where P = "\<lambda>u. table_covers (fib u) i \<and> other_tables (inj_table i) (fib s) (fib u)"])
  show "table_covers (fib s) i \<and> other_tables (inj_table i) (fib s) (fib s)"
    using assms(3) by (simp add: other_tables_def)
next
  fix x u r u'
  assume x: "x \<in> set (inj_routes i)" and u: "table_covers (fib u) i \<and> other_tables (inj_table i) (fib s) (fib u)"
    and step: "(case x of (_, ir) \<Rightarrow> nl_route_replace ops (ir_route ir)) u = (r, u')"
  obtain p ir where [simp]: "x = (p, ir)" by (cases x)
  obtain nh where e: "inj_view i p = Some nh" "rt_gateway (ir_route ir) = Some nh" "rt_key (ir_route ir) = (p, inj_table i)"
    using believed_entry [OF assms(2)] x by auto
  have "fib u' = fib u \<or> fib u' = (fib u)((p, inj_table i) \<mapsto> Some nh)"
    using step e route_replace_ok [of "ir_route ir" u _ u'] route_replace_err [of "ir_route ir" u _ u'] by (cases r) auto
  then show "table_covers (fib u') i \<and> other_tables (inj_table i) (fib s) (fib u')"
    using u e(1) by (auto simp: table_covers_def other_tables_def)
qed

text \<open>A complete resync puts back whatever is missing.\<close>

lemma injector_sync_restores:
  assumes "injector_sync ops i s = (Inr u, s')" "inj_ok i"
  shows "table_covers (fib s') i \<and> other_tables (inj_table i) (fib s) (fib s')"
proof -
  have eq: "for_each (\<lambda>(_, ir). nl_route_replace ops (ir_route ir)) xs s = for_each (nl_route_replace ops) (map (ir_route \<circ> snd) xs) s"
    for xs :: "('n \<times> 'n injected_route) list" and s
    by (induction xs arbitrary: s) (auto split: prod.splits sum.splits)
  let ?m = "map_of (rev (map (\<lambda>r. (rt_key r, rt_gateway r)) (map (ir_route \<circ> snd) (inj_routes i))))"
  have fib': "fib s' = fib s ++ ?m"
    by (rule replace_all_fib) (use assms(1) in \<open>simp add: injector_sync_def eq\<close>)
  have in_m: "k = (p, inj_table i) \<and> g = inj_view i p \<and> g \<noteq> None" if "?m k = Some g" "fst k = p" for k g p
    using map_of_SomeD [OF that(1)] that(2) believed_entry [OF assms(2)] by fastforce
  have "?m (p, inj_table i) = Some (Some nh)" if v: "inj_view i p = Some nh" for p nh
  proof -
    obtain ir where ir: "map_of (inj_routes i) p = Some ir" using v by (auto simp: inj_view_def bind_eq_Some_conv)
    have "rt_key (ir_route ir) \<in> dom ?m"
      unfolding dom_map_of_conv_image_fst using map_of_SomeD [OF ir]
      by (auto simp: image_image intro: rev_image_eqI)
    then have "(p, inj_table i) \<in> dom ?m" using believed_entry [OF assms(2) map_of_SomeD [OF ir]] by auto
    then show ?thesis using in_m [of "(p, inj_table i)" _ p] v by auto
  qed
  moreover have "?m k = None" if "snd k \<noteq> inj_table i" for k
    using in_m [of k _ "fst k"] that by (cases "?m k"; cases k) auto
  ultimately show ?thesis by (simp add: fib' table_covers_def other_tables_def map_add_Some_iff map_add_dom_app_simps map_add_def)
qed

end

section \<open>Properties of the routing process\<close>

text \<open>The events the injector acts on: those of other nodes.\<close>

definition foreign_events :: "ip_addr option \<Rightarrow> 'n routing_event list \<Rightarrow> 'n path_event set" where
  "foreign_events local_ip ts = {ev. \<exists>now. PathArrival now ev \<in> set ts \<and> Some (pe_next_hop ev) \<noteq> local_ip}"

text \<open>The invariant of the process with gobgpd, over the turns \<open>ts\<close> so far: what is believed is in the kernel, passes the import policy, and was
  announced by another node.\<close>

definition routes_inv ::
  "('f, 's, 'e, 'n::linorder) routing_env \<Rightarrow> ('s \<Rightarrow> 'n \<times> u32 \<rightharpoonup> ip_addr option) \<Rightarrow> 'n list \<Rightarrow> ('n \<times> u32 \<rightharpoonup> ip_addr option)
     \<Rightarrow> 'n routing_event list \<Rightarrow> ('f, 's, 'e, 'n) routing_state \<Rightarrow> bool" where
  "routes_inv env fib reject before ts st \<longleftrightarrow>
     inj_ok (rs_inj st) \<and> inj_table (rs_inj st) = 254 \<and> inj_import_reject (rs_inj st) = reject
     \<and> table_covers (fib (rs_net st)) (rs_inj st) \<and> other_tables 254 before (fib (rs_net st))
     \<and> (\<forall>p nh. inj_view (rs_inj st) p = Some nh \<longrightarrow> \<not> is_rejected (re_api env) (rs_inj st) p
          \<and> (\<exists>ev\<in>foreign_events (rs_local_ip st) ts. pe_prefix ev = p \<and> pe_next_hop ev = nh \<and> \<not> pe_withdrawal ev))"

lemma is_rejected_cong: "inj_import_reject i = inj_import_reject j \<Longrightarrow> is_rejected api i = is_rejected api j"
  by (simp add: is_rejected_def fun_eq_iff)

lemma foreign_events_mono: "set ts \<subseteq> set ts' \<Longrightarrow> foreign_events l ts \<subseteq> foreign_events l ts'"
  by (auto simp: foreign_events_def)

lemma routes_inv_weaken:
  assumes "routes_inv env fib reject before ts st"
    and "rs_inj st' = rs_inj st" "rs_local_ip st' = rs_local_ip st" "rs_net st' = rs_net st" "set ts \<subseteq> set ts'"
  shows "routes_inv env fib reject before ts' st'"
  using assms foreign_events_mono [OF assms(5)] by (fastforce simp: routes_inv_def)

lemma routes_inv_turn:
  fixes env :: "('f, 's, 'e, 'n::linorder) routing_env"
  assumes nl: "netlink_ordered (re_netlink env) fib addrs" and inv: "routes_inv env fib reject before ts st"
    and eng: "rs_engine st = Gobgp ops"
  shows "routes_inv env fib reject before (ts @ [t]) (routing_turn env c t st)"
proof (cases t)
  case (PathArrival now ev)
  show ?thesis
  proof (cases "Some (pe_next_hop ev) = rs_local_ip st")
    case True
    then show ?thesis using PathArrival eng by (auto simp: path_arrival_def intro: routes_inv_weaken [OF inv])
  next
    case False
    obtain r i' s' where ev: "on_event (re_api env) (re_netlink env) ev (rs_inj st) (rs_net st) = (r, i', s')"
      by (metis prod_cases3)
    have st': "routing_turn env c t st = st \<lparr> rs_inj := i', rs_net := s', rs_health := heartbeat RouteSync now (rs_health st) \<rparr>"
      using PathArrival eng False ev by (simp add: path_arrival_def)
    have mem: "ev \<in> foreign_events (rs_local_ip st) (ts @ [t])" using False PathArrival by (auto simp: foreign_events_def)
    have k: "inj_ok i' \<and> table_covers (fib s') i' \<and> inj_table i' = inj_table (rs_inj st)
        \<and> inj_import_reject i' = inj_import_reject (rs_inj st)
        \<and> (inj_view i' = inj_view (rs_inj st) \<or> inj_view i' = rib_step (is_rejected (re_api env) (rs_inj st)) (inj_view (rs_inj st)) ev)
        \<and> other_tables (inj_table (rs_inj st)) (fib (rs_net st)) (fib s')"
      using inv by (intro netlink_ordered.on_event_covers [OF nl ev]) (simp_all add: routes_inv_def)
    have rej: "is_rejected (re_api env) i' = is_rejected (re_api env) (rs_inj st)" using k by (intro is_rejected_cong) simp
    show ?thesis
      unfolding routes_inv_def st'
      using inv k rej mem foreign_events_mono [of ts "ts @ [t]" "rs_local_ip st"] other_tables_trans [of 254 before "fib (rs_net st)" "fib s'"]
      by (auto simp: routes_inv_def rib_step_def split: if_splits) blast+
  qed
next
  case (InjectTick now)
  obtain r s' where sy: "injector_sync (re_netlink env) (rs_inj st) (rs_net st) = (r, s')" by fastforce
  have "table_covers (fib s') (rs_inj st) \<and> other_tables 254 (fib (rs_net st)) (fib s')"
    using netlink_ordered.injector_sync_covers [OF nl sy] inv by (simp add: routes_inv_def)
  then show ?thesis
    using inv InjectTick eng sy foreign_events_mono [of ts "ts @ [t]" "rs_local_ip st"] other_tables_trans [of 254 before "fib (rs_net st)" "fib s'"]
    by (auto simp: routes_inv_def inject_tick_def) blast+
qed (auto simp: routing_tick_defs Let_def eng intro!: routes_inv_weaken [OF inv]
       split: option.splits prod.splits selected_engine.splits bool.splits)

lemma routes_inv_run:
  assumes "netlink_ordered (re_netlink env) fib addrs" "routing_start env c nodes h f s e = Inr st" "rs_engine st = Gobgp ops"
  shows "routes_inv env fib (inj_import_reject (rs_inj st)) (fib s) ts (routing_run env c ts st)
    \<and> rs_engine (routing_run env c ts st) = Gobgp ops \<and> rs_local_ip (routing_run env c ts st) = rs_local_ip st"
proof (induction ts rule: rev_induct)
  case Nil
  obtain rej where i: "rs_inj st = with_import_reject rej (injector_new [] Subnet 254)" and n: "rs_net st = s"
    by (rule routing_start_facts [OF assms(2)]) blast
  have "inj_ok (rs_inj st)" unfolding i by (rule injector_new_ok)
  moreover have "inj_table (rs_inj st) = 254" "inj_view (rs_inj st) = Map.empty"
    by (simp_all add: i injector_new_def with_import_reject_def inj_view_def fun_eq_iff)
  moreover note n
  ultimately show ?case using assms(3) by (simp add: routes_inv_def table_covers_def other_tables_def)
next
  case (snoc t ts)
  let ?u = "routing_run env c ts st"
  have run: "routing_run env c (ts @ [t]) st = routing_turn env c t ?u" by (simp add: routing_run_def)
  have "routing_fixed (routing_turn env c t ?u) = routing_fixed ?u" by simp
  then show ?case
    using snoc routes_inv_turn [OF assms(1), of _ _ ts ?u ops t c] by (auto simp: run routing_fixed_def)
qed

text \<open>C11: For every kernel that keeps the netlink contract, after any interleaving of the loops of an agent with gobgpd and whatever calls
  failed: every route the agent believes to be installed is in the main table with that next hop, passes the import policy of the
  node, and was announced by a best path of another node; every other table of the kernel is as it was found.\<close>

theorem learned_routes_stay_installed:
  assumes "netlink_ordered (re_netlink env) fib addrs" "routing_start env c nodes h f s e = Inr st" "rs_engine st = Gobgp ops"
    and "inj_view (rs_inj (routing_run env c ts st)) p = Some nh"
  shows "fib (rs_net (routing_run env c ts st)) (p, 254) = Some (Some nh)
    \<and> \<not> is_rejected (re_api env) (rs_inj st) p
    \<and> (\<exists>ev\<in>foreign_events (rs_local_ip st) ts. pe_prefix ev = p \<and> pe_next_hop ev = nh \<and> \<not> pe_withdrawal ev)
    \<and> (\<forall>k. snd k \<noteq> 254 \<longrightarrow> fib (rs_net (routing_run env c ts st)) k = fib s k)"
proof -
  let ?u = "routing_run env c ts st"
  have inv: "routes_inv env fib (inj_import_reject (rs_inj st)) (fib s) ts ?u" and loc: "rs_local_ip ?u = rs_local_ip st"
    using routes_inv_run [OF assms(1-3)] by blast+
  have "is_rejected (re_api env) (rs_inj ?u) = is_rejected (re_api env) (rs_inj st)"
    using inv by (intro is_rejected_cong) (simp add: routes_inv_def)
  then show ?thesis using inv loc assms(4) by (auto simp: routes_inv_def table_covers_def other_tables_def)
qed

text \<open>Whatever happened to the kernel in between (a route deleted by hand, a link that went down), a periodic resync of the
  injector that reports no error puts every believed route back.\<close>

theorem resync_restores_learned_routes:
  assumes "netlink_ordered (re_netlink env) fib addrs" "routing_start env c nodes h f s e = Inr st" "rs_engine st = Gobgp ops"
    and "st' = routing_run env c ts st" "injector_sync (re_netlink env) (rs_inj st') k = (Inr u, k')"
    and "inj_view (rs_inj st') p = Some nh"
  shows "fib (rs_net (routing_turn env c (InjectTick now) (st' \<lparr> rs_net := k \<rparr>))) (p, 254) = Some (Some nh)"
proof -
  have ok: "inj_ok (rs_inj st')" "inj_table (rs_inj st') = 254" and eng: "rs_engine st' = Gobgp ops"
    using routes_inv_run [OF assms(1-3)] by (simp_all add: assms(4) routes_inv_def)
  have "table_covers (fib k') (rs_inj st')"
    using netlink_ordered.injector_sync_restores [OF assms(1,5) ok(1)] by blast
  then show ?thesis using assms(5,6) ok(2) eng by (simp add: inject_tick_def table_covers_def)
qed

text \<open>When the best path of a prefix becomes the node's own, the event is skipped: the route over the other node stays in the kernel.\<close>

theorem own_path_leaves_remote_route:
  assumes "netlink_ordered (re_netlink env) fib addrs" "routing_start env c nodes h f s e = Inr st" "rs_engine st = Gobgp ops"
    and "inj_view (rs_inj (routing_run env c ts st)) p = Some nh"
    and "rs_local_ip st = Some own" "pe_next_hop ev = own" "pe_prefix ev = p"
  shows "nh \<noteq> own \<and> fib (rs_net (routing_run env c (ts @ [PathArrival now ev]) st)) (p, 254) = Some (Some nh)"
proof -
  let ?u = "routing_run env c ts st"
  have inv: "routes_inv env fib (inj_import_reject (rs_inj st)) (fib s) ts ?u" and "rs_engine ?u = Gobgp ops"
    and loc: "rs_local_ip ?u = rs_local_ip st"
    using routes_inv_run [OF assms(1-3)] by blast+
  then have "routing_run env c (ts @ [PathArrival now ev]) st = ?u"
    using assms(5,6) by (simp add: routing_run_def path_arrival_def)
  then show ?thesis using inv loc assms(4,5) by (auto simp: routes_inv_def table_covers_def foreign_events_def)
qed

context bgp_engine
begin

lemma peering_keeps_rib:
  assumes "nrc_reconcile_and_apply ops nodes c s = (r, c', s')"
  shows "rib s' = rib s"
proof -
  have add: "rib u' = rib u" if "for_each (\<lambda>p. bgp_add_peer ops (g p)) ps u = (q, u')" for g ps u q u'
    by (rule for_each_invariant [OF that, where P = "\<lambda>v. rib v = rib u"])
       (metis add_peer_ok add_peer_err sum.exhaust)+
  have del: "rib u' = rib u" if "for_each (bgp_delete_peer ops) ps u = (q, u')" for ps u q u'
    by (rule for_each_invariant [OF that, where P = "\<lambda>v. rib v = rib u"])
       (metis delete_peer_ok delete_peer_err sum.exhaust)+
  show ?thesis
    using assms add del by (fastforce simp: nrc_reconcile_and_apply_def split: prod.splits sum.splits)
qed

end

text \<open>The pod CIDRs of the node are advertised once, at start: in an agent that advertises no service addresses, no later turn changes the paths of the
  engine, also when the CIDR of the node was not known at start or the advertisement failed.\<close>

theorem pod_cidrs_advertised_at_start_only:
  assumes "bgp_engine ops peers rib peer_of path_of" "rs_engine st = Gobgp ops" "\<not> advertise_any c"
  shows "rib (rs_bgp (routing_run env c ts st)) = rib (rs_bgp st)"
  using assms(2)
proof (induction ts arbitrary: st)
  case (Cons t ts)
  have "rs_engine (routing_turn env c t st) = Gobgp ops"
    using routing_turn_fixed [of env c t st] Cons.prems by (simp add: routing_fixed_def)
  moreover have "rib (rs_bgp (routing_turn env c t st)) = rib (rs_bgp st)"
    using Cons.prems assms(3) bgp_engine.peering_keeps_rib [OF assms(1)]
    by (cases t) (auto simp: routing_tick_defs split: option.splits prod.splits)
  ultimately show ?case using Cons.IH by simp
qed simp

text \<open>The injection loop ticks with its own period but is registered with the one of the route sync: with a longer injection period, an agent
  that is on time and receives no best path answers 500 before its second tick.\<close>

theorem slow_injection_unhealthy:
  assumes "kc_run_router c" "routing_start env c nodes (register_all c t0) f s e = Inr st" "rs_engine st = Gobgp ops"
    and "t0 \<le> t1" "kc_injected_routes_sync_period c > kc_routes_sync_period c + (t1 - t0) + GRACE"
    and "now = t1 + kc_injected_routes_sync_period c"
  shows "healthz_response now (rs_health (routing_run env c [InjectTick t1, PeerTick now nodes] st)) = (500, ''Unhealthy'')"
proof -
  have h: "rs_health st = register_all c t0" by (rule routing_start_facts [OF assms(2)])
  have b: "beats_of RouteSync (concat (map (turn_beats (routing_fixed st)) [InjectTick t1, PeerTick now nodes])) = [t1]"
    by (simp add: routing_fixed_def assms(3) beats_of_def)
  have "(RouteSync, kc_routes_sync_period c) \<in> set (components_for c)"
    using assms(1) by (simp add: components_for_def)
  moreover have "\<not> now - last [t0, t1] \<le> kc_routes_sync_period c + (t1 - t0) + GRACE" using assms(4-6) by simp
  ultimately show ?thesis
    unfolding routing_run_health h healthz_of_beats using b by (force simp: list_all_iff)
qed

section \<open>A concrete agent\<close>

text \<open>gobgpd is there and answers, the files are in memory, the kernel is the in-memory one.\<close>

definition demo_gobgp_env :: "(gobgp_table, cidr) gobgp_env" where
  "demo_gobgp_env = \<lparr> ge_exists = True, ge_spawn = (\<lambda>_ _. eff_ok ()), ge_wait_port_ready = (\<lambda>_ s. (True, s)),
     ge_connect = (\<lambda>_ _. Inr (grpc_ops cidr_api table_service)) \<rparr>"

definition demo_routing_env :: "(string \<rightharpoonup> string, cidr mock_netlink, gobgp_table, cidr) routing_env" where
  "demo_routing_env = \<lparr> re_api = cidr_api, re_parse_net = (\<lambda>_. None), re_yaml = (\<lambda>_. None), re_yaml_entries = (\<lambda>_. Inl ''''),
     re_files = mem_files, re_modprobe = id, re_pretty = (\<lambda>_. ''''), re_netlink = mock_netlink_ops, re_gobgp = demo_gobgp_env,
     re_env_node_name = Some ''a'', re_env_hostname = None \<rparr>"

lemma demo_start:
  obtains st where "routing_start demo_routing_env demo_config [] h Map.empty mock_new demo_gobgp = Inr st"
    and "rs_engine st = Gobgp (grpc_ops cidr_api table_service)" "rs_local_ip st = None" "rs_net st = mock_new"
    and "rs_inj st = injector_new [] Subnet 254"
proof -
  let ?g = "grpc_ops cidr_api table_service :: (gobgp_table, cidr) bgp_ops"
  have eng: "\<exists>e. build_engine demo_gobgp_env demo_config None demo_gobgp = (Gobgp ?g, e)"
    by (simp add: build_engine_def demo_gobgp_env_def demo_config_def default_config_def eff_ok_def grpc_ops_def map_err_def
        table_service_def Let_def)
  have pol: "local_node_bgp_policy (\<lambda>_. None :: cidr option) [] ''a'' = default_policy"
    by (simp add: local_node_bgp_policy_def find_node_def from_annotations_def path_prepend_of_def default_policy_def)
  have rej: "with_import_reject [] (injector_new [] Subnet 254) = (injector_new [] Subnet 254 :: cidr route_injector)"
    by (simp add: with_import_reject_def injector_new_def)
  have name: "resolve_node_name (Some ''a'') None (kc_hostname_override demo_config) = Some ''a''"
    by (simp add: resolve_node_name_def demo_config_def default_config_def)
  have none: "local_node (\<lambda>_. None :: cidr option) (\<lambda>_. None) (kc_cluster_asn demo_config) [] ''a'' = None"
    by (simp add: local_node_def find_node_def)
  show thesis
    using eng that
    by (auto simp: routing_start_def demo_routing_env_def name none pol rej Let_def build_controller_def start_peer_loop_def
        default_policy_def)
qed

lemma demo_on_event:
  "on_event cidr_api mock_netlink_ops (demo_event 256 7 False) (injector_new [] Subnet 254) s
     = (Inr (), (injector_new [] Subnet 254) \<lparr> inj_routes := [(Cidr4 256 24,
          \<lparr> ir_route = \<lparr> rt_dst = Cidr4 256 24, rt_gateway = Some (AddrV4 7), rt_table = 254 \<rparr>, ir_via_tunnel = True \<rparr>)] \<rparr>,
        snd (nl_route_replace mock_netlink_ops \<lparr> rt_dst = Cidr4 256 24, rt_gateway = Some (AddrV4 7), rt_table = 254 \<rparr> s))"
  by (simp add: on_event_def demo_event_def injector_new_def is_rejected_def needs_tunnel_def mock_netlink_ops_def Let_def)

theorem learned_routes_stay_installed_witness:
  "\<exists>st. routing_start demo_routing_env demo_config [] [] Map.empty mock_new demo_gobgp = Inr st
     \<and> mock_fib (rs_net (routing_run demo_routing_env demo_config [PathArrival 5 (demo_event 256 7 False)] st)) (Cidr4 256 24, 254)
         = Some (Some (AddrV4 7))"
proof -
  obtain st where st: "routing_start demo_routing_env demo_config [] [] Map.empty mock_new demo_gobgp = Inr st"
    and eng: "rs_engine st = Gobgp (grpc_ops cidr_api table_service)" and loc: "rs_local_ip st = None"
    and inj: "rs_inj st = injector_new [] Subnet 254"
    by (rule demo_start)
  have nl: "netlink_ordered (re_netlink demo_routing_env) mock_fib (\<lambda>s. set (mock_addrs s))"
    using mock_ordered.netlink_ordered_axioms by (simp add: demo_routing_env_def)
  have "inj_view (rs_inj (routing_run demo_routing_env demo_config [PathArrival 5 (demo_event 256 7 False)] st)) (Cidr4 256 24)
      = Some (AddrV4 7)"
    by (simp add: path_arrival_def eng loc inj demo_routing_env_def demo_on_event inj_view_def)
  from learned_routes_stay_installed [OF nl st eng this] show ?thesis using st by blast
qed

theorem resync_restores_learned_routes_witness:
  "\<exists>st. routing_start demo_routing_env demo_config [] [] Map.empty mock_new demo_gobgp = Inr st
     \<and> mock_fib (rs_net (routing_turn demo_routing_env demo_config (InjectTick 9)
         (routing_run demo_routing_env demo_config [PathArrival 5 (demo_event 256 7 False)] st \<lparr> rs_net := mock_new \<rparr>))) (Cidr4 256 24, 254)
         = Some (Some (AddrV4 7))"
proof -
  obtain st where st: "routing_start demo_routing_env demo_config [] [] Map.empty mock_new demo_gobgp = Inr st"
    and eng: "rs_engine st = Gobgp (grpc_ops cidr_api table_service)" and loc: "rs_local_ip st = None"
    and inj: "rs_inj st = injector_new [] Subnet 254"
    by (rule demo_start)
  let ?u = "routing_run demo_routing_env demo_config [PathArrival 5 (demo_event 256 7 False)] st"
  have nl: "netlink_ordered (re_netlink demo_routing_env) mock_fib (\<lambda>s. set (mock_addrs s))"
    using mock_ordered.netlink_ordered_axioms by (simp add: demo_routing_env_def)
  have view: "inj_view (rs_inj ?u) (Cidr4 256 24) = Some (AddrV4 7)"
    by (simp add: path_arrival_def eng loc inj demo_routing_env_def demo_on_event inj_view_def)
  have "injector_sync mock_netlink_ops i mock_new = (Inr (), fold (\<lambda>(_, ir) m. snd (nl_route_replace mock_netlink_ops (ir_route ir) m))
      (inj_routes i) mock_new)" for i :: "cidr route_injector"
    unfolding injector_sync_def by (rule for_each_total) (auto simp: mock_netlink_ops_def)
  then obtain k' where "injector_sync (re_netlink demo_routing_env) (rs_inj ?u) mock_new = (Inr (), k')"
    by (simp add: demo_routing_env_def)
  from resync_restores_learned_routes [OF nl st eng refl this view, of 9] st show ?thesis by blast
qed

theorem router_without_address_stays_unhealthy_witness:
  "\<exists>st. routing_start demo_routing_env demo_config [] (register_all demo_config 0) Map.empty mock_new demo_gobgp = Inr st
     \<and> healthz_response (10 ^ 12) (beat_all [(NetworkPolicyC, 10 ^ 12), (NetworkServices, 10 ^ 12)]
         (rs_health (routing_run demo_routing_env demo_config [PeerTick (10 ^ 12) [], InjectTick (10 ^ 12)] st))) = (500, ''Unhealthy'')"
proof -
  obtain st where st: "routing_start demo_routing_env demo_config [] (register_all demo_config 0) Map.empty mock_new demo_gobgp = Inr st"
    and loc: "rs_local_ip st = None"
    by (rule demo_start)
  have "kc_run_router demo_config" "10 ^ 12 > 0 + kc_routes_sync_period demo_config + GRACE"
    by (simp_all add: demo_config_def default_config_def GRACE_def)
  from router_without_address_stays_unhealthy [OF this(1) st loc this(2),
      of "[(NetworkPolicyC, 10 ^ 12), (NetworkServices, 10 ^ 12)]" "[PeerTick (10 ^ 12) [], InjectTick (10 ^ 12)]"] st
  show ?thesis by simp
qed


end
