(* ===== verification/Kr_Start.thy ===== *)
theory Kr_Start
  imports Kr_Agent Kr_Serve Kr_NetpolWire Kr_ProxyWorld Kr_ProxyType
begin

text \<open>
  How \<^verbatim>\<open>main.rs\<close> starts the firewall and the service proxy from the configuration (\<^verbatim>\<open>run_firewall\<close>, \<^verbatim>\<open>run_serviceproxy\<close>), the loop of the firewall
  (\<^verbatim>\<open>run\<close> of \<^verbatim>\<open>netpol/src/controller.rs\<close>) and the two readings of the node port range (\<^verbatim>\<open>validate_node_port_range\<close> of
  \<^verbatim>\<open>netpol/src/naming.rs\<close> and \<^verbatim>\<open>parse_port_range\<close> of \<^verbatim>\<open>proxy/src/sync.rs\<close>).
\<close>

section \<open>The firewall\<close>

fun split_once_any :: "char list \<Rightarrow> string \<Rightarrow> (string \<times> string) option" where
  "split_once_any cs [] = None"
| "split_once_any cs (x # xs) =
     (if x \<in> set cs then Some ([], xs) else map_option (\<lambda>(a, b). (x # a, b)) (split_once_any cs xs))"

definition validate_node_port_range :: "string \<Rightarrow> string option" where
  "validate_node_port_range flag =
     Option.bind (split_once_any ''-:'' flag) (\<lambda>(a, b).
     Option.bind (parse_u16 (trim a)) (\<lambda>lo. Option.bind (parse_u16 (trim b)) (\<lambda>hi.
       if lo \<ge> hi then None else Some (show_nat (unat lo) @ '':'' @ show_nat (unat hi)))))"

definition config_families :: "kube_router_config \<Rightarrow> ip_family list" where
  "config_families c = (if kc_enable_ipv4 c then [V4] else []) @ (if kc_enable_ipv6 c then [V6] else [])"

definition firewall_start ::
  "(string \<Rightarrow> 'n option) \<Rightarrow> string option \<Rightarrow> string option \<Rightarrow> kube_router_config \<Rightarrow> k8s_node list \<Rightarrow> string + 'n firewall_config" where
  "firewall_start parse_net env_node_name env_hostname c nodes =
     (case resolve_node_name env_node_name env_hostname (kc_hostname_override c) of
        None \<Rightarrow> Inl NO_NODE_NAME
      | Some name \<Rightarrow> Inr
          \<lparr> fc_families = config_families c, fc_node = name, fc_sync_version = ''kr'', fc_default_deny = kc_netpol_default_deny c,
            fc_pod_cidrs = local_pod_cidrs parse_net nodes name,
            fc_service_cluster_ip_ranges = List.map_filter parse_net (kc_service_cluster_ip_range c),
            fc_node_port_range = validate_node_port_range (kc_service_node_port_range c) \<rparr>)"

text \<open>The loop: every tick syncs what the stores show then, logs an error and beats.\<close>

type_synonym policy_objects = "k8s_network_policy list \<times> k8s_pod list \<times> k8s_meta list"

fun firewall_run ::
  "'n ipnet_api \<Rightarrow> (string \<Rightarrow> 'n option) \<Rightarrow> encoder \<Rightarrow> 's firewall_ops \<Rightarrow> 'n firewall_config \<Rightarrow> (nat \<times> policy_objects) list
     \<Rightarrow> 's \<times> health_state \<Rightarrow> 's \<times> health_state" where
  "firewall_run api parse_net enc ops cfg [] (s, h) = (s, h)"
| "firewall_run api parse_net enc ops cfg ((now, policies, pods, namespaces) # ticks) (s, h) =
     firewall_run api parse_net enc ops cfg ticks
       (snd (firewall_reconcile api enc ops cfg (netpol_snapshot parse_net policies pods namespaces) s), heartbeat NetworkPolicyC now h)"

section \<open>The service proxy\<close>

text \<open>The tools of the host as the service proxy uses them, one of each kind per family where \<^verbatim>\<open>for_family\<close> builds them.\<close>

record ('s, 'n) proxy_tools =
  pt_api :: "'n ipnet_api"
  pt_parse_net :: "string \<Rightarrow> 'n option"
  pt_ipvs :: "'s ipvs_ops"
  pt_netlink :: "('s, 'n) netlink_ops"
  pt_nat :: "ip_family \<Rightarrow> 's nat_ops"
  pt_fw_iptables :: "ip_family \<Rightarrow> 's fw_iptables"
  pt_mangle :: "ip_family \<Rightarrow> 's mangle_ops"
  pt_fw_ipset :: "string \<Rightarrow> ('s, ipt_error, unit) eff"
  pt_publish :: "stat_sample list \<Rightarrow> nat \<Rightarrow> 's \<Rightarrow> 's"
  pt_now :: "'s \<Rightarrow> int"
  pt_sysctl_write :: "string \<Rightarrow> string \<Rightarrow> ('s, string, unit) eff"
  pt_ip_addr_show :: "('s, string, string) eff"
  pt_bind :: "string \<Rightarrow> ('s, string, unit) eff"
  pt_services :: "'s \<Rightarrow> k8s_service list"
  pt_slices :: "'s \<Rightarrow> k8s_slice list"

definition per_family :: "kube_router_config \<Rightarrow> (ip_family \<Rightarrow> 'o) \<Rightarrow> (bool \<times> 'o) list" where
  "per_family c build = map (\<lambda>f. (f = V6, build f)) (config_families c)"

definition proxy_ranges :: "(string \<Rightarrow> 'n option) \<Rightarrow> kube_router_config \<Rightarrow> 'n validation_ranges" where
  "proxy_ranges parse_net c =
     \<lparr> vr_external = List.map_filter parse_net (kc_service_external_ip_range c),
       vr_loadbalancer = List.map_filter parse_net (kc_loadbalancer_ip_range c),
       vr_cluster = List.map_filter parse_net (kc_service_cluster_ip_range c),
       vr_strict = kc_strict_external_ip_validation c \<rparr>"

definition proxy_masquerade :: "'n ipnet_api \<Rightarrow> kube_router_config \<Rightarrow> ip_addr option \<Rightarrow> 'n list \<Rightarrow> masquerade_cfg" where
  "proxy_masquerade api c primary pod_cidrs =
     \<lparr> mq_all = kc_masquerade_all c, mq_random_fully = True,
       mq_primary = (case primary of Some ip \<Rightarrow> [(is_ipv6 ip, ip)] | None \<Rightarrow> []), mq_pod_cidrs = map (net_to_string api) pod_cidrs \<rparr>"

text \<open>The addresses for node ports: all local ones when the flag asks for them, else the primary one.\<close>

definition node_port_addresses :: "('s, 'n) proxy_tools \<Rightarrow> kube_router_config \<Rightarrow> ip_addr option \<Rightarrow> 's \<Rightarrow> ip_addr list \<times> 's" where
  "node_port_addresses t c primary s =
     (if kc_nodeport_bindon_all_ip c then all_local_ips (pt_ip_addr_show t) s
      else (case primary of Some ip \<Rightarrow> [ip] | None \<Rightarrow> [], s))"

definition proxy_build ::
  "('s, 'n) proxy_tools \<Rightarrow> kube_router_config \<Rightarrow> string \<Rightarrow> ip_addr option \<Rightarrow> 'n list \<Rightarrow> ip_addr list \<Rightarrow> ('s, 'n) service_sync \<times> sync_state" where
  "proxy_build t c name primary pod_cidrs node_ips =
     (case sync_new (pt_netlink t) (pt_ipvs t) (\<lambda>s. map_services (pt_services t s) (pt_slices t s) name) (pt_api t)
             (proxy_ranges (pt_parse_net t) c) (pt_now t) (pt_sysctl_write t) (pt_ip_addr_show t) (pt_bind t) of
        (y0, st) \<Rightarrow>
         let y1 = with_graceful (kc_ipvs_graceful_termination c) (int (kc_ipvs_graceful_period c)) (y0 \<lparr> sy_node_ips := node_ips \<rparr>);
             y2 = y1 \<lparr> sy_metrics := Some (pt_publish t), sy_node_port_range := parse_port_range (kc_service_node_port_range c) \<rparr>;
             y3 = with_hairpin (kc_hairpin_mode c) (per_family c (pt_nat t)) y2;
             y4 = with_dsr (per_family c (pt_mangle t)) 1500 (y3 \<lparr> sy_masquerade := Some (proxy_masquerade (pt_api t) c primary pod_cidrs) \<rparr>)
         in (with_firewall (kc_ipvs_permit_all c) (per_family c (pt_fw_iptables t)) (pt_fw_ipset t) y4,
             with_nodeport_healthchecks nphc_new st))"

text \<open>The order: the node is looked up, the kernel settings are applied, the addresses are read, the controller is built.\<close>

definition proxy_start ::
  "('s, 'n) proxy_tools \<Rightarrow> (string \<Rightarrow> external_peer list option) \<Rightarrow> (ip_addr option \<Rightarrow> 's \<Rightarrow> 's) \<Rightarrow> string option \<Rightarrow> string option
     \<Rightarrow> kube_router_config \<Rightarrow> k8s_node list \<Rightarrow> 's \<Rightarrow> string + ('s, 'n) service_sync \<times> sync_state \<times> 's" where
  "proxy_start t yaml sysctls env_node_name env_hostname c nodes s =
     (case resolve_node_name env_node_name env_hostname (kc_hostname_override c) of
        None \<Rightarrow> Inl NO_NODE_NAME
      | Some name \<Rightarrow>
         let pod_cidrs = local_pod_cidrs (pt_parse_net t) nodes name;
             primary = map_option nb_ip (local_node (pt_parse_net t) yaml (kc_cluster_asn c) nodes name);
             s1 = sysctls primary s
         in case node_port_addresses t c primary s1 of
              (node_ips, s2) \<Rightarrow> (case proxy_build t c name primary pod_cidrs node_ips of (y, st) \<Rightarrow> Inr (y, st, s2)))"

section \<open>Properties\<close>

lemma split_once_any_one: "CHR '':'' \<notin> set s \<Longrightarrow> split_once_any ''-:'' s = split_once CHR ''-'' s"
  by (induction s) auto


lemma demo_ports:
  "parse_u16 (trim ''30000'') = Some 30000" "parse_u16 (trim ''32767'') = Some 32767"
  by (simp_all add: parse_u16_def parse_uint_def trim_def is_space_def to_digit_def)


text \<open>A range written with a colon, which the firewall takes, leaves the node ports of the service proxy unrestricted; a range of one port is restricted by
  the proxy and not opened by the firewall. The checks of the configuration accept both.\<close>

theorem node_port_readings_differ:
  "validate_node_port_range ''30000:32767'' = Some (show_nat 30000 @ '':'' @ show_nat 32767) \<and> parse_port_range ''30000:32767'' = None
   \<and> validate_node_port_range ''30000-30000'' = None \<and> parse_port_range ''30000-30000'' = Some (30000, 30000)"
  by (simp add: validate_node_port_range_def parse_port_range_def demo_ports)

text \<open>The heartbeat of the firewall says that the loop turns, not that a sync succeeds: for every outcome of the syncs the health state is the same.\<close>

theorem firewall_beats_whatever_happens:
  "snd (firewall_run api parse_net enc ops cfg ticks (s, h)) = beat_all (map (\<lambda>(now, _). (NetworkPolicyC, now)) ticks) h"
  by (induction ticks arbitrary: s h) (auto split: prod.split)

text \<open>C22: The service proxy as the agent builds it from a configuration, over any sequence of ticks and change signals and for any behaviour of the kernel, of the
  tools and of the API: its own state stays well formed. What it counts as applied is sorted by the key of each virtual service, with live
  destinations and an owner for every entry; the bound addresses are an ordered set; the queue holds every draining destination once, with weight zero.\<close>

theorem proxy_state_well_formed:
  assumes "proxy_start t yaml sysctls env_node_name env_hostname c nodes s = Inr (y, st, s1)"
  shows "sync_wf (fst (sync_run y beat wakes (st, s1)))"
proof (rule sync_run_wf)
  have "st = with_nodeport_healthchecks nphc_new \<lparr> ss_gqueue = [], ss_nphc = None, ss_firewall_setup_done = False, ss_dsr_registry = [], ss_applied = [],
        ss_meta = [], ss_bound_vips = [], ss_sloppy_tcp = False \<rparr>"
    using assms by (auto simp: proxy_start_def proxy_build_def sync_new_def Let_def split: option.splits prod.splits)
  then show "sync_wf (fst (st, s1))"
    by (simp add: with_nodeport_healthchecks_def sync_wf_def desired_wf_def meta_matches_def queue_wf_def gq_ok_def bmap_ok_def)
qed

definition demo_proxy_tools :: "(world, cidr) proxy_tools" where
  "demo_proxy_tools = \<lparr> pt_api = cidr_api, pt_parse_net = (\<lambda>_. None), pt_ipvs = world_ipvs False, pt_netlink = world_netlink,
     pt_nat = (\<lambda>_. system_nat world_run), pt_fw_iptables = (\<lambda>_. system_fw_iptables world_run), pt_mangle = (\<lambda>_. system_mangle world_run),
     pt_fw_ipset = (\<lambda>_. eff_ok ()), pt_publish = (\<lambda>_ _ s. s), pt_now = (\<lambda>_. 0), pt_sysctl_write = (\<lambda>_ _. eff_ok ()),
     pt_ip_addr_show = eff_ok [], pt_bind = (\<lambda>_. eff_ok ()), pt_services = (\<lambda>_. []), pt_slices = (\<lambda>_. []) \<rparr>"

theorem proxy_state_well_formed_witness:
  "\<exists>y st s1. proxy_start demo_proxy_tools (\<lambda>_. None) (\<lambda>_ s. s) (Some ''a'') None demo_config [] (Kr_ProxyWorld.demo_world []) = Inr (y, st, s1)
     \<and> sync_wf (fst (sync_run y id [Tick, Changed, Stop] (st, s1)))"
proof -
  have "resolve_node_name (Some ''a'') None (kc_hostname_override demo_config) = Some ''a''"
    by (simp add: resolve_node_name_def demo_config_def default_config_def)
  then obtain y st s1 where
    run: "proxy_start demo_proxy_tools (\<lambda>_. None) (\<lambda>_ s. s) (Some ''a'') None demo_config [] (Kr_ProxyWorld.demo_world []) = Inr (y, st, s1)"
    by (fastforce simp: proxy_start_def Let_def split: prod.splits)
  with proxy_state_well_formed [OF run] show ?thesis by blast
qed

end
