(* ===== verification/Spec2Isabelle.thy ===== *)
theory Spec2Isabelle
  imports Kr_Prelude Kr_IpNet Kr_AddrText Kr_LbAlloc Kr_Election Kr_Netlink Kr_Bgp Kr_Routing Kr_RoutingSync
    Kr_NetpolModel Kr_NetpolSynth Kr_NetpolEval Kr_NetpolSpec Kr_NetpolPlan Kr_NetpolLimits
    Kr_Ipvs Kr_Genetlink Kr_Iptables Kr_ProxyRules Kr_Dsr Kr_ProxyPlan Kr_ProxySync Kr_ProxyTables Kr_ProxyWorld
    Kr_Kube Kr_Config Kr_NetpolWire Kr_ProxyWire Kr_RoutingWire Kr_Health Kr_Cleanup Kr_Node
    Kr_LbWire Kr_ProxyType Kr_Serve Kr_Agent Kr_Start
begin

text \<open>
  kube-router-rs is a node agent for Kubernetes networking: a Rust rewrite of kube-router that runs on every node,
  watches the API server and programs the kernel. This library models its controllers and the layers they stand
  on as HOL functions, translated from the sources under \<^verbatim>\<open>src/crates\<close>, and proves what they do.

  \<^bold>\<open>The parts of the program and how they interact.\<close>
  The agent (\<^verbatim>\<open>kube-router-rs\<close>) starts up to four controllers. The \<^emph>\<open>routing\<close> controller derives BGP peers from the nodes,
  advertises pod and service prefixes through a BGP engine and installs the routes it learns. The \<^emph>\<open>network policy\<close>
  controller turns pods, namespaces and policies into ipsets and an iptables filter table. The \<^emph>\<open>service proxy\<close> turns
  services and endpoints into IPVS virtual services, addresses on a dummy interface and iptables rules. The
  \<^emph>\<open>load-balancer allocator\<close> hands out addresses from pools, on the one instance that holds a lease. Each controller
  is a loop that reads a snapshot, computes what it wants, compares it with what it applied before, calls operations
  that may fail, and records what it applied. Below them are the netlink layer, the BGP engine, the IPVS layer and the
  iptables and ipset commands; these traits are records of operations here, and each is an argument of what uses it.

  \<^bold>\<open>How the code is rendered.\<close>
  A fallible operation on an outside state is an \<open>eff\<close>: it returns \<open>Inr\<close> a result or \<open>Inl\<close> an error, with the state in
  both cases, so what was done before a failure stays done. The operator \<^verbatim>\<open>?\<close> is \<open>eff_bind\<close>, a loop with
  \<^verbatim>\<open>?\<close> in its body is \<open>for_each\<close>. Ordered sets and maps of the standard library are sorted lists. Machine integers keep their
  width. Strings are ASCII character lists. What is not in the repository is a parameter with its documented laws as a locale:
  the \<^verbatim>\<open>ipnet\<close> crate (\<open>ipnet_api\<close>), the SHA-256 and base32 text of names, the \<^verbatim>\<open>ip\<close>, \<^verbatim>\<open>iptables\<close>, \<^verbatim>\<open>ipset\<close> and \<^verbatim>\<open>ipvsadm\<close>
  commands, the gRPC service of gobgpd, the Kubernetes API, the clock, the kernel.

  \<^bold>\<open>Theories.\<close>
  \<^item> \<^verbatim>\<open>Kr_Prelude\<close>: effects, addresses, ordered maps (locale \<open>kv_store\<close>). \<^verbatim>\<open>Kr_IpNet\<close>, \<^verbatim>\<open>Kr_AddrText\<close>, \<^verbatim>\<open>Kr_Text\<close>: the text of
    addresses, prefixes and numbers and the string functions the sources use (\<^verbatim>\<open>common/src/ipfamily.rs\<close>, \<^verbatim>\<open>naming.rs\<close> and
    the standard library); printing and parsing are inverse.
  \<^item> \<^verbatim>\<open>Kr_LbAlloc\<close>, \<^verbatim>\<open>Kr_Election\<close> (\<^verbatim>\<open>lballoc/src\<close>): the pool cursor and its search, the plan of a service, the allocation
    pass; the Lease backend, the elector and the event loop. No address is handed out twice; a free address is found
    when ranges are disjoint; under any interleaving of API calls a lease changes hands only after it expired.
  \<^item> \<^verbatim>\<open>Kr_Netlink\<close> (\<^verbatim>\<open>netlink-sys/src\<close>): the locale \<open>netlink\<close>, its in-memory implementation, the command implementation, bounded retry.
  \<^item> \<^verbatim>\<open>Kr_Bgp\<close> (\<^verbatim>\<open>bgp/src\<close>): paths, peers, the locale of the engine, conversion to and from the gobgp messages (round trip).
  \<^item> \<^verbatim>\<open>Kr_Routing\<close>, \<^verbatim>\<open>Kr_RoutingSync\<close> (\<^verbatim>\<open>routing/src\<close>): overlay decisions, peer derivation, pod routes, route injection,
    advertisement. Successful passes converge; injected routes are the learned best paths after any sequence of events;
    iBGP sessions are mutual; and the error paths that lose routes or peers.
  \<^item> \<^verbatim>\<open>Kr_NetpolModel\<close>, \<^verbatim>\<open>Kr_NetpolSynth\<close>, \<^verbatim>\<open>Kr_NetpolEval\<close>, \<^verbatim>\<open>Kr_NetpolSpec\<close>, \<^verbatim>\<open>Kr_NetpolPlan\<close>, \<^verbatim>\<open>Kr_NetpolLimits\<close> (\<^verbatim>\<open>netpol/src\<close>): selectors and
    policies, the synthesis of chains and sets, a packet-filter semantics with marks, what the policies promise, the
    refinement of that promise by the loaded plan, and concrete worlds in which the plan falls short of it.
  \<^item> \<^verbatim>\<open>Kr_Ipvs\<close>, \<^verbatim>\<open>Kr_Iptables\<close>, \<^verbatim>\<open>Kr_ProxyRules\<close>, \<^verbatim>\<open>Kr_Dsr\<close> (\<^verbatim>\<open>proxy/src\<close>): services, endpoints, IPVS command lines and
    listings, the locale \<open>ipvs\<close> of the table, the locale \<open>iptables\<close> of the command, hairpin, masquerade, firewall, health
    checks, firewall marks.
  \<^item> \<^verbatim>\<open>Kr_ProxyPlan\<close>, \<^verbatim>\<open>Kr_ProxySync\<close>, \<^verbatim>\<open>Kr_ProxyTables\<close>, \<^verbatim>\<open>Kr_ProxyWorld\<close> (\<^verbatim>\<open>proxy/src/sync.rs\<close>): the plan of a snapshot and what it serves;
    the whole pass and the loop; the locale \<open>proxy_env\<close> of its surroundings, the effect of every stage on the table
    and the invariant that kernel and books agree; an executable world in which passes are run. \<^verbatim>\<open>Kr_ProxyType\<close>: the controller's own
    state stays well formed under every pass, also one that stops half-way.
  \<^item> \<^verbatim>\<open>Kr_Kube\<close>: the Kubernetes objects as far as the sources read them. \<^verbatim>\<open>Kr_NetpolWire\<close>, \<^verbatim>\<open>Kr_ProxyWire\<close>, \<^verbatim>\<open>Kr_RoutingWire\<close>, \<^verbatim>\<open>Kr_LbWire\<close>
    (\<^verbatim>\<open>netpol_wire.rs\<close>, \<^verbatim>\<open>proxy_wire.rs\<close>, \<^verbatim>\<open>svc_vip_wire.rs\<close>, \<^verbatim>\<open>routing_wire.rs\<close>, \<^verbatim>\<open>lballoc_wire.rs\<close>, \<^verbatim>\<open>kube-client/src/node.rs\<close>, the annotations
    of \<^verbatim>\<open>routing/src\<close>): the projections of the objects to the inputs of the controllers. A projected policy keeps the meaning the API gives
    it; what is advertised for a service is also served; the status updates of the allocator (locale \<open>status_api\<close>) never give an
    address to two services.
  \<^item> \<^verbatim>\<open>Kr_Config\<close> (\<^verbatim>\<open>config/src\<close>): all flags, their defaults, the checks across them. \<^verbatim>\<open>Kr_Health\<close> (\<^verbatim>\<open>observability/src/health.rs\<close>,
    \<^verbatim>\<open>orchestrate.rs\<close>): heartbeats and the health answer, as a function of when each controller beat. \<^verbatim>\<open>Kr_Serve\<close>
    (\<^verbatim>\<open>http.rs\<close>, \<^verbatim>\<open>metrics.rs\<close>, \<^verbatim>\<open>logging.rs\<close>, \<^verbatim>\<open>bgp/src/server.rs\<close>, \<^verbatim>\<open>policy.rs\<close>, \<^verbatim>\<open>cri/src\<close>, \<^verbatim>\<open>kube-client/src/client.rs\<close>): requests and responses,
    the metrics families, the gobgpd process and the wait for its port, the container runtime.
  \<^item> \<^verbatim>\<open>Kr_Node\<close> (\<^verbatim>\<open>common/src/sysctl.rs\<close>, \<^verbatim>\<open>cni/src\<close>, parts of \<^verbatim>\<open>main.rs\<close> and \<^verbatim>\<open>routing_wire.rs\<close>): kernel settings and the configuration and
    plugins of the container network, over the locales \<open>file_store\<close> and \<open>open_settings\<close>. \<^verbatim>\<open>Kr_Cleanup\<close> (\<^verbatim>\<open>cleanup.rs\<close> and the commands of
    \<^verbatim>\<open>netpol/src\<close>): the teardown, over the locale \<open>host_tools\<close>.
  \<^item> \<^verbatim>\<open>Kr_Agent\<close>, \<^verbatim>\<open>Kr_Start\<close> (\<^verbatim>\<open>main.rs\<close>, the \<^verbatim>\<open>run\<close> methods of \<^verbatim>\<open>routing/src\<close> and \<^verbatim>\<open>netpol/src\<close>): how the controllers are started from the
    configuration, and the routing process as interleaved turns of its loops over one kernel, one engine and one health state. Every route
    it counts as installed is in the kernel, in every interleaving and whatever fails; which loops keep the agent healthy.

  \<^bold>\<open>Bounds and fuel.\<close>
  The pool search and the wait for a port are \<open>partial_function\<close>s on option and are proved to return. The packet-filter semantics takes a chain depth;
  two levels below the entry chain are enough for the plans built here, and the theorems are stated for every larger depth.
  Retry and mark assignment recurse on a measure. No other definition uses fuel.

  \<^bold>\<open>Not modelled.\<close>
  Log messages, the text of the metrics registry, the accept loop of the HTTP server, raw sockets (input and output only); the flag parser and the
  YAML and JSON decoders (library code, parameters where their results matter); building Kubernetes clients and reflectors, waiting for their caches,
  signals and the spawning and aborting of tasks in \<^verbatim>\<open>main.rs\<close> (calls into tokio and kube). The loops are sequences of turns here, one
  arm of a \<^verbatim>\<open>select!\<close> being atomic; the informer stores are lists of objects. Test modules and mocks that only record calls are left out.
\<close>

end
